(* ===== verification/Prelude.thy ===== *)
theory Prelude
  imports Main "HOL-Library.Word"
begin

text \<open>
  Shared vocabulary of the development: the machine types of the C++ sources, the faults a run can
  end in, sequencing of fallible computations, byte orders, and generic lemmas on lists and bytes.

  A computation that the source leaves undefined or that aborts (an \<open>assert\<close>, a heap access out
  of bounds, a dangling reference, a null pointer, a thrown \<open>std::out_of_range\<close> or other exception that
  nobody catches, a loop that does not end) is a value \<open>Inl fault\<close>; a computation that returns is
  \<open>Inr\<close> of its result and its new state. The programs are modelled for the platform their build files
  target, a 64-bit little-endian Linux.
\<close>

unbundle bit_operations_syntax

section \<open>Types\<close>

type_synonym byte = "8 word"
type_synonym u16 = "16 word"
type_synonym u32 = "32 word"
type_synonym u64 = "64 word"

datatype fault =
    AssertFail
  | OutOfBounds
  | UseAfterFree
  | NullDeref
  | OutOfRange
  | BadCall
  | Exception
  | NoReturn
  | Uninitialised

named_theorems res_simps \<open>unfolding of fallible sequencing\<close>
named_theorems byte_simps \<open>lengths and round trips of byte encodings\<close>

section \<open>Sequencing of fallible steps\<close>

fun rbind :: "fault + 'a \<Rightarrow> ('a \<Rightarrow> fault + 'b) \<Rightarrow> fault + 'b" where
  "rbind (Inl f) k = Inl f"
| "rbind (Inr x) k = k x"

declare rbind.simps [res_simps]

lemma rbind_eq_Inr: "rbind m k = Inr y \<longleftrightarrow> (\<exists>x. m = Inr x \<and> k x = Inr y)"
  by (cases m) auto

lemma rbind_assoc: "rbind (rbind m k) l = rbind m (\<lambda>x. rbind (k x) l)"
  by (cases m) auto

definition no_fault :: "fault + 'a \<Rightarrow> bool" where
  "no_fault r = (case r of Inl _ \<Rightarrow> False | Inr _ \<Rightarrow> True)"

lemma no_fault_simps [simp]: "no_fault (Inr x)" "\<not> no_fault (Inl f)"
  by (simp_all add: no_fault_def)

lemma no_faultI: "r = Inr x \<Longrightarrow> no_fault r"
  by simp

section \<open>Bytes\<close>

text \<open>The number a byte list stands for, least significant byte first.\<close>

fun le_nat :: "byte list \<Rightarrow> nat" where
  "le_nat [] = 0"
| "le_nat (b # bs) = unat b + 256 * le_nat bs"

fun nat_le :: "nat \<Rightarrow> nat \<Rightarrow> byte list" where
  "nat_le 0 n = []"
| "nat_le (Suc k) n = of_nat (n mod 256) # nat_le k (n div 256)"

text \<open>The same, most significant byte first (network byte order).\<close>

definition be_nat :: "byte list \<Rightarrow> nat" where
  "be_nat bs = le_nat (rev bs)"

definition nat_be :: "nat \<Rightarrow> nat \<Rightarrow> byte list" where
  "nat_be k n = rev (nat_le k n)"

lemma length_nat_le [simp, byte_simps]: "length (nat_le k n) = k"
  by (induction k arbitrary: n) auto

lemma length_nat_be [simp, byte_simps]: "length (nat_be k n) = k"
  by (simp add: nat_be_def)

lemma unat_byte_lt: "unat (b :: byte) < 256"
  using unsigned_less [of b] by simp

lemma unat_of_nat_byte [simp]: "unat (of_nat (n mod 256) :: byte) = n mod 256"
  by (simp add: unat_of_nat)

lemma le_nat_nat_le: "le_nat (nat_le k n) = n mod 256 ^ k"
proof (induction k arbitrary: n)
  case (Suc k)
  have "n mod (256 * 256 ^ k) = n mod 256 + 256 * (n div 256 mod 256 ^ k)"
    by (metis add.commute mod_mult2_eq)
  with Suc show ?case by simp
qed simp

lemma nat_le_le_nat: "nat_le (length bs) (le_nat bs) = bs"
proof (induction bs)
  case (Cons b bs)
  have "(unat b + 256 * le_nat bs) mod 256 = unat b"
    using unat_byte_lt [of b] by simp
  moreover have "(unat b + 256 * le_nat bs) div 256 = le_nat bs"
    using unat_byte_lt [of b] by simp
  ultimately show ?case using Cons by simp
qed simp

lemma le_nat_bound: "le_nat bs < 256 ^ length bs"
proof -
  have "le_nat bs = le_nat bs mod 256 ^ length bs"
    using le_nat_nat_le [of "length bs" "le_nat bs"] by (simp add: nat_le_le_nat)
  also have "\<dots> < 256 ^ length bs" by simp
  finally show ?thesis .
qed

lemma le_nat_append: "le_nat (xs @ ys) = le_nat xs + 256 ^ length xs * le_nat ys"
  by (induction xs) (auto simp: algebra_simps)

lemma be_nat_nat_be: "be_nat (nat_be k n) = n mod 256 ^ k"
  by (simp add: be_nat_def nat_be_def le_nat_nat_le)

lemma be_nat_bound: "be_nat bs < 256 ^ length bs"
  using le_nat_bound [of "rev bs"] by (simp add: be_nat_def)

text \<open>Words and their byte images.\<close>

definition w_le :: "nat \<Rightarrow> 'a::len word \<Rightarrow> byte list" where
  "w_le k x = nat_le k (unat x)"

definition w_be :: "nat \<Rightarrow> 'a::len word \<Rightarrow> byte list" where
  "w_be k x = nat_be k (unat x)"

lemma length_w_le [simp, byte_simps]: "length (w_le k x) = k"
  by (simp add: w_le_def)

lemma length_w_be [simp, byte_simps]: "length (w_be k x) = k"
  by (simp add: w_be_def)

lemma pow_256: "(256 :: nat) ^ k = 2 ^ (8 * k)"
  by (simp add: power_mult)

lemma le_nat_w_le: "LENGTH('a) \<le> 8 * k \<Longrightarrow> le_nat (w_le k (x :: 'a::len word)) = unat x"
proof -
  assume a: "LENGTH('a) \<le> 8 * k"
  have "unat x < 2 ^ LENGTH('a)" by simp
  also have "(2 :: nat) ^ LENGTH('a) \<le> 2 ^ (8 * k)"
    using a by (simp add: power_increasing)
  finally show ?thesis
    by (simp add: w_le_def le_nat_nat_le pow_256)
qed

lemma be_nat_w_be: "LENGTH('a) \<le> 8 * k \<Longrightarrow> be_nat (w_be k (x :: 'a::len word)) = unat x"
  using le_nat_w_le [of k x] by (simp add: w_be_def nat_be_def be_nat_def w_le_def)

lemma word_le_roundtrip [byte_simps]:
  "LENGTH('a) \<le> 8 * k \<Longrightarrow> (of_nat (le_nat (w_le k x)) :: 'a::len word) = x"
  by (simp add: le_nat_w_le)

lemma word_be_roundtrip [byte_simps]:
  "LENGTH('a) \<le> 8 * k \<Longrightarrow> (of_nat (be_nat (w_be k x)) :: 'a::len word) = x"
  by (simp add: be_nat_w_be)

lemma unat_of_nat_eq: "n < 2 ^ LENGTH('a) \<Longrightarrow> unat (of_nat n :: 'a::len word) = n"
  by (simp add: unat_of_nat)

lemma w_le_roundtrip:
  "length bs = k \<Longrightarrow> LENGTH('a) = 8 * k \<Longrightarrow>
    w_le k (of_nat (le_nat bs) :: 'a::len word) = bs"
proof -
  assume a: "length bs = k" "LENGTH('a) = 8 * k"
  have "le_nat bs < 2 ^ LENGTH('a)"
    using le_nat_bound [of bs] a by (simp add: pow_256)
  then have "unat (of_nat (le_nat bs) :: 'a word) = le_nat bs"
    by (simp add: unat_of_nat)
  then show ?thesis
    using nat_le_le_nat [of bs] a(1) by (simp add: w_le_def)
qed

lemma w_be_roundtrip:
  "length bs = k \<Longrightarrow> LENGTH('a) = 8 * k \<Longrightarrow>
    w_be k (of_nat (be_nat bs) :: 'a::len word) = bs"
proof -
  assume "length bs = k" "LENGTH('a) = 8 * k"
  then have "w_le k (of_nat (le_nat (rev bs)) :: 'a word) = rev bs"
    by (intro w_le_roundtrip) simp_all
  then show ?thesis by (simp add: w_be_def nat_be_def be_nat_def w_le_def)
qed

section \<open>Unsigned sizes and system calls\<close>

text \<open>
  \<open>size_t\<close> values are naturals below \<open>2 ^ 64\<close>; a subtraction that goes below zero wraps.
\<close>

definition size_sub :: "nat \<Rightarrow> nat \<Rightarrow> nat" where
  "size_sub a b = (if b \<le> a then a - b else 2 ^ 64 - (b - a))"

lemma size_sub_le [simp]: "b \<le> a \<Longrightarrow> size_sub a b = a - b"
  by (simp add: size_sub_def)

text \<open>
  The kernel is outside the program: what successive calls of \<open>read\<close>, \<open>send\<close> and
  \<open>writev\<close> return is a list of answers, an argument of every operation that makes such a call.
  The loops of the source that retry a call interrupted by a signal skip the \<open>EINTR\<close> answers;
  \<open>None\<close> means that the answers ran out before the loop ended.
\<close>

datatype errno = EINTR | EAGAIN | EWOULDBLOCK | EOther

datatype 'a sys = SysOk 'a | SysErr errno

fun until_not_eintr :: "'a sys list \<Rightarrow> ('a sys \<times> 'a sys list) option" where
  "until_not_eintr [] = None"
| "until_not_eintr (SysErr EINTR # rs) = until_not_eintr rs"
| "until_not_eintr (r # rs) = Some (r, rs)"

definition would_block :: "errno \<Rightarrow> bool" where
  "would_block e = (e = EAGAIN \<or> e = EWOULDBLOCK)"

lemma until_not_eintr_not_EINTR: "until_not_eintr rs = Some (r, rs') \<Longrightarrow> r \<noteq> SysErr EINTR"
  by (induction rs rule: until_not_eintr.induct) auto

lemma until_not_eintr_shorter: "until_not_eintr rs = Some (r, rs') \<Longrightarrow> length rs' < length rs"
  by (induction rs rule: until_not_eintr.induct) auto

lemma until_not_eintr_total:
  "(\<exists>r \<in> set rs. r \<noteq> SysErr EINTR) \<longleftrightarrow> (\<exists>p. until_not_eintr rs = Some p)"
  by (induction rs rule: until_not_eintr.induct) auto

lemma until_not_eintr_eq:
  "until_not_eintr rs =
    (case dropWhile (\<lambda>r. r = SysErr EINTR) rs of [] \<Rightarrow> None | r # rs' \<Rightarrow> Some (r, rs'))"
  by (induction rs rule: until_not_eintr.induct) auto

section \<open>Lists\<close>

text \<open>Overwrite a block of memory at an offset; the caller checks the bounds.\<close>

definition mem_write :: "nat \<Rightarrow> 'a list \<Rightarrow> 'a list \<Rightarrow> 'a list" where
  "mem_write off bs m = take off m @ bs @ drop (off + length bs) m"

lemma length_mem_write [simp]:
  "off + length bs \<le> length m \<Longrightarrow> length (mem_write off bs m) = length m"
  by (simp add: mem_write_def)

lemma mem_write_read:
  "off + length bs \<le> length m \<Longrightarrow> take (length bs) (drop off (mem_write off bs m)) = bs"
  by (simp add: mem_write_def)

lemma mem_write_before:
  "k \<le> off \<Longrightarrow> off \<le> length m \<Longrightarrow> take k (mem_write off bs m) = take k m"
  by (simp add: mem_write_def min_def)

lemma take_append_le: "n \<le> length xs \<Longrightarrow> take n (xs @ ys) = take n xs"
  by simp

lemma drop_append_le: "n \<le> length xs \<Longrightarrow> drop n (xs @ ys) = drop n xs @ ys"
  by simp

end
