(* ===== verification/Std_Map.thy ===== *)
theory Std_Map
  imports Prelude
begin

text \<open>
  \<open>std::map\<close> and \<open>std::set\<close> as the sources use them: a list of bindings in increasing key
  order, so that a loop over the container visits the keys in the order the C++ iterator does.
  \<open>sm_find\<close> is \<open>find\<close>, \<open>sm_set\<close> is \<open>m[k] = v\<close>, \<open>sm_insert\<close> is \<open>insert\<close> (which keeps
  an old binding), \<open>sm_erase\<close> is \<open>erase\<close> by key. The interface that their clients rely on is
  the locale \<open>keyed_store\<close>, interpreted here on these operations.
\<close>

type_synonym ('k, 'v) smap = "('k \<times> 'v) list"

fun sm_find :: "('k, 'v) smap \<Rightarrow> 'k \<Rightarrow> 'v option" where
  "sm_find [] k = None"
| "sm_find ((k', v) # m) k = (if k' = k then Some v else sm_find m k)"

fun sm_set :: "'k::linorder \<Rightarrow> 'v \<Rightarrow> ('k, 'v) smap \<Rightarrow> ('k, 'v) smap" where
  "sm_set k v [] = [(k, v)]"
| "sm_set k v ((k', v') # m) =
     (if k = k' then (k, v) # m
      else if k < k' then (k, v) # (k', v') # m
      else (k', v') # sm_set k v m)"

definition sm_insert :: "'k::linorder \<Rightarrow> 'v \<Rightarrow> ('k, 'v) smap \<Rightarrow> ('k, 'v) smap" where
  "sm_insert k v m = (case sm_find m k of Some _ \<Rightarrow> m | None \<Rightarrow> sm_set k v m)"

definition sm_erase :: "'k \<Rightarrow> ('k, 'v) smap \<Rightarrow> ('k, 'v) smap" where
  "sm_erase k m = filter (\<lambda>(k', _). k' \<noteq> k) m"

definition sm_keys :: "('k, 'v) smap \<Rightarrow> 'k list" where
  "sm_keys m = map fst m"

definition sm_wf :: "('k::linorder, 'v) smap \<Rightarrow> bool" where
  "sm_wf m = sorted_wrt (<) (sm_keys m)"

lemma sm_keys_simps [simp]: "sm_keys [] = []" "sm_keys (p # m) = fst p # sm_keys m"
  by (simp_all add: sm_keys_def)

lemma sm_find_map_of: "sm_find m k = map_of m k"
  by (induction m) (auto split: if_splits)

lemma sm_find_in: "sm_find m k = Some v \<Longrightarrow> (k, v) \<in> set m"
  by (simp add: sm_find_map_of map_of_SomeD)

lemma sm_find_None: "sm_find m k = None \<longleftrightarrow> k \<notin> set (sm_keys m)"
  by (simp add: sm_find_map_of sm_keys_def map_of_eq_None_iff image_iff)

lemma sm_find_set [simp]: "sm_find (sm_set k v m) k' = (if k' = k then Some v else sm_find m k')"
  by (induction m) auto

lemma sm_find_erase [simp]: "sm_find (sm_erase k m) k' = (if k' = k then None else sm_find m k')"
  by (induction m) (auto simp: sm_erase_def)

lemma sm_find_insert [simp]:
  "sm_find (sm_insert k v m) k' =
    (if k' = k then (case sm_find m k of Some v' \<Rightarrow> Some v' | None \<Rightarrow> Some v) else sm_find m k')"
  by (auto simp: sm_insert_def split: option.splits)

lemma set_sm_keys_set [simp]: "set (sm_keys (sm_set k v m)) = insert k (set (sm_keys m))"
  by (induction k v m rule: sm_set.induct) (simp_all add: insert_commute)

lemma set_sm_keys_erase [simp]: "set (sm_keys (sm_erase k m)) = set (sm_keys m) - {k}"
  by (auto simp: sm_keys_def sm_erase_def)

lemma sm_wf_Nil [simp]: "sm_wf []"
  by (simp add: sm_wf_def sm_keys_def)

lemma sm_wf_Cons: "sm_wf ((k, v) # m) \<longleftrightarrow> (\<forall>k' \<in> set (sm_keys m). k < k') \<and> sm_wf m"
  by (simp add: sm_wf_def sm_keys_def)

lemma sm_wf_set [simp, intro]: "sm_wf m \<Longrightarrow> sm_wf (sm_set k v m)"
proof (induction m)
  case Nil
  then show ?case by (simp add: sm_wf_def)
next
  case (Cons p m)
  obtain k' v' where p: "p = (k', v')" by (cases p)
  from Cons show ?case
    unfolding p by (auto simp: sm_wf_Cons intro: less_trans)
qed

lemma sm_wf_insert [simp, intro]: "sm_wf m \<Longrightarrow> sm_wf (sm_insert k v m)"
  by (simp add: sm_insert_def split: option.split)

lemma sm_wf_erase [simp, intro]: "sm_wf m \<Longrightarrow> sm_wf (sm_erase k m)"
proof (induction m)
  case Nil
  then show ?case by (simp add: sm_erase_def)
next
  case (Cons p m)
  obtain k' v' where p: "p = (k', v')" by (cases p)
  have e: "sm_erase k (p # m) = (if k' = k then sm_erase k m else (k', v') # sm_erase k m)"
    by (simp add: sm_erase_def p)
  from Cons show ?case
    unfolding e by (auto simp: p sm_wf_Cons)
qed

lemma sm_wf_distinct: "sm_wf m \<Longrightarrow> distinct (sm_keys m)"
  by (induction m) (auto simp: sm_wf_Cons)

lemma sm_wf_in_find: "sm_wf m \<Longrightarrow> (k, v) \<in> set m \<Longrightarrow> sm_find m k = Some v"
  using sm_wf_distinct [of m] by (simp add: sm_find_map_of sm_keys_def)

lemma sm_erase_set: "sm_erase k (sm_set k v m) = sm_erase k m"
  by (induction k v m rule: sm_set.induct) (auto simp: sm_erase_def)

lemma sm_erase_absent: "sm_find m k = None \<Longrightarrow> sm_erase k m = m"
  by (induction m) (auto simp: sm_erase_def split: if_splits)

text \<open>A loop that rewrites the values and keeps or drops each binding.\<close>

lemma sm_keys_map_snd [simp]: "sm_keys (map (\<lambda>(k, v). (k, f k v)) m) = sm_keys m"
  by (induction m) (auto simp: sm_keys_def)

lemma sm_find_map_snd [simp]: "sm_find (map (\<lambda>(k, v). (k, f k v)) m) k = map_option (f k) (sm_find m k)"
  by (induction m) auto

lemma sm_wf_map_snd [simp]: "sm_wf (map (\<lambda>(k, v). (k, f k v)) m) \<longleftrightarrow> sm_wf m"
  by (simp add: sm_wf_def)

lemma sm_wf_filter [simp, intro]: "sm_wf m \<Longrightarrow> sm_wf (filter P m)"
  by (induction m) (auto simp: sm_wf_Cons sm_keys_def)

lemma sm_find_filter:
  "sm_wf m \<Longrightarrow>
    sm_find (filter P m) k = (case sm_find m k of Some v \<Rightarrow> if P (k, v) then Some v else None | None \<Rightarrow> None)"
proof (induction m)
  case (Cons p m)
  obtain k' v' where p: "p = (k', v')" by (cases p)
  show ?case
  proof (cases "k' = k")
    case True
    with Cons.prems have "k \<notin> set (sm_keys m)" by (auto simp: p sm_wf_Cons)
    then have "sm_find m k = None" by (simp add: sm_find_None)
    then have "sm_find (filter P m) k = None"
      using Cons by (auto simp: p sm_wf_Cons)
    with True show ?thesis by (simp add: p)
  next
    case False
    with Cons show ?thesis by (auto simp: p sm_wf_Cons)
  qed
qed simp

section \<open>The interface of a keyed store\<close>

text \<open>
  What the session managers, the publishers and the RTMP client table rely on: a lookup after a
  store, a lookup after an erase, and the invariant that every operation keeps.
\<close>

locale keyed_store =
  fixes get :: "'m \<Rightarrow> 'k \<Rightarrow> 'v option"
    and put :: "'k \<Rightarrow> 'v \<Rightarrow> 'm \<Rightarrow> 'm"
    and del :: "'k \<Rightarrow> 'm \<Rightarrow> 'm"
    and inv :: "'m \<Rightarrow> bool"
  assumes get_put: "inv m \<Longrightarrow> get (put k v m) k' = (if k' = k then Some v else get m k')"
    and get_del: "inv m \<Longrightarrow> get (del k m) k' = (if k' = k then None else get m k')"
    and inv_put: "inv m \<Longrightarrow> inv (put k v m)"
    and inv_del: "inv m \<Longrightarrow> inv (del k m)"
begin

lemma store_then_erase: "inv m \<Longrightarrow> get m k = None \<Longrightarrow> get (del k (put k v m)) = get m"
  by (rule ext) (simp add: get_put get_del inv_put)

lemma put_put: "inv m \<Longrightarrow> get (put k v (put k w m)) = get (put k v m)"
  by (rule ext) (simp add: get_put inv_put)

lemma put_commute:
  "inv m \<Longrightarrow> k \<noteq> k' \<Longrightarrow> get (put k v (put k' w m)) = get (put k' w (put k v m))"
  by (rule ext) (simp add: get_put inv_put)

lemma del_twice: "inv m \<Longrightarrow> get (del k (del k m)) = get (del k m)"
  by (rule ext) (simp add: get_del inv_del)

lemma inv_foldr_del: "inv m \<Longrightarrow> inv (foldr del ks m)"
  by (induction ks) (auto intro: inv_del)

lemma get_foldr_del: "inv m \<Longrightarrow> get (foldr del ks m) k = (if k \<in> set ks then None else get m k)"
  by (induction ks) (auto simp: get_del inv_foldr_del)

end

interpretation smap: keyed_store sm_find sm_set sm_erase "sm_wf :: ('k::linorder, 'v) smap \<Rightarrow> bool"
  by unfold_locales auto

end
