(* ===== verification/Byte_Buffer.thy ===== *)
theory Byte_Buffer
  imports Prelude
begin

text \<open>
  The receive buffer of every connection (core/buffer/Buffer.cpp, Buffer.h) and the byte-order
  helpers of core/socket/Socket.h. A \<open>Buffer\<close> is a \<open>std::string\<close>, a read position in it, and
  the string's capacity. Capacities follow libstdc++: a growing string gets at least twice its old
  capacity, an empty string holds 15 characters without an allocation.
\<close>

section \<open>State\<close>

record buffer =
  m_buffer :: "byte list"
  m_read_index :: nat
  m_capacity :: nat

definition MAX_SIZE_ONCE_READ :: nat where
  "MAX_SIZE_ONCE_READ = 5 * 1024"

text \<open>Capacity of a \<open>std::string\<close> of capacity \<open>cap\<close> after it was asked for room for \<open>n\<close>.\<close>

definition str_capacity :: "nat \<Rightarrow> nat \<Rightarrow> nat" where
  "str_capacity cap n = (if n \<le> cap then cap else max n (2 * cap))"

definition Buffer_new :: buffer where
  "Buffer_new = \<lparr>m_buffer = [], m_read_index = 0, m_capacity = str_capacity 15 MAX_SIZE_ONCE_READ\<rparr>"

section \<open>Operations\<close>

definition GetBuffer :: "buffer \<Rightarrow> byte list" where
  "GetBuffer b = drop (m_read_index b) (m_buffer b)"

definition ReadableBytes :: "buffer \<Rightarrow> nat" where
  "ReadableBytes b = size_sub (length (m_buffer b)) (m_read_index b)"

definition Buffer_copy :: "buffer \<Rightarrow> buffer" where
  "Buffer_copy b = \<lparr>m_buffer = take (ReadableBytes b) (GetBuffer b), m_read_index = 0,
     m_capacity = max 15 (ReadableBytes b)\<rparr>"

text \<open>The move constructor copies and empties the source; the pair is (new, source).\<close>

definition Buffer_move :: "buffer \<Rightarrow> buffer \<times> buffer" where
  "Buffer_move b = (Buffer_copy b, b\<lparr>m_buffer := [], m_read_index := 0, m_capacity := 15\<rparr>)"

definition Buffer_Clear :: "buffer \<Rightarrow> buffer" where
  "Buffer_Clear b = b\<lparr>m_buffer := [], m_read_index := 0\<rparr>"

definition Buffer_Remove :: "nat \<Rightarrow> nat option \<Rightarrow> buffer \<Rightarrow> fault + buffer" where
  "Buffer_Remove pos n b =
     (let at = m_read_index b + pos; s = m_buffer b in
      if length s < at then Inl OutOfRange
      else Inr (b\<lparr>m_buffer := take at s @ (case n of None \<Rightarrow> [] | Some k \<Rightarrow> drop (at + k) s)\<rparr>))"

definition AutoRemove :: "buffer \<Rightarrow> buffer" where
  "AutoRemove b = b\<lparr>m_buffer := drop (m_read_index b) (m_buffer b), m_read_index := 0\<rparr>"

definition Append :: "byte list \<Rightarrow> buffer \<Rightarrow> buffer" where
  "Append bs b = b\<lparr>m_buffer := m_buffer b @ bs,
     m_capacity := str_capacity (m_capacity b) (length (m_buffer b) + length bs)\<rparr>"

definition Append_buffer :: "buffer \<Rightarrow> buffer \<Rightarrow> buffer" where
  "Append_buffer src b = Append (take (ReadableBytes src) (GetBuffer src)) b"

definition Reserve :: "nat \<Rightarrow> buffer \<Rightarrow> buffer" where
  "Reserve n b = b\<lparr>m_capacity := str_capacity (m_capacity b) n\<rparr>"

definition GetCapacity :: "buffer \<Rightarrow> nat" where
  "GetCapacity b = m_capacity b"

definition GetLeftCapacity :: "buffer \<Rightarrow> nat" where
  "GetLeftCapacity b = size_sub (m_capacity b) (length (m_buffer b))"

definition Skip :: "nat \<Rightarrow> buffer \<Rightarrow> buffer" where
  "Skip n b = b\<lparr>m_read_index := m_read_index b + n\<rparr>"

text \<open>
  \<open>ReadInterger\<close> copies the next \<open>sizeof(T)\<close> bytes into a little-endian integer; the assertion is
  active, the build files do not define \<open>NDEBUG\<close>.
\<close>

definition ReadInterger :: "nat \<Rightarrow> buffer \<Rightarrow> fault + ('a::len word \<times> buffer)" where
  "ReadInterger k b =
     (if ReadableBytes b < k then Inl AssertFail
      else Inr (of_nat (le_nat (take k (GetBuffer b))), Skip k b))"

text \<open>\<open>ntohs\<close>, \<open>ntohl\<close> on a little-endian host, and the 64-bit helper written with them.\<close>

definition networkToHost16 :: "u16 \<Rightarrow> u16" where
  "networkToHost16 v = push_bit 8 v OR drop_bit 8 v"

definition networkToHost32 :: "u32 \<Rightarrow> u32" where
  "networkToHost32 v = push_bit 24 (v AND 0xFF) OR push_bit 8 (v AND 0xFF00)
     OR drop_bit 8 (v AND 0xFF0000) OR drop_bit 24 v"

definition networkToHost64 :: "u64 \<Rightarrow> u64" where
  "networkToHost64 v = push_bit 32 (ucast (networkToHost32 (ucast v)))
     OR ucast (networkToHost32 (ucast (drop_bit 32 v)))"

definition ReadInt8 :: "buffer \<Rightarrow> fault + (byte \<times> buffer)" where
  "ReadInt8 b = ReadInterger 1 b"

definition ReadInt16 :: "buffer \<Rightarrow> fault + (u16 \<times> buffer)" where
  "ReadInt16 b = rbind (ReadInterger 2 b) (\<lambda>(v, b'). Inr (networkToHost16 v, b'))"

definition ReadInt32 :: "buffer \<Rightarrow> fault + (u32 \<times> buffer)" where
  "ReadInt32 b = rbind (ReadInterger 4 b) (\<lambda>(v, b'). Inr (networkToHost32 v, b'))"

definition ReadInt64 :: "buffer \<Rightarrow> fault + (u64 \<times> buffer)" where
  "ReadInt64 b = rbind (ReadInterger 8 b) (\<lambda>(v, b'). Inr (networkToHost64 v, b'))"

definition ReadBuffer :: "nat \<Rightarrow> buffer \<Rightarrow> fault + (byte list \<times> buffer)" where
  "ReadBuffer n b =
     (if ReadableBytes b < n then Inl AssertFail else Inr (take n (GetBuffer b), Skip n b))"

text \<open>
  One read from a descriptor: at most \<open>MAX_SIZE_ONCE_READ\<close> bytes, repeated while a signal
  interrupts it. The answers of the kernel are the bytes it delivers; no call delivers more than
  it was asked for. The result is the return value (-1, 0 or a byte count), \<open>errno\<close>, the buffer
  and the unused answers.
\<close>

definition GetDataFromFd ::
  "int \<Rightarrow> int \<Rightarrow> byte list sys list \<Rightarrow> buffer \<Rightarrow> (int \<times> buffer \<times> byte list sys list) option" where
  "GetDataFromFd fd max_size rs b =
     (if fd < 0 \<or> max_size < 0 then Some (-1, b, rs)
      else (let ntoread = nat (min max_size (int MAX_SIZE_ONCE_READ)) in
        case until_not_eintr rs of
          None \<Rightarrow> None
        | Some (SysErr e, rs') \<Rightarrow> Some (-1, b, rs')
        | Some (SysOk bs, rs') \<Rightarrow>
            (let got = take ntoread bs in
             if 0 < length got then Some (int (length got), Append got b, rs')
             else Some (0, b, rs'))))"

section \<open>Invariant: the read position stays inside the string\<close>

definition buf_ok :: "buffer \<Rightarrow> bool" where
  "buf_ok b = (m_read_index b \<le> length (m_buffer b) \<and> length (m_buffer b) \<le> m_capacity b)"

named_theorems buf_simps \<open>effect of the buffer operations on the unread bytes\<close>

lemma buf_ok_new [simp]: "buf_ok Buffer_new" "GetBuffer Buffer_new = []"
  by (simp_all add: buf_ok_def Buffer_new_def GetBuffer_def)

lemma str_capacity_ge: "n \<le> str_capacity c n" "c \<le> str_capacity c n"
  by (auto simp: str_capacity_def)

lemma ReadableBytes_eq [buf_simps]: "buf_ok b \<Longrightarrow> ReadableBytes b = length (GetBuffer b)"
  by (simp add: buf_ok_def ReadableBytes_def GetBuffer_def)

lemma GetBuffer_Append [buf_simps]: "buf_ok b \<Longrightarrow> GetBuffer (Append bs b) = GetBuffer b @ bs"
  by (simp add: buf_ok_def GetBuffer_def Append_def)

lemma buf_ok_Append [simp, intro]: "buf_ok b \<Longrightarrow> buf_ok (Append bs b)"
  using str_capacity_ge [of "length (m_buffer b) + length bs" "m_capacity b"]
  by (simp add: buf_ok_def Append_def)

lemma GetBuffer_AutoRemove [buf_simps]: "GetBuffer (AutoRemove b) = GetBuffer b"
  by (simp add: GetBuffer_def AutoRemove_def)

lemma buf_ok_AutoRemove [simp, intro]: "buf_ok b \<Longrightarrow> buf_ok (AutoRemove b)"
  by (auto simp: buf_ok_def AutoRemove_def)

lemma GetBuffer_Reserve [buf_simps]: "GetBuffer (Reserve n b) = GetBuffer b"
  by (simp add: GetBuffer_def Reserve_def)

lemma buf_ok_Reserve [simp, intro]: "buf_ok b \<Longrightarrow> buf_ok (Reserve n b)"
  using str_capacity_ge(2) [of "m_capacity b" n] by (simp add: buf_ok_def Reserve_def)

lemma GetBuffer_Skip [buf_simps]: "GetBuffer (Skip n b) = drop n (GetBuffer b)"
  by (simp add: GetBuffer_def Skip_def add.commute)

lemma buf_ok_Skip [simp, intro]: "buf_ok b \<Longrightarrow> n \<le> length (GetBuffer b) \<Longrightarrow> buf_ok (Skip n b)"
  by (auto simp: buf_ok_def Skip_def GetBuffer_def)

lemma GetBuffer_Clear [buf_simps]: "GetBuffer (Buffer_Clear b) = []"
  by (simp add: GetBuffer_def Buffer_Clear_def)

lemma buf_ok_Clear [simp, intro]: "buf_ok (Buffer_Clear b)"
  by (simp add: buf_ok_def Buffer_Clear_def)

lemma GetBuffer_Append_buffer [buf_simps]:
  "buf_ok src \<Longrightarrow> buf_ok b \<Longrightarrow> GetBuffer (Append_buffer src b) = GetBuffer b @ GetBuffer src"
  by (simp add: Append_buffer_def buf_simps)

lemma buf_ok_Append_buffer [simp, intro]: "buf_ok b \<Longrightarrow> buf_ok (Append_buffer src b)"
  by (simp add: Append_buffer_def)

lemma Buffer_copy_ok: "buf_ok b \<Longrightarrow> buf_ok (Buffer_copy b) \<and> GetBuffer (Buffer_copy b) = GetBuffer b"
  by (auto simp: Buffer_copy_def ReadableBytes_eq buf_ok_def GetBuffer_def)

lemma Buffer_move_ok:
  "buf_ok b \<Longrightarrow> Buffer_move b = (c, b') \<Longrightarrow>
    buf_ok c \<and> buf_ok b' \<and> GetBuffer c = GetBuffer b \<and> GetBuffer b' = []"
  using Buffer_copy_ok [of b] by (auto simp: Buffer_move_def) (auto simp: buf_ok_def GetBuffer_def)

section \<open>Reads are big-endian\<close>

lemma word_le_Cons:
  "8 \<le> LENGTH('a) \<Longrightarrow>
    (of_nat (le_nat (b # bs)) :: 'a::len word) = ucast b OR push_bit 8 (of_nat (le_nat bs))"
proof -
  assume "8 \<le> LENGTH('a)"
  have 1: "(of_nat (unat b) :: 'a word) = ucast b"
    by (simp add: unsigned_of_nat word_unat_eq_iff)
  have 2: "(of_nat (256 * le_nat bs) :: 'a word) = push_bit 8 (of_nat (le_nat bs))"
    by (simp add: push_bit_eq_mult)
  have "(ucast b :: 'a word) + push_bit 8 (of_nat (le_nat bs)) = ucast b OR push_bit 8 (of_nat (le_nat bs))"
    by (rule disjunctive_add_eq_or, rule bit_word_eqI) (auto simp: bit_simps dest: bit_imp_le_length)
  with 1 2 show ?thesis by simp
qed

lemma byte_bit_lt: "bit (b :: byte) n \<Longrightarrow> n < 8"
  using bit_imp_le_length [of b n] by simp

lemma ntohs_le: "networkToHost16 (of_nat (le_nat [a, b])) = of_nat (be_nat [a, b])"
  unfolding networkToHost16_def be_nat_def rev.simps append.simps
  by (simp only: word_le_Cons len_of_numeral_defs)
    (rule bit_word_eqI, auto simp: bit_simps dest: byte_bit_lt)

lemma byte_bit_ge: "8 \<le> n \<Longrightarrow> \<not> bit (b :: byte) n"
  using byte_bit_lt [of b n] by auto

lemma ntohl_le: "networkToHost32 (of_nat (le_nat [a, b, c, d])) = of_nat (be_nat [a, b, c, d])"
proof (rule bit_word_eqI)
  fix n assume "n < LENGTH(32)"
  then consider "n < 8" | "8 \<le> n" "n < 16" | "16 \<le> n" "n < 24" | "24 \<le> n" "n < 32"
    by fastforce
  moreover have m: "(0xFF :: u32) = mask 8" "(0xFF00 :: u32) = push_bit 8 (mask 8)"
      "(0xFF0000 :: u32) = push_bit 16 (mask 8)"
    by (simp_all add: mask_eq_decr_exp)
  ultimately show "bit (networkToHost32 (of_nat (le_nat [a, b, c, d]))) n =
      bit (of_nat (be_nat [a, b, c, d]) :: u32) n"
    unfolding networkToHost32_def be_nat_def rev.simps append.simps m
    by cases (simp_all only: word_le_Cons len_of_numeral_defs,
        auto simp: bit_simps byte_bit_ge dest: byte_bit_lt)
qed

lemma nat_bit_lt: "(m :: nat) < 2 ^ k \<Longrightarrow> bit m n \<Longrightarrow> n < k"
proof (rule ccontr)
  assume "m < 2 ^ k" "bit m n" "\<not> n < k"
  then have "m < 2 ^ n"
    by (metis less_le_trans not_less one_le_numeral power_increasing)
  with \<open>bit m n\<close> show False by (simp add: bit_iff_odd)
qed

lemma ntohll_le:
  assumes "length lo = 4" "length hi = 4"
  shows "networkToHost64 (of_nat (le_nat (lo @ hi))) = of_nat (be_nat (lo @ hi))"
proof -
  obtain a b c d e f g h where l: "lo = [a, b, c, d]" "hi = [e, f, g, h]"
    using assms by (auto simp: length_Suc_conv numeral_eq_Suc)
  have b: "le_nat lo < 2 ^ 32" "le_nat hi < 2 ^ 32" "be_nat lo < 2 ^ 32" "be_nat hi < 2 ^ 32"
    using le_nat_bound [of lo] le_nat_bound [of hi] be_nat_bound [of lo] be_nat_bound [of hi]
    by (simp_all add: assms)
  define v :: u64 where "v = of_nat (le_nat (lo @ hi))"
  have e: "le_nat (lo @ hi) = le_nat lo + 2 ^ 32 * le_nat hi"
    "be_nat (lo @ hi) = be_nat hi + 2 ^ 32 * be_nat lo"
    by (simp_all add: le_nat_append be_nat_def assms)
  have uv: "unat v = le_nat lo + 2 ^ 32 * le_nat hi"
    unfolding v_def e by (rule unat_of_nat_eq) (use b in simp)
  have s: "(ucast v :: u32) = of_nat (le_nat lo)" "(ucast (drop_bit 32 v) :: u32) = of_nat (le_nat hi)"
    using b by (simp_all add: word_unat_eq_iff unat_of_nat_eq uv unsigned_ucast_eq
        take_bit_eq_mod unat_drop_bit_eq drop_bit_eq_div unat_div)
  have hb: "n < 32" if "bit (be_nat hi) n" for n
    by (rule nat_bit_lt [OF b(4) that])
  have "(of_nat (be_nat hi) :: u64) + push_bit 32 (of_nat (be_nat lo))
      = of_nat (be_nat hi) OR push_bit 32 (of_nat (be_nat lo))"
    by (intro disjunctive_add_eq_or bit_word_eqI) (auto simp: bit_simps dest: hb)
  then have "(of_nat (be_nat (lo @ hi)) :: u64)
      = push_bit 32 (of_nat (be_nat lo)) OR of_nat (be_nat hi)"
    unfolding e by (simp add: push_bit_eq_mult or.commute mult.commute)
  moreover have "(ucast (of_nat k :: u32) :: u64) = of_nat k" if "k < 2 ^ 32" for k
    using that by (simp add: word_unat_eq_iff unat_of_nat_eq unsigned_ucast_eq take_bit_eq_mod)
  ultimately show ?thesis
    using ntohl_le [of a b c d] ntohl_le [of e f g h] b s
    by (simp add: networkToHost64_def l v_def)
qed

text \<open>Each read returns the big-endian value of the next bytes and moves past them.\<close>

lemma length2_cases: "length bs = 2 \<Longrightarrow> \<exists>a b. bs = [a, b]"
  by (auto simp: length_Suc_conv numeral_eq_Suc)

lemma length4_cases: "length bs = 4 \<Longrightarrow> \<exists>a b c d. bs = [a, b, c, d]"
  by (auto simp: length_Suc_conv numeral_eq_Suc)

lemma ReadInt8_eq [buf_simps]:
  "buf_ok b \<Longrightarrow> 1 \<le> length (GetBuffer b) \<Longrightarrow> ReadInt8 b = Inr (hd (GetBuffer b), Skip 1 b)"
  by (cases "GetBuffer b") (auto simp: ReadInt8_def ReadInterger_def buf_simps)

lemma ReadInt16_eq [buf_simps]:
  assumes "buf_ok b" "2 \<le> length (GetBuffer b)"
  shows "ReadInt16 b = Inr (of_nat (be_nat (take 2 (GetBuffer b))), Skip 2 b)"
proof -
  obtain x y where t: "take 2 (GetBuffer b) = [x, y]"
    using assms(2) length2_cases [of "take 2 (GetBuffer b)"] by auto
  show ?thesis
    unfolding ReadInt16_def ReadInterger_def t
    using assms ntohs_le [of x y] by (simp add: buf_simps)
qed

lemma ReadInt32_eq [buf_simps]:
  assumes "buf_ok b" "4 \<le> length (GetBuffer b)"
  shows "ReadInt32 b = Inr (of_nat (be_nat (take 4 (GetBuffer b))), Skip 4 b)"
proof -
  obtain x y z w where t: "take 4 (GetBuffer b) = [x, y, z, w]"
    using assms(2) length4_cases [of "take 4 (GetBuffer b)"] by auto
  show ?thesis
    unfolding ReadInt32_def ReadInterger_def t
    using assms ntohl_le [of x y z w] by (simp add: buf_simps)
qed

lemma ReadInt64_eq [buf_simps]:
  assumes "buf_ok b" "8 \<le> length (GetBuffer b)"
  shows "ReadInt64 b = Inr (of_nat (be_nat (take 8 (GetBuffer b))), Skip 8 b)"
proof -
  let ?s = "GetBuffer b"
  have t: "take 8 ?s = take 4 ?s @ take 4 (drop 4 ?s)"
    by (simp add: take_add [symmetric])
  show ?thesis
    unfolding ReadInt64_def ReadInterger_def t
    using assms ntohll_le [of "take 4 ?s" "take 4 (drop 4 ?s)"] by (simp add: buf_simps)
qed

lemma ReadBuffer_eq [buf_simps]:
  "buf_ok b \<Longrightarrow> n \<le> length (GetBuffer b) \<Longrightarrow>
    ReadBuffer n b = Inr (take n (GetBuffer b), Skip n b)"
  by (simp add: ReadBuffer_def buf_simps)

lemma ReadInt_short:
  "buf_ok b \<Longrightarrow> length (GetBuffer b) < 2 \<Longrightarrow> ReadInt16 b = Inl AssertFail"
  "buf_ok b \<Longrightarrow> length (GetBuffer b) < 4 \<Longrightarrow> ReadInt32 b = Inl AssertFail"
  "buf_ok b \<Longrightarrow> length (GetBuffer b) < 8 \<Longrightarrow> ReadInt64 b = Inl AssertFail"
  by (simp_all add: ReadInt16_def ReadInt32_def ReadInt64_def ReadInterger_def buf_simps)

section \<open>Reading from a descriptor\<close>

lemma GetDataFromFd_cases:
  assumes "GetDataFromFd fd max_size rs b = Some (n, b', rs')"
  obtains (none) "n \<le> 0" "b' = b"
  | (got) bs where "bs \<noteq> []" "b' = Append bs b" "n = int (length bs)"
      "length bs \<le> MAX_SIZE_ONCE_READ" "int (length bs) \<le> max_size" "0 \<le> fd"
proof (cases "fd < 0 \<or> max_size < 0")
  case True
  with assms none show thesis by (simp add: GetDataFromFd_def)
next
  case False
  define k where "k = nat (min max_size (int MAX_SIZE_ONCE_READ))"
  have k: "k \<le> MAX_SIZE_ONCE_READ" "int k \<le> max_size" "0 \<le> fd"
    using False by (auto simp: k_def)
  from False assms obtain r where r: "until_not_eintr rs = Some (r, rs')"
    by (auto simp: GetDataFromFd_def Let_def split: option.splits sys.splits if_splits)
  show thesis
  proof (cases r)
    case (SysErr e)
    with False assms r none show thesis by (simp add: GetDataFromFd_def)
  next
    case (SysOk bs)
    with False assms r have "(n, b') =
        (if take k bs = [] then (0, b) else (int (length (take k bs)), Append (take k bs) b))"
      by (auto simp: GetDataFromFd_def Let_def k_def [symmetric] split: if_splits)
    moreover have "length (take k bs) \<le> k" by simp
    ultimately show thesis
      using none got [of "take k bs"] k by (cases "take k bs = []") auto
  qed
qed

lemma GetDataFromFd_buf_ok:
  "buf_ok b \<Longrightarrow> GetDataFromFd fd max_size rs b = Some (n, b', rs') \<Longrightarrow> buf_ok b'"
  by (erule GetDataFromFd_cases) auto

end
