(* ===== verification/Framing.thy ===== *)
theory Framing
  imports Byte_Buffer
begin

text \<open>
  The contract of the two stream decoders (jt1078 and ipc), stated once. A frame parser looks at a
  whole byte stream and says whether it begins with a complete frame, needs more bytes, or cannot
  begin a frame. \<open>frame_parser\<close> states the stability laws of such a parser; \<open>stream_decoder\<close>
  states that an incremental decoder implements it. The loop that every session runs after a push,
  \<open>while ((error = Decode()) == kNoError) callback(GetPacket())\<close>, is \<open>drain\<close>; the lemmas of the
  second locale say that it returns and delivers exactly the frames of the stream, however the
  stream was cut into pieces.
\<close>

section \<open>Frames of a stream\<close>

datatype 'p frame = More | Bad | Frame 'p "byte list"

text \<open>All frames at the front of a stream, whether a bad header follows them, and what is left.\<close>

function parse_all :: "(byte list \<Rightarrow> 'p frame) \<Rightarrow> byte list \<Rightarrow> 'p list \<times> bool \<times> byte list" where
  "parse_all parse s =
     (case parse s of
        More \<Rightarrow> ([], False, s)
      | Bad \<Rightarrow> ([], True, s)
      | Frame p r \<Rightarrow>
          (if length r < length s then
             (case parse_all parse r of (ps, b, r') \<Rightarrow> (p # ps, b, r'))
           else ([], False, s)))"
  by pat_completeness auto
termination
  by (relation "measure (\<lambda>(_, s). length s)") auto

declare parse_all.simps [simp del]

text \<open>A stream that arrives in pieces; after a bad header no further piece is looked at.\<close>

fun feed_chunks :: "(byte list \<Rightarrow> 'p frame) \<Rightarrow> byte list \<Rightarrow> byte list list \<Rightarrow> 'p list \<times> bool" where
  "feed_chunks parse r [] = ([], False)"
| "feed_chunks parse r (c # cs) =
     (case parse_all parse (r @ c) of
        (ps, True, _) \<Rightarrow> (ps, True)
      | (ps, False, r') \<Rightarrow> (case feed_chunks parse r' cs of (qs, b) \<Rightarrow> (ps @ qs, b)))"

locale frame_parser =
  fixes parse :: "byte list \<Rightarrow> 'p frame"
  assumes bad_stable: "parse s = Bad \<Longrightarrow> parse (s @ t) = Bad"
    and frame_stable: "parse s = Frame p r \<Longrightarrow> parse (s @ t) = Frame p (r @ t)"
    and frame_shorter: "parse s = Frame p r \<Longrightarrow> length r < length s"
begin

lemma parse_all_More: "parse s = More \<Longrightarrow> parse_all parse s = ([], False, s)"
  by (simp add: parse_all.simps [of parse s])

lemma parse_all_Bad: "parse s = Bad \<Longrightarrow> parse_all parse s = ([], True, s)"
  by (simp add: parse_all.simps [of parse s])

lemma parse_all_Frame:
  "parse s = Frame p r \<Longrightarrow>
    parse_all parse s = (case parse_all parse r of (ps, b, r') \<Rightarrow> (p # ps, b, r'))"
  using frame_shorter by (simp add: parse_all.simps [of parse s])

lemma parse_all_rest: "parse_all parse s = (ps, b, r) \<Longrightarrow> parse r = (if b then Bad else More)"
proof (induction s arbitrary: ps rule: length_induct)
  case (1 s)
  show ?case
  proof (cases "parse s")
    case (Frame p r')
    with 1 show ?thesis
      using frame_shorter [OF Frame] by (auto simp: parse_all_Frame split: prod.splits)
  qed (use 1 in \<open>auto simp: parse_all_More parse_all_Bad\<close>)
qed

lemma parse_all_append:
  "parse_all parse s = (ps, False, r) \<Longrightarrow>
    parse_all parse (s @ t) = (case parse_all parse (r @ t) of (qs, b, r') \<Rightarrow> (ps @ qs, b, r'))"
proof (induction s arbitrary: ps rule: length_induct)
  case (1 s)
  show ?case
  proof (cases "parse s")
    case More
    with 1 show ?thesis by (auto simp: parse_all_More split: prod.splits)
  next
    case Bad
    with 1 show ?thesis by (simp add: parse_all_Bad)
  next
    case (Frame p s')
    then obtain qs where "parse_all parse s' = (qs, False, r)" "ps = p # qs"
      using "1.prems" by (auto simp: parse_all_Frame split: prod.splits)
    then show ?thesis
      using "1.IH" frame_shorter [OF Frame] frame_stable [OF Frame, of t]
      by (auto simp: parse_all_Frame split: prod.splits)
  qed
qed

lemma parse_all_bad_append:
  "parse_all parse s = (ps, True, r) \<Longrightarrow> parse_all parse (s @ t) = (ps, True, r @ t)"
proof (induction s arbitrary: ps rule: length_induct)
  case (1 s)
  show ?case
  proof (cases "parse s")
    case More
    with 1 show ?thesis by (simp add: parse_all_More)
  next
    case Bad
    with 1 show ?thesis using bad_stable [OF Bad] by (simp add: parse_all_Bad)
  next
    case (Frame p s')
    then obtain qs where "parse_all parse s' = (qs, True, r)" "ps = p # qs"
      using "1.prems" by (auto simp: parse_all_Frame split: prod.splits)
    then show ?thesis
      using "1.IH" frame_shorter [OF Frame] frame_stable [OF Frame, of t]
      by (auto simp: parse_all_Frame split: prod.splits)
  qed
qed

text \<open>How the stream is cut does not matter.\<close>

lemma feed_chunks_concat:
  "parse r = More \<Longrightarrow>
    feed_chunks parse r cs = (case parse_all parse (r @ concat cs) of (ps, b, _) \<Rightarrow> (ps, b))"
proof (induction cs arbitrary: r)
  case Nil
  then show ?case by (simp add: parse_all_More)
next
  case (Cons c cs)
  obtain ps b r' where p: "parse_all parse (r @ c) = (ps, b, r')" by (cases "parse_all parse (r @ c)")
  show ?case
  proof (cases b)
    case True
    then show ?thesis using p parse_all_bad_append [of "r @ c" ps r' "concat cs"] by simp
  next
    case False
    then have "parse r' = More" using parse_all_rest [OF p] by simp
    with Cons.IH False p show ?thesis
      using parse_all_append [of "r @ c" ps r' "concat cs"] by (auto split: prod.splits)
  qed
qed

end

section \<open>Incremental decoders\<close>

text \<open>
  The drain loop of a session: the packets handed to the callback in order, then the error code the
  last \<open>Decode\<close> returned and the decoder, or the fault it ended in. \<open>None\<close> is a loop that
  does not end.
\<close>

partial_function (option) drain ::
  "('d \<Rightarrow> fault + ('e \<times> 'd)) \<Rightarrow> 'e \<Rightarrow> ('d \<Rightarrow> 'p) \<Rightarrow> 'd \<Rightarrow> ('p list \<times> (fault + 'e \<times> 'd)) option"
where
  "drain decode ok get d =
     (case decode d of
        Inl f \<Rightarrow> Some ([], Inl f)
      | Inr (e, d') \<Rightarrow>
          (if e = ok then
             Option.bind (drain decode ok get d') (\<lambda>(ps, out). Some (get d' # ps, out))
           else Some ([], Inr (e, d'))))"

text \<open>
  A session handing one received piece to its decoder: push, then drain; and a session receiving a
  list of pieces, which ends at the first code that is not \<open>wait\<close>.
\<close>

definition feed ::
  "('c \<Rightarrow> 'd \<Rightarrow> 'e \<times> 'd) \<Rightarrow> ('d \<Rightarrow> fault + ('e \<times> 'd)) \<Rightarrow> 'e \<Rightarrow> ('d \<Rightarrow> 'p) \<Rightarrow> 'c \<Rightarrow> 'd \<Rightarrow>
    ('p list \<times> (fault + 'e \<times> 'd)) option" where
  "feed push decode ok get c d =
     (case push c d of (e, d') \<Rightarrow>
        if e \<noteq> ok then Some ([], Inr (e, d')) else drain decode ok get d')"

fun feed_all ::
  "('c \<Rightarrow> 'd \<Rightarrow> 'e \<times> 'd) \<Rightarrow> ('d \<Rightarrow> fault + ('e \<times> 'd)) \<Rightarrow> 'e \<Rightarrow> 'e \<Rightarrow> ('d \<Rightarrow> 'p) \<Rightarrow> 'c list \<Rightarrow>
    'd \<Rightarrow> ('p list \<times> (fault + 'e \<times> 'd)) option" where
  "feed_all push decode ok wait get [] d = Some ([], Inr (wait, d))"
| "feed_all push decode ok wait get (c # cs) d =
     Option.bind (feed push decode ok get c d) (\<lambda>(ps, out).
       case out of
         Inr (e, d') \<Rightarrow>
           (if e = wait then
              Option.bind (feed_all push decode ok wait get cs d') (\<lambda>(qs, out'). Some (ps @ qs, out'))
            else Some (ps, out))
       | Inl f \<Rightarrow> Some (ps, out))"

locale stream_decoder = frame_parser parse
  for parse :: "byte list \<Rightarrow> 'p frame" +
  fixes decode :: "'d \<Rightarrow> fault + ('e \<times> 'd)"
    and push :: "byte list \<Rightarrow> 'd \<Rightarrow> 'e \<times> 'd"
    and get :: "'d \<Rightarrow> 'p"
    and rel :: "'d \<Rightarrow> byte list \<Rightarrow> bool"
    and unread :: "'d \<Rightarrow> nat"
    and safe :: "byte list \<Rightarrow> bool"
    and ok :: 'e and wait :: 'e and bad :: 'e and full :: 'e
    and room :: nat and frame_max :: nat
  assumes codes: "ok \<noteq> wait" "ok \<noteq> bad" "ok \<noteq> full" "wait \<noteq> bad"
    and decode_More:
      "rel d s \<Longrightarrow> safe s \<Longrightarrow> parse s = More \<Longrightarrow> \<exists>d'. decode d = Inr (wait, d') \<and> rel d' s"
    and decode_Bad: "rel d s \<Longrightarrow> safe s \<Longrightarrow> parse s = Bad \<Longrightarrow> \<exists>d'. decode d = Inr (bad, d')"
    and decode_Frame:
      "rel d s \<Longrightarrow> safe s \<Longrightarrow> parse s = Frame p r \<Longrightarrow>
        \<exists>d'. decode d = Inr (ok, d') \<and> rel d' r \<and> get d' = p"
    and more_short: "safe s \<Longrightarrow> parse s = More \<Longrightarrow> length s \<le> frame_max"
    and unread_le: "rel d s \<Longrightarrow> unread d \<le> length s"
    and safe_prefix: "safe (s @ t) \<Longrightarrow> safe s"
    and safe_Frame: "safe s \<Longrightarrow> parse s = Frame p r \<Longrightarrow> safe r"
    and push_room:
      "rel d s \<Longrightarrow> unread d + length bs \<le> room \<Longrightarrow> \<exists>d'. push bs d = (ok, d') \<and> rel d' (s @ bs)"
    and push_full:
      "rel d s \<Longrightarrow> room < unread d + length bs \<Longrightarrow> push bs d = (full, d)"
begin

lemma drain_parse_all:
  "rel d s \<Longrightarrow> safe s \<Longrightarrow> parse_all parse s = (ps, b, r) \<Longrightarrow>
    \<exists>d'. drain decode ok get d = Some (ps, Inr (if b then bad else wait, d')) \<and> (b \<or> rel d' r)"
proof (induction s arbitrary: d ps rule: length_induct)
  case (1 s)
  show ?case
  proof (cases "parse s")
    case More
    with 1 obtain d' where "decode d = Inr (wait, d')" "rel d' s" using decode_More by blast
    with 1 More codes show ?thesis by (auto simp: parse_all_More drain.simps [of _ _ _ d])
  next
    case Bad
    with 1 obtain d' where "decode d = Inr (bad, d')" using decode_Bad by blast
    with 1 Bad codes show ?thesis by (auto simp: parse_all_Bad drain.simps [of _ _ _ d])
  next
    case (Frame p s')
    with 1 obtain d' where d': "decode d = Inr (ok, d')" "rel d' s'" "get d' = p"
      using decode_Frame by blast
    obtain qs where q: "parse_all parse s' = (qs, b, r)" "ps = p # qs"
      using "1.prems" Frame by (auto simp: parse_all_Frame split: prod.splits)
    have "safe s'" using safe_Frame [OF "1.prems"(2) Frame] .
    with "1.IH" d' q frame_shorter [OF Frame] obtain d'' where
      "drain decode ok get d' = Some (qs, Inr (if b then bad else wait, d''))" "b \<or> rel d'' r"
      by blast
    with d' q codes show ?thesis by (auto simp: drain.simps [of _ _ _ d])
  qed
qed

text \<open>The loop returns, and never in a fault.\<close>

lemma drain_returns:
  assumes "rel d s" "safe s"
  shows "\<exists>ps e d'. drain decode ok get d = Some (ps, Inr (e, d')) \<and> e \<noteq> ok"
proof -
  obtain ps b r where p: "parse_all parse s = (ps, b, r)" by (cases "parse_all parse s")
  show ?thesis using drain_parse_all [OF assms p] codes by (cases b) auto
qed

lemma push_code: "rel d s \<Longrightarrow> fst (push bs d) = (if unread d + length bs \<le> room then ok else full)"
  using push_room [of d s bs] push_full [of d s bs] by auto

lemma safe_rest_append:
  "safe (s @ t) \<Longrightarrow> parse_all parse s = (ps, False, r) \<Longrightarrow> safe (r @ t)"
proof (induction s arbitrary: ps rule: length_induct)
  case (1 s)
  show ?case
  proof (cases "parse s")
    case (Frame p s')
    with "1.prems" obtain qs where "parse_all parse s' = (qs, False, r)"
      by (auto simp: parse_all_Frame split: prod.splits)
    with 1 frame_shorter [OF Frame] safe_Frame [OF _ frame_stable [OF Frame, of t]]
    show ?thesis by blast
  qed (use 1 in \<open>auto simp: parse_all_More parse_all_Bad\<close>)
qed

text \<open>
  A session that receives the stream in pieces hands over the frames of the whole stream, and ends
  with \<open>bad\<close> exactly when a bad header follows them.
\<close>

lemma feed_all_spec:
  assumes "rel d r" "parse r = More" "safe (r @ concat cs)"
    "\<And>c. c \<in> set cs \<Longrightarrow> frame_max + length c \<le> room"
    "feed_chunks parse r cs = (ps, b)"
  shows "\<exists>d'. feed_all push decode ok wait get cs d = Some (ps, Inr (if b then bad else wait, d'))"
  using assms
proof (induction cs arbitrary: d r ps b)
  case Nil
  then show ?case by simp
next
  case (Cons c cs)
  have sr: "safe (r @ c)" using Cons.prems(3) safe_prefix [of "r @ c" "concat cs"] by simp
  have "unread d + length c \<le> room"
    using unread_le [OF Cons.prems(1)] more_short [OF safe_prefix [OF sr] Cons.prems(2)] Cons.prems(4)
    by force
  then obtain d1 where d1: "push c d = (ok, d1)" "rel d1 (r @ c)"
    using push_room Cons.prems(1) by blast
  obtain qs b1 r' where p: "parse_all parse (r @ c) = (qs, b1, r')"
    by (cases "parse_all parse (r @ c)")
  obtain d2 where d2: "drain decode ok get d1 = Some (qs, Inr (if b1 then bad else wait, d2))"
    "b1 \<or> rel d2 r'"
    using drain_parse_all [OF d1(2) sr p] by blast
  show ?case
  proof (cases b1)
    case True
    with d1 d2 p Cons.prems(5) codes show ?thesis by (auto simp: feed_def)
  next
    case False
    obtain qs' where q: "feed_chunks parse r' cs = (qs', b)" "ps = qs @ qs'"
      using Cons.prems(5) p False by (auto split: prod.splits)
    have "parse r' = More" using parse_all_rest [OF p] False by simp
    moreover have "safe (r' @ concat cs)"
      using safe_rest_append [of "r @ c" "concat cs" qs r'] p False Cons.prems(3) by simp
    ultimately obtain d3 where
      "feed_all push decode ok wait get cs d2 = Some (qs', Inr (if b then bad else wait, d3))"
      using Cons.IH [OF _ _ _ _ q(1)] d2(2) False Cons.prems(4) by auto
    with d1 d2 False q show ?thesis by (simp add: feed_def)
  qed
qed

lemma feed_all_parse_all:
  assumes "rel d []" "parse [] = More" "safe (concat cs)"
    "\<And>c. c \<in> set cs \<Longrightarrow> frame_max + length c \<le> room"
    "parse_all parse (concat cs) = (ps, b, r)"
  shows "\<exists>d'. feed_all push decode ok wait get cs d = Some (ps, Inr (if b then bad else wait, d'))"
  using feed_all_spec [OF assms(1,2) _ assms(4), of cs ps b] assms(3,5)
    feed_chunks_concat [OF assms(2), of cs] by simp

end

end
