(* ===== verification/Jt1078_Decoder.thy ===== *)
theory Jt1078_Decoder
  imports Framing
begin

text \<open>
  The decoder of the jt1078 vehicle stream (jt1078/jt1078_server: Jt1078Header.h, Jt1078Packet.h,
  Jt1078Decoder.h, Jt1078Decoder.cpp): header and packet types, the two header steps and the body
  step with every check, the push into the receive buffer, and the \<open>Decode\<close> loop. Then what it
  implements: a parser \<open>jt_parse\<close> on the whole stream, the encoder \<open>jt_encode\<close> that is its
  inverse, and the interpretation of the decoder contract of Framing.
\<close>

section \<open>Constants and data\<close>

definition JT1078_MAX_LENGTH :: nat where "JT1078_MAX_LENGTH = 950"
definition JT_1078_HEAD_MARK :: u32 where "JT_1078_HEAD_MARK = 0x30316364"

definition DATA_TYPE_VIDEO_I :: byte where "DATA_TYPE_VIDEO_I = 0"
definition DATA_TYPE_VIDEO_P :: byte where "DATA_TYPE_VIDEO_P = 1"
definition DATA_TYPE_VIDEO_B :: byte where "DATA_TYPE_VIDEO_B = 2"
definition DATA_TYPE_AUDIO :: byte where "DATA_TYPE_AUDIO = 3"
definition DATA_TYPE_ROUTE :: byte where "DATA_TYPE_ROUTE = 4"

definition RCV_ATOMIC_PACKAGE :: byte where "RCV_ATOMIC_PACKAGE = 0"
definition RCV_FIRST_PACKAGE :: byte where "RCV_FIRST_PACKAGE = 1"
definition RCV_LAST_PACKAGE :: byte where "RCV_LAST_PACKAGE = 2"
definition RCV_MIDDLE_PACKAGE :: byte where "RCV_MIDDLE_PACKAGE = 3"

lemmas jt_consts = JT1078_MAX_LENGTH_def JT_1078_HEAD_MARK_def
  DATA_TYPE_VIDEO_I_def DATA_TYPE_VIDEO_P_def DATA_TYPE_VIDEO_B_def DATA_TYPE_AUDIO_def
  DATA_TYPE_ROUTE_def RCV_ATOMIC_PACKAGE_def RCV_FIRST_PACKAGE_def RCV_LAST_PACKAGE_def
  RCV_MIDDLE_PACKAGE_def

text \<open>
  \<open>header_t\<close>: the bit fields \<open>V2\<close>, \<open>P1\<close>, \<open>X1\<close>, \<open>CC4\<close>, \<open>M1\<close>, \<open>PT7\<close>, \<open>DataType4\<close>
  and \<open>SubpackageHandleMark4\<close> are bytes; every assignment to one masks the value to its width.
\<close>

record header_t =
  DWFramHeadMark :: u32
  V2 :: byte
  P1 :: byte
  X1 :: byte
  CC4 :: byte
  M1 :: byte
  PT7 :: byte
  WdPackageSequence :: u16
  BCDSIMCardNumber :: "byte list"
  Bt1LogicChannelNumber :: byte
  DataType4 :: byte
  SubpackageHandleMark4 :: byte
  Bt8timeStamp :: u64
  WdLastIFrameInterval :: u16
  WdLastFrameInterval :: u16
  WdBodyLen :: u16

definition header_Clear :: header_t where
  "header_Clear = \<lparr>DWFramHeadMark = 0, V2 = 0, P1 = 0, X1 = 0, CC4 = 0, M1 = 0, PT7 = 0,
     WdPackageSequence = 0, BCDSIMCardNumber = replicate 6 0, Bt1LogicChannelNumber = 0,
     DataType4 = 0, SubpackageHandleMark4 = 0, Bt8timeStamp = 0, WdLastIFrameInterval = 0,
     WdLastFrameInterval = 0, WdBodyLen = 0\<rparr>"

text \<open>
  A packet as its readers see it: the header and the bytes of \<open>m_body\<close>. Inside the decoder
  \<open>m_body\<close> is one array allocated once; readers use its first \<open>WdBodyLen\<close> bytes.
\<close>

record jt_packet =
  m_header :: header_t
  m_body :: "byte list"

definition jt_packet_Clear :: "jt_packet \<Rightarrow> jt_packet" where
  "jt_packet_Clear p = p\<lparr>m_header := header_Clear, m_body := mem_write 0 [0] (m_body p)\<rparr>"

text \<open>The copy constructor: a fresh body of \<open>WdBodyLen + 1\<close> bytes, terminated by a zero.\<close>

definition jt_packet_copy :: "jt_packet \<Rightarrow> fault + jt_packet" where
  "jt_packet_copy p =
     (let n = unat (WdBodyLen (m_header p)) in
      if length (m_body p) < n then Inl OutOfBounds
      else Inr \<lparr>m_header = m_header p, m_body = take n (m_body p) @ [0]\<rparr>)"

datatype jt_status = kReadHeaderStep1 | kReadHeaderStep2 | kReadBody

datatype jt_error = kNoError | kNeedMoreData | kBufferFull | kInvalidHeader | kBodyLengthInvalid

record jt_decoder =
  jd_buffer :: buffer
  jd_packet :: jt_packet
  jd_howmuch :: nat
  jd_status :: jt_status

definition JT_MAX_BUFFER_SIZE :: nat where "JT_MAX_BUFFER_SIZE = 500 * 1024"
definition READ_SIZE_FOR_HEADER_FIRST :: nat where "READ_SIZE_FOR_HEADER_FIRST = 16"
definition READ_MIN_SIZE_FOR_HEADER_SECOND :: nat where "READ_MIN_SIZE_FOR_HEADER_SECOND = 2"
definition READ_VIDEO_SIZE_FOR_HEADER_SECOND :: nat where "READ_VIDEO_SIZE_FOR_HEADER_SECOND = 14"
definition READ_AUDIO_SIZE_FOR_HEADER_SECOND :: nat where "READ_AUDIO_SIZE_FOR_HEADER_SECOND = 10"

lemmas jt_sizes = JT_MAX_BUFFER_SIZE_def READ_SIZE_FOR_HEADER_FIRST_def
  READ_MIN_SIZE_FOR_HEADER_SECOND_def READ_VIDEO_SIZE_FOR_HEADER_SECOND_def
  READ_AUDIO_SIZE_FOR_HEADER_SECOND_def

definition jt_decoder_new :: jt_decoder where
  "jt_decoder_new = \<lparr>jd_buffer = Reserve (JT_MAX_BUFFER_SIZE div 4) Buffer_new,
     jd_packet = \<lparr>m_header = header_Clear, m_body = replicate (max (JT1078_MAX_LENGTH + 1) 1024) 0\<rparr>,
     jd_howmuch = READ_SIZE_FOR_HEADER_FIRST, jd_status = kReadHeaderStep1\<rparr>"

section \<open>Operations\<close>

definition jt_PushBuffer :: "buffer \<Rightarrow> jt_decoder \<Rightarrow> jt_error \<times> jt_decoder" where
  "jt_PushBuffer src d =
     (let b = jd_buffer d;
          nCapacity = GetCapacity b;
          nLeftCapacity = GetLeftCapacity b;
          nNewBufferLen = ReadableBytes src;
          nCurBufferLen = ReadableBytes b in
      if nNewBufferLen + nCurBufferLen > JT_MAX_BUFFER_SIZE then (kBufferFull, d)
      else if nNewBufferLen + nCurBufferLen > nCapacity then
        (let nNewCapacity = min (nCapacity * 2) JT_MAX_BUFFER_SIZE in
         (kNoError, d\<lparr>jd_buffer := Append_buffer src (Reserve nNewCapacity (AutoRemove b))\<rparr>))
      else if nNewBufferLen > nLeftCapacity then
        (kNoError, d\<lparr>jd_buffer := Append_buffer src (AutoRemove b)\<rparr>)
      else (kNoError, d\<lparr>jd_buffer := Append_buffer src b\<rparr>))"

definition IsSupportCodingType :: "nat \<Rightarrow> bool" where
  "IsSupportCodingType t = (t \<in> {6, 7, 8, 26, 91, 98})"

text \<open>
  The header steps return the error code, the header as filled in so far and the buffer as far as
  it was read: an early \<open>break\<close> leaves both behind.
\<close>

definition ParseHeaderStep1 ::
  "nat \<Rightarrow> header_t \<Rightarrow> buffer \<Rightarrow> fault + (jt_error \<times> header_t \<times> buffer)" where
  "ParseHeaderStep1 howmuch h b =
    (if ReadableBytes b < howmuch then Inr (kNeedMoreData, h, b)
     else rbind (ReadInt32 b) (\<lambda>(mark, b).
       let h = h\<lparr>DWFramHeadMark := mark\<rparr> in
       if mark \<noteq> JT_1078_HEAD_MARK then Inr (kInvalidHeader, h, b)
       else rbind (ReadInt8 b) (\<lambda>(c, b).
         let h = h\<lparr>V2 := drop_bit 6 c AND 0x3\<rparr> in
         if V2 h \<noteq> 2 then Inr (kInvalidHeader, h, b)
         else let h = h\<lparr>P1 := drop_bit 5 c AND 0x1\<rparr> in
         if P1 h \<noteq> 0 then Inr (kInvalidHeader, h, b)
         else let h = h\<lparr>X1 := drop_bit 4 c AND 0x1\<rparr> in
         if X1 h \<noteq> 0 then Inr (kInvalidHeader, h, b)
         else let h = h\<lparr>CC4 := c AND 0xF\<rparr> in
         if CC4 h \<noteq> 1 then Inr (kInvalidHeader, h, b)
         else rbind (ReadInt8 b) (\<lambda>(c, b).
           let h = h\<lparr>M1 := drop_bit 7 c AND 0x1, PT7 := c AND 0x7F\<rparr> in
           if \<not> IsSupportCodingType (unat (PT7 h)) then Inr (kInvalidHeader, h, b)
           else rbind (ReadInt16 b) (\<lambda>(sq, b).
             let h = h\<lparr>WdPackageSequence := sq\<rparr> in
             rbind (ReadBuffer 6 b) (\<lambda>(sim, b).
               let h = h\<lparr>BCDSIMCardNumber := sim\<rparr> in
               rbind (ReadInt8 b) (\<lambda>(ch, b).
                 let h = h\<lparr>Bt1LogicChannelNumber := ch\<rparr> in
                 rbind (ReadInt8 b) (\<lambda>(c, b).
                   let h = h\<lparr>DataType4 := drop_bit 4 c AND 0xF\<rparr> in
                   if DataType4 h \<noteq> DATA_TYPE_VIDEO_I \<and> DataType4 h \<noteq> DATA_TYPE_VIDEO_P \<and>
                      DataType4 h \<noteq> DATA_TYPE_VIDEO_B \<and> DataType4 h \<noteq> DATA_TYPE_AUDIO \<and>
                      DataType4 h \<noteq> DATA_TYPE_ROUTE
                   then Inr (kInvalidHeader, h, b)
                   else let h = h\<lparr>SubpackageHandleMark4 := c AND 0xF\<rparr> in
                   if SubpackageHandleMark4 h \<noteq> RCV_ATOMIC_PACKAGE \<and>
                      SubpackageHandleMark4 h \<noteq> RCV_FIRST_PACKAGE \<and>
                      SubpackageHandleMark4 h \<noteq> RCV_LAST_PACKAGE \<and>
                      SubpackageHandleMark4 h \<noteq> RCV_MIDDLE_PACKAGE
                   then Inr (kInvalidHeader, h, b)
                   else Inr (kNoError, h, b)))))))))"

text \<open>The end of step 2: the body length, refused above the maximum.\<close>

definition read_body_len :: "header_t \<Rightarrow> buffer \<Rightarrow> fault + (jt_error \<times> header_t \<times> buffer)" where
  "read_body_len h b =
    rbind (ReadInt16 b) (\<lambda>(n, b).
      let h = h\<lparr>WdBodyLen := n\<rparr> in
      if unat (WdBodyLen h) > JT1078_MAX_LENGTH then Inr (kInvalidHeader, h, b)
      else Inr (kNoError, h, b))"

definition ParseHeaderStep2 ::
  "nat \<Rightarrow> header_t \<Rightarrow> buffer \<Rightarrow> fault + (jt_error \<times> header_t \<times> buffer)" where
  "ParseHeaderStep2 howmuch h b =
    (if ReadableBytes b < howmuch then Inr (kNeedMoreData, h, b)
     else if DataType4 h = DATA_TYPE_VIDEO_I \<or> DataType4 h = DATA_TYPE_VIDEO_P \<or>
             DataType4 h = DATA_TYPE_VIDEO_B then
       (if ReadableBytes b < READ_VIDEO_SIZE_FOR_HEADER_SECOND then Inr (kNeedMoreData, h, b)
        else rbind (ReadInt64 b) (\<lambda>(ts, b).
          rbind (ReadInt16 b) (\<lambda>(li, b).
            rbind (ReadInt16 b) (\<lambda>(lf, b).
              read_body_len (h\<lparr>Bt8timeStamp := ts, WdLastIFrameInterval := li,
                WdLastFrameInterval := lf\<rparr>) b))))
     else if DataType4 h = DATA_TYPE_AUDIO then
       (if ReadableBytes b < READ_AUDIO_SIZE_FOR_HEADER_SECOND then Inr (kNeedMoreData, h, b)
        else rbind (ReadInt64 b) (\<lambda>(ts, b). read_body_len (h\<lparr>Bt8timeStamp := ts\<rparr>) b))
     else if DataType4 h = DATA_TYPE_ROUTE then read_body_len h b
     else Inr (kInvalidHeader, h, b))"

definition ParseBody ::
  "nat \<Rightarrow> jt_packet \<Rightarrow> buffer \<Rightarrow> fault + (jt_error \<times> jt_packet \<times> buffer)" where
  "ParseBody howmuch p b =
    (if ReadableBytes b < howmuch then Inr (kNeedMoreData, p, b)
     else if length (m_body p) < howmuch + 1 then Inl OutOfBounds
     else rbind (ReadBuffer howmuch b) (\<lambda>(bs, b).
       Inr (kNoError, p\<lparr>m_body := mem_write 0 (bs @ [0]) (m_body p)\<rparr>, b)))"

text \<open>One pass of the loop of \<open>Decode\<close>; the flag is the \<open>break\<close> of the last branch.\<close>

definition jt_Decode_pass :: "jt_decoder \<Rightarrow> fault + (jt_error \<times> bool \<times> jt_decoder)" where
  "jt_Decode_pass d =
    (case jd_status d of
       kReadHeaderStep1 \<Rightarrow>
         (let p = jt_packet_Clear (jd_packet d) in
          rbind (ParseHeaderStep1 (jd_howmuch d) (m_header p) (jd_buffer d)) (\<lambda>(e, h, b).
            let d = d\<lparr>jd_packet := p\<lparr>m_header := h\<rparr>, jd_buffer := b\<rparr> in
            Inr (e, False, if e = kNoError
              then d\<lparr>jd_status := kReadHeaderStep2, jd_howmuch := READ_MIN_SIZE_FOR_HEADER_SECOND\<rparr>
              else d)))
     | kReadHeaderStep2 \<Rightarrow>
         rbind (ParseHeaderStep2 (jd_howmuch d) (m_header (jd_packet d)) (jd_buffer d)) (\<lambda>(e, h, b).
            let d = d\<lparr>jd_packet := (jd_packet d)\<lparr>m_header := h\<rparr>, jd_buffer := b\<rparr> in
            Inr (e, False, if e = kNoError
              then d\<lparr>jd_status := kReadBody, jd_howmuch := unat (WdBodyLen h)\<rparr> else d))
     | kReadBody \<Rightarrow>
         rbind (ParseBody (jd_howmuch d) (jd_packet d) (jd_buffer d)) (\<lambda>(e, p, b).
            let d = d\<lparr>jd_packet := p, jd_buffer := b\<rparr> in
            Inr (e, True, if e = kNoError
              then d\<lparr>jd_status := kReadHeaderStep1, jd_howmuch := READ_SIZE_FOR_HEADER_FIRST\<rparr>
              else d)))"

text \<open>Steps left in a frame: what makes the loop end.\<close>

definition status_rank :: "jt_status \<Rightarrow> nat" where
  "status_rank s = (case s of kReadHeaderStep1 \<Rightarrow> 2 | kReadHeaderStep2 \<Rightarrow> 1 | kReadBody \<Rightarrow> 0)"

lemma jt_Decode_pass_rank:
  "jt_Decode_pass d = Inr (kNoError, False, d') \<Longrightarrow> status_rank (jd_status d') < status_rank (jd_status d)"
  by (cases "jd_status d")
    (auto simp: jt_Decode_pass_def status_rank_def rbind_eq_Inr Let_def split: if_splits)

function jt_Decode :: "jt_decoder \<Rightarrow> fault + (jt_error \<times> jt_decoder)" where
  "jt_Decode d =
    (case jt_Decode_pass d of
       Inl f \<Rightarrow> Inl f
     | Inr (e, brk, d') \<Rightarrow> if e = kNoError \<and> \<not> brk then jt_Decode d' else Inr (e, d'))"
  by pat_completeness auto
termination
  by (relation "measure (\<lambda>d. status_rank (jd_status d))") (auto dest: jt_Decode_pass_rank)

declare jt_Decode.simps [simp del]

text \<open>\<open>GetPacket\<close>, as its readers use it: the header and the first \<open>WdBodyLen\<close> body bytes.\<close>

definition jt_GetPacket :: "jt_decoder \<Rightarrow> jt_packet" where
  "jt_GetPacket d = (jd_packet d)\<lparr>m_body :=
     take (unat (WdBodyLen (m_header (jd_packet d)))) (m_body (jd_packet d))\<rparr>"

section \<open>What it implements: a parser on the whole stream\<close>

definition jt_hdr1 :: "byte list \<Rightarrow> header_t" where
  "jt_hdr1 s = header_Clear\<lparr>
     DWFramHeadMark := of_nat (be_nat (take 4 s)),
     V2 := drop_bit 6 (s ! 4) AND 0x3, P1 := drop_bit 5 (s ! 4) AND 0x1,
     X1 := drop_bit 4 (s ! 4) AND 0x1, CC4 := (s ! 4) AND 0xF,
     M1 := drop_bit 7 (s ! 5) AND 0x1, PT7 := (s ! 5) AND 0x7F,
     WdPackageSequence := of_nat (be_nat (take 2 (drop 6 s))),
     BCDSIMCardNumber := take 6 (drop 8 s), Bt1LogicChannelNumber := s ! 14,
     DataType4 := drop_bit 4 (s ! 15) AND 0xF, SubpackageHandleMark4 := (s ! 15) AND 0xF\<rparr>"

definition jt_hdr1_ok :: "header_t \<Rightarrow> bool" where
  "jt_hdr1_ok h = (DWFramHeadMark h = JT_1078_HEAD_MARK \<and> V2 h = 2 \<and> P1 h = 0 \<and> X1 h = 0 \<and>
     CC4 h = 1 \<and> IsSupportCodingType (unat (PT7 h)) \<and> DataType4 h \<in> {0, 1, 2, 3, 4} \<and>
     SubpackageHandleMark4 h \<in> {0, 1, 2, 3})"

definition is_video :: "header_t \<Rightarrow> bool" where
  "is_video h = (DataType4 h = DATA_TYPE_VIDEO_I \<or> DataType4 h = DATA_TYPE_VIDEO_P \<or>
     DataType4 h = DATA_TYPE_VIDEO_B)"

definition jt_hdr2_len :: "header_t \<Rightarrow> nat" where
  "jt_hdr2_len h = (if is_video h then 14 else if DataType4 h = DATA_TYPE_AUDIO then 10 else 2)"

definition jt_hdr2 :: "header_t \<Rightarrow> byte list \<Rightarrow> header_t" where
  "jt_hdr2 h t =
     (if is_video h then h\<lparr>Bt8timeStamp := of_nat (be_nat (take 8 t)),
        WdLastIFrameInterval := of_nat (be_nat (take 2 (drop 8 t))),
        WdLastFrameInterval := of_nat (be_nat (take 2 (drop 10 t))),
        WdBodyLen := of_nat (be_nat (take 2 (drop 12 t)))\<rparr>
      else if DataType4 h = DATA_TYPE_AUDIO then h\<lparr>Bt8timeStamp := of_nat (be_nat (take 8 t)),
        WdBodyLen := of_nat (be_nat (take 2 (drop 8 t)))\<rparr>
      else h\<lparr>WdBodyLen := of_nat (be_nat (take 2 t))\<rparr>)"

definition jt_parse :: "byte list \<Rightarrow> jt_packet frame" where
  "jt_parse s =
     (if length s < 16 then More
      else let h1 = jt_hdr1 s; n = 16 + jt_hdr2_len h1 in
        if \<not> jt_hdr1_ok h1 then Bad
        else if length s < n then More
        else let h = jt_hdr2 h1 (drop 16 s); len = unat (WdBodyLen h) in
          if len > JT1078_MAX_LENGTH then Bad
          else if length s < n + len then More
          else Frame \<lparr>m_header = h, m_body = take len (drop n s)\<rparr> (drop (n + len) s))"

lemma take_drop_append: "i + k \<le> length s \<Longrightarrow> take k (drop i (s @ t)) = take k (drop i s)"
  by simp

lemma jt_hdr1_append [simp]: "16 \<le> length s \<Longrightarrow> jt_hdr1 (s @ t) = jt_hdr1 s"
  by (simp add: jt_hdr1_def nth_append)

lemma jt_hdr2_append [simp]: "jt_hdr2_len h \<le> length s \<Longrightarrow> jt_hdr2 h (s @ t) = jt_hdr2 h s"
  by (cases "is_video h"; cases "DataType4 h = DATA_TYPE_AUDIO")
    (simp_all only: jt_hdr2_def jt_hdr2_len_def if_True if_False refl take_append_le take_drop_append)

lemma jt_hdr2_len_bounds: "2 \<le> jt_hdr2_len h" "jt_hdr2_len h \<le> 14"
  by (simp_all add: jt_hdr2_len_def)

lemma jt_parse_Bad:
  "jt_parse s = Bad \<longleftrightarrow> 16 \<le> length s \<and>
    (\<not> jt_hdr1_ok (jt_hdr1 s) \<or>
     16 + jt_hdr2_len (jt_hdr1 s) \<le> length s \<and>
       JT1078_MAX_LENGTH < unat (WdBodyLen (jt_hdr2 (jt_hdr1 s) (drop 16 s))))"
proof (cases "16 \<le> length s \<and> jt_hdr1_ok (jt_hdr1 s) \<and> 16 + jt_hdr2_len (jt_hdr1 s) \<le> length s")
  case True
  then show ?thesis by (auto simp: jt_parse_def Let_def not_less not_le)
next
  case False
  then show ?thesis by (auto simp: jt_parse_def Let_def not_less not_le)
qed

lemma jt_parse_Frame:
  "jt_parse s = Frame p r \<longleftrightarrow>
    (let n = 16 + jt_hdr2_len (jt_hdr1 s); h = jt_hdr2 (jt_hdr1 s) (drop 16 s);
         len = unat (WdBodyLen h) in
     16 \<le> length s \<and> jt_hdr1_ok (jt_hdr1 s) \<and> len \<le> JT1078_MAX_LENGTH \<and> n + len \<le> length s \<and>
     p = \<lparr>m_header = h, m_body = take len (drop n s)\<rparr> \<and> r = drop (n + len) s)"
proof (cases "16 \<le> length s \<and> jt_hdr1_ok (jt_hdr1 s) \<and> 16 + jt_hdr2_len (jt_hdr1 s) \<le> length s")
  case True
  then show ?thesis by (auto simp: jt_parse_def Let_def not_less not_le)
next
  case False
  then show ?thesis by (auto simp: jt_parse_def Let_def not_less not_le)
qed

text \<open>The parser never changes its mind when more bytes arrive.\<close>

interpretation jtp: frame_parser jt_parse
proof
  show "jt_parse (s @ t) = Bad" if "jt_parse s = Bad" for s t
    using that by (auto simp: jt_parse_Bad)
  show "jt_parse (s @ t) = Frame p (r @ t)" if "jt_parse s = Frame p r" for s p r t
    using that by (clarsimp simp: jt_parse_Frame Let_def)
  show "length r < length s" if "jt_parse s = Frame p r" for s p r
    using that by (auto simp: jt_parse_Frame Let_def)
qed

section \<open>The decoder implements the parser\<close>

lemma Skip_Skip [simp]: "Skip n (Skip m b) = Skip (m + n) b"
  by (simp add: Skip_def add.assoc)

lemma Step1_reads:
  assumes "buf_ok b" "16 \<le> length (GetBuffer b)"
  defines "s \<equiv> GetBuffer b"
  shows "\<not> ReadableBytes b < 16"
    "ReadInt32 b = Inr (of_nat (be_nat (take 4 s)), Skip 4 b)"
    "ReadInt8 (Skip 4 b) = Inr (s ! 4, Skip 5 b)"
    "ReadInt8 (Skip 5 b) = Inr (s ! 5, Skip 6 b)"
    "ReadInt16 (Skip 6 b) = Inr (of_nat (be_nat (take 2 (drop 6 s))), Skip 8 b)"
    "ReadBuffer 6 (Skip 8 b) = Inr (take 6 (drop 8 s), Skip 14 b)"
    "ReadInt8 (Skip 14 b) = Inr (s ! 14, Skip 15 b)"
    "ReadInt8 (Skip 15 b) = Inr (s ! 15, Skip 16 b)"
  using assms by (simp_all add: buf_simps hd_drop_conv_nth)

text \<open>Step 1 accepts exactly the headers \<open>jt_hdr1_ok\<close> accepts; it fills in \<open>jt_hdr1\<close>.\<close>


lemma Step1_cases:
  assumes "buf_ok b" "16 \<le> length (GetBuffer b)"
  defines "h \<equiv> jt_hdr1 (GetBuffer b)"
  shows "if jt_hdr1_ok h then ParseHeaderStep1 16 header_Clear b = Inr (kNoError, h, Skip 16 b)
    else \<exists>h' b'. ParseHeaderStep1 16 header_Clear b = Inr (kInvalidHeader, h', b')"
proof -
  let ?s = "GetBuffer b"
  define mark :: u32 where "mark = of_nat (be_nat (take 4 ?s))"
  define v p x cc where "v = drop_bit 6 (?s ! 4) AND 0x3" and "p = drop_bit 5 (?s ! 4) AND 0x1"
    and "x = drop_bit 4 (?s ! 4) AND 0x1" and "cc = (?s ! 4) AND 0xF"
  define m pt dt sb where "m = drop_bit 7 (?s ! 5) AND 0x1" and "pt = (?s ! 5) AND 0x7F"
    and "dt = drop_bit 4 (?s ! 15) AND 0xF" and "sb = (?s ! 15) AND 0xF"
  note folds = mark_def [symmetric] v_def [symmetric] p_def [symmetric] x_def [symmetric]
    cc_def [symmetric] m_def [symmetric] pt_def [symmetric] dt_def [symmetric] sb_def [symmetric]
  show ?thesis
    unfolding ParseHeaderStep1_def Let_def
    by (simp only: Step1_reads [OF assms(1,2)] if_False rbind.simps prod.case
        jt_hdr1_ok_def h_def jt_hdr1_def jt_consts header_t.simps folds) auto
qed

lemma Step1_short:
  "buf_ok b \<Longrightarrow> length (GetBuffer b) < 16 \<Longrightarrow>
    ParseHeaderStep1 16 h b = Inr (kNeedMoreData, h, b)"
  by (simp add: ParseHeaderStep1_def buf_simps)

text \<open>Step 2 waits for the \<open>jt_hdr2_len\<close> bytes of its kind and refuses a long body.\<close>

lemma read_body_len_eq:
  "buf_ok b \<Longrightarrow> 2 \<le> length (GetBuffer b) \<Longrightarrow>
    read_body_len h b =
      (let h' = h\<lparr>WdBodyLen := of_nat (be_nat (take 2 (GetBuffer b)))\<rparr> in
       Inr (if unat (WdBodyLen h') > JT1078_MAX_LENGTH then kInvalidHeader else kNoError, h', Skip 2 b))"
  by (simp add: read_body_len_def ReadInt16_eq Let_def)

lemma jt_kind_cases:
  assumes "jt_hdr1_ok h"
  obtains (video) "is_video h" | (audio) "\<not> is_video h" "DataType4 h = DATA_TYPE_AUDIO"
  | (route) "\<not> is_video h" "DataType4 h = DATA_TYPE_ROUTE"
  using assms by (auto simp: jt_hdr1_ok_def is_video_def jt_consts)

lemma Step2_short:
  assumes "buf_ok b" "jt_hdr1_ok h" "length (GetBuffer b) < jt_hdr2_len h"
  shows "ParseHeaderStep2 2 h b = Inr (kNeedMoreData, h, b)"
  using assms(2) assms
  by (cases rule: jt_kind_cases)
    (auto simp: ParseHeaderStep2_def jt_hdr2_len_def is_video_def ReadableBytes_eq jt_sizes jt_consts)

lemma Step2_full:
  assumes "buf_ok b" "jt_hdr1_ok h" "jt_hdr2_len h \<le> length (GetBuffer b)"
  defines "h' \<equiv> jt_hdr2 h (GetBuffer b)"
  shows "ParseHeaderStep2 2 h b =
    Inr (if unat (WdBodyLen h') > JT1078_MAX_LENGTH then kInvalidHeader else kNoError, h',
      Skip (jt_hdr2_len h) b)"
  using assms(2)
proof (cases rule: jt_kind_cases)
  case video
  with assms(1,3) have "14 \<le> length (GetBuffer b)" by (simp add: jt_hdr2_len_def)
  with video assms(1) show ?thesis
    by (simp add: ParseHeaderStep2_def h'_def jt_hdr2_def jt_hdr2_len_def is_video_def [symmetric]
        buf_simps jt_sizes read_body_len_eq Let_def)
next
  case audio
  with assms(1,3) have "10 \<le> length (GetBuffer b)" by (simp add: jt_hdr2_len_def)
  with audio assms(1) show ?thesis
    by (simp add: ParseHeaderStep2_def h'_def jt_hdr2_def jt_hdr2_len_def is_video_def
        buf_simps jt_sizes read_body_len_eq Let_def jt_consts)
next
  case route
  with assms(1,3) have "2 \<le> length (GetBuffer b)" by (simp add: jt_hdr2_len_def jt_consts)
  with route assms(1) show ?thesis
    by (simp add: ParseHeaderStep2_def h'_def jt_hdr2_def jt_hdr2_len_def is_video_def [symmetric]
        buf_simps jt_sizes read_body_len_eq Let_def jt_consts)
qed

text \<open>
  \<open>jt_rel d s\<close>: the decoder \<open>d\<close> has taken in the stream \<open>s\<close> since the end of the last frame
  and has parsed as much of it as its status says.
\<close>

definition jt_rel :: "jt_decoder \<Rightarrow> byte list \<Rightarrow> bool" where
  "jt_rel d s \<longleftrightarrow> buf_ok (jd_buffer d) \<and> length (m_body (jd_packet d)) = 1024 \<and>
    (let h = m_header (jd_packet d); u = GetBuffer (jd_buffer d); n = 16 + jt_hdr2_len (jt_hdr1 s) in
     case jd_status d of
       kReadHeaderStep1 \<Rightarrow> jd_howmuch d = 16 \<and> u = s
     | kReadHeaderStep2 \<Rightarrow> jd_howmuch d = 2 \<and> 16 \<le> length s \<and> u = drop 16 s \<and> h = jt_hdr1 s \<and>
         jt_hdr1_ok (jt_hdr1 s)
     | kReadBody \<Rightarrow> n \<le> length s \<and> u = drop n s \<and> h = jt_hdr2 (jt_hdr1 s) (drop 16 s) \<and>
         jt_hdr1_ok (jt_hdr1 s) \<and> jd_howmuch d = unat (WdBodyLen h) \<and>
         unat (WdBodyLen h) \<le> JT1078_MAX_LENGTH)"

definition jt_decodes :: "byte list \<Rightarrow> fault + (jt_error \<times> jt_decoder) \<Rightarrow> bool" where
  "jt_decodes s r \<longleftrightarrow>
    (case jt_parse s of
       More \<Rightarrow> \<exists>d'. r = Inr (kNeedMoreData, d') \<and> jt_rel d' s
     | Bad \<Rightarrow> \<exists>d'. r = Inr (kInvalidHeader, d')
     | Frame p t \<Rightarrow> \<exists>d'. r = Inr (kNoError, d') \<and> jt_rel d' t \<and> jt_GetPacket d' = p)"

lemma Decode_body:
  assumes "jt_rel d s" "jd_status d = kReadBody"
  shows "jt_decodes s (jt_Decode d)"
proof -
  define n h where nh: "n = 16 + jt_hdr2_len (jt_hdr1 s)" "h = jt_hdr2 (jt_hdr1 s) (drop 16 s)"
  define k where k: "k = unat (WdBodyLen h)"
  have r: "buf_ok (jd_buffer d)" "length (m_body (jd_packet d)) = 1024" "n \<le> length s"
    "GetBuffer (jd_buffer d) = drop n s" "m_header (jd_packet d) = h" "jt_hdr1_ok (jt_hdr1 s)"
    "jd_howmuch d = k" "k \<le> 950" "16 \<le> n"
    using assms by (auto simp: jt_rel_def Let_def JT1078_MAX_LENGTH_def nh k)
  have parse: "jt_parse s = (if length s < n + k then More
      else Frame \<lparr>m_header = h, m_body = take k (drop n s)\<rparr> (drop (n + k) s))"
    using r by (simp add: jt_parse_def Let_def jt_consts nh [symmetric] k [symmetric])
  have pass: "jt_Decode_pass d = rbind (ParseBody k (jd_packet d) (jd_buffer d)) (\<lambda>(e, p, b).
      let d = d\<lparr>jd_packet := p, jd_buffer := b\<rparr> in
      Inr (e, True, if e = kNoError
        then d\<lparr>jd_status := kReadHeaderStep1, jd_howmuch := READ_SIZE_FOR_HEADER_FIRST\<rparr> else d))"
    using assms(2) r by (simp add: jt_Decode_pass_def)
  show ?thesis
  proof (cases "length s < n + k")
    case True
    then have "ParseBody k (jd_packet d) (jd_buffer d) = Inr (kNeedMoreData, jd_packet d, jd_buffer d)"
      using r by (simp add: ParseBody_def ReadableBytes_eq less_diff_conv2)
    then have "jt_Decode d = Inr (kNeedMoreData, d)"
      by (simp add: jt_Decode.simps [of d] pass res_simps)
    with True parse show ?thesis using assms(1) by (simp add: jt_decodes_def)
  next
    case False
    define p where "p = (jd_packet d)\<lparr>m_body := mem_write 0 (take k (drop n s) @ [0]) (m_body (jd_packet d))\<rparr>"
    define d' where "d' = d\<lparr>jd_packet := p, jd_buffer := Skip k (jd_buffer d),
      jd_status := kReadHeaderStep1, jd_howmuch := 16\<rparr>"
    have "ParseBody k (jd_packet d) (jd_buffer d) = Inr (kNoError, p, Skip k (jd_buffer d))"
      using False r by (simp add: ParseBody_def buf_simps res_simps p_def)
    then have "jt_Decode d = Inr (kNoError, d')"
      by (simp add: jt_Decode.simps [of d] pass res_simps d'_def jt_sizes)
    moreover have "jt_rel d' (drop (n + k) s)"
      using False r by (simp add: jt_rel_def d'_def p_def buf_simps add.commute)
    moreover have "length (take k (drop n s)) = k" using False by simp
    then have "jt_GetPacket d' = \<lparr>m_header = h, m_body = take k (drop n s)\<rparr>"
      using r by (simp add: jt_GetPacket_def d'_def p_def mem_write_def k [symmetric])
    ultimately show ?thesis using False parse by (simp add: jt_decodes_def)
  qed
qed

lemma Decode_step2:
  assumes "jt_rel d s" "jd_status d = kReadHeaderStep2"
  shows "jt_decodes s (jt_Decode d)"
proof -
  let ?n = "jt_hdr2_len (jt_hdr1 s)" and ?h = "jt_hdr2 (jt_hdr1 s) (drop 16 s)"
  let ?b = "jd_buffer d"
  have r: "buf_ok ?b" "length (m_body (jd_packet d)) = 1024" "16 \<le> length s"
    "GetBuffer ?b = drop 16 s" "m_header (jd_packet d) = jt_hdr1 s" "jt_hdr1_ok (jt_hdr1 s)"
    "jd_howmuch d = 2"
    using assms by (auto simp: jt_rel_def Let_def)
  have pass: "jt_Decode_pass d = rbind (ParseHeaderStep2 2 (jt_hdr1 s) ?b) (\<lambda>(e, h, b).
      let d = d\<lparr>jd_packet := (jd_packet d)\<lparr>m_header := h\<rparr>, jd_buffer := b\<rparr> in
      Inr (e, False, if e = kNoError
        then d\<lparr>jd_status := kReadBody, jd_howmuch := unat (WdBodyLen h)\<rparr> else d))"
    using assms(2) r by (simp add: jt_Decode_pass_def)
  consider (short) "length s < 16 + ?n" | (long) "16 + ?n \<le> length s" "JT1078_MAX_LENGTH < unat (WdBodyLen ?h)"
    | (full) "16 + ?n \<le> length s" "unat (WdBodyLen ?h) \<le> JT1078_MAX_LENGTH"
    by linarith
  then show ?thesis
  proof cases
    case short
    then have "ParseHeaderStep2 2 (jt_hdr1 s) ?b = Inr (kNeedMoreData, jt_hdr1 s, ?b)"
      using r by (intro Step2_short) auto
    moreover have "d\<lparr>jd_packet := (jd_packet d)\<lparr>m_header := jt_hdr1 s\<rparr>, jd_buffer := ?b\<rparr> = d"
      using r(5) by simp
    ultimately have "jt_Decode d = Inr (kNeedMoreData, d)"
      by (simp add: jt_Decode.simps [of d] pass res_simps Let_def)
    moreover have "jt_parse s = More" using short r by (simp add: jt_parse_def Let_def)
    ultimately show ?thesis using assms(1) by (simp add: jt_decodes_def)
  next
    case long
    then have "ParseHeaderStep2 2 (jt_hdr1 s) ?b = Inr (kInvalidHeader, ?h, Skip ?n ?b)"
      using r Step2_full [of ?b "jt_hdr1 s"] by auto
    then have "\<exists>d'. jt_Decode d = Inr (kInvalidHeader, d')"
      by (simp add: jt_Decode.simps [of d] pass res_simps Let_def)
    moreover have "jt_parse s = Bad" using long r by (simp add: jt_parse_Bad)
    ultimately show ?thesis by (simp add: jt_decodes_def)
  next
    case full
    define d' where "d' = d\<lparr>jd_packet := (jd_packet d)\<lparr>m_header := ?h\<rparr>, jd_buffer := Skip ?n ?b,
      jd_status := kReadBody, jd_howmuch := unat (WdBodyLen ?h)\<rparr>"
    have "ParseHeaderStep2 2 (jt_hdr1 s) ?b = Inr (kNoError, ?h, Skip ?n ?b)"
      using r full Step2_full [of ?b "jt_hdr1 s"] by auto
    then have "jt_Decode d = jt_Decode d'"
      by (simp add: jt_Decode.simps [of d] pass res_simps Let_def d'_def)
    moreover have "jt_rel d' s"
      using r full by (simp add: jt_rel_def d'_def buf_simps buf_ok_Skip Let_def add.commute)
    ultimately show ?thesis using Decode_body [of d' s] by (simp add: d'_def)
  qed
qed

lemma Decode_step1:
  assumes "jt_rel d s" "jd_status d = kReadHeaderStep1"
  shows "jt_decodes s (jt_Decode d)"
proof -
  let ?b = "jd_buffer d" and ?p = "jt_packet_Clear (jd_packet d)"
  have r: "buf_ok ?b" "length (m_body (jd_packet d)) = 1024" "GetBuffer ?b = s" "jd_howmuch d = 16"
    using assms by (auto simp: jt_rel_def Let_def)
  have p: "m_header ?p = header_Clear" "length (m_body ?p) = 1024"
    using r by (simp_all add: jt_packet_Clear_def)
  have pass: "jt_Decode_pass d = rbind (ParseHeaderStep1 16 header_Clear ?b) (\<lambda>(e, h, b).
      let d = d\<lparr>jd_packet := ?p\<lparr>m_header := h\<rparr>, jd_buffer := b\<rparr> in
      Inr (e, False, if e = kNoError
        then d\<lparr>jd_status := kReadHeaderStep2, jd_howmuch := READ_MIN_SIZE_FOR_HEADER_SECOND\<rparr> else d))"
    using assms(2) r p by (simp add: jt_Decode_pass_def)
  consider (short) "length s < 16" | (bad) "16 \<le> length s" "\<not> jt_hdr1_ok (jt_hdr1 s)"
    | (ok) "16 \<le> length s" "jt_hdr1_ok (jt_hdr1 s)"
    by linarith
  then show ?thesis
  proof cases
    case short
    define d' where "d' = d\<lparr>jd_packet := ?p\<lparr>m_header := header_Clear\<rparr>, jd_buffer := ?b\<rparr>"
    have "jt_Decode d = Inr (kNeedMoreData, d')"
      using short r Step1_short [of ?b]
      by (simp add: jt_Decode.simps [of d] pass res_simps Let_def d'_def)
    moreover have "jt_rel d' s" using r p assms(2) by (simp add: jt_rel_def d'_def)
    moreover have "jt_parse s = More" using short by (simp add: jt_parse_def)
    ultimately show ?thesis by (simp add: jt_decodes_def)
  next
    case bad
    then have "\<exists>d'. jt_Decode d = Inr (kInvalidHeader, d')"
      using r Step1_cases [of ?b]
      by (auto simp: jt_Decode.simps [of d] pass res_simps Let_def)
    moreover have "jt_parse s = Bad" using bad by (simp add: jt_parse_Bad)
    ultimately show ?thesis by (simp add: jt_decodes_def)
  next
    case ok
    define d' where "d' = d\<lparr>jd_packet := ?p\<lparr>m_header := jt_hdr1 s\<rparr>, jd_buffer := Skip 16 ?b,
      jd_status := kReadHeaderStep2, jd_howmuch := 2\<rparr>"
    have "jt_Decode d = jt_Decode d'"
      using ok r Step1_cases [of ?b]
      by (simp add: jt_Decode.simps [of d] pass res_simps Let_def d'_def jt_sizes)
    moreover have "jt_rel d' s"
      using r ok p by (simp add: jt_rel_def d'_def buf_simps)
    ultimately show ?thesis using Decode_step2 [of d' s] by (simp add: d'_def)
  qed
qed

lemma jt_Decode_decodes: "jt_rel d s \<Longrightarrow> jt_decodes s (jt_Decode d)"
  using Decode_step1 Decode_step2 Decode_body by (cases "jd_status d") auto

text \<open>Pushing: the size test looks at the unread bytes only; the data goes behind them.\<close>

definition jt_push :: "byte list \<Rightarrow> jt_decoder \<Rightarrow> jt_error \<times> jt_decoder" where
  "jt_push bs d = jt_PushBuffer (Append bs Buffer_new) d"

lemma jt_rel_push:
  assumes "jt_rel d s" "buf_ok b" "GetBuffer b = GetBuffer (jd_buffer d) @ bs"
  shows "jt_rel (d\<lparr>jd_buffer := b\<rparr>) (s @ bs)"
  using assms by (auto simp: jt_rel_def Let_def split: jt_status.splits)

lemma jt_push_room:
  assumes "jt_rel d s" "buf_ok src"
    "ReadableBytes (jd_buffer d) + ReadableBytes src \<le> JT_MAX_BUFFER_SIZE"
  shows "\<exists>d'. jt_PushBuffer src d = (kNoError, d') \<and> jt_rel d' (s @ GetBuffer src)"
proof -
  have b: "buf_ok (jd_buffer d)" using assms(1) by (simp add: jt_rel_def)
  have "jt_rel (d\<lparr>jd_buffer := Append_buffer src b\<rparr>) (s @ GetBuffer src)"
    if "buf_ok b" "GetBuffer b = GetBuffer (jd_buffer d)" for b
    using assms that by (intro jt_rel_push) (auto simp: buf_simps)
  from this [of "jd_buffer d"] this [of "AutoRemove (jd_buffer d)"]
    this [of "Reserve n (AutoRemove (jd_buffer d))" for n]
  show ?thesis
    using assms b by (auto simp: jt_PushBuffer_def Let_def buf_simps)
qed

lemma jt_parse_More_short: "jt_parse s = More \<Longrightarrow> length s \<le> 980"
  using jt_hdr2_len_bounds(2) [of "jt_hdr1 s"]
  by (fastforce simp: jt_parse_def Let_def jt_consts split: if_splits)

lemma jt_rel_new: "jt_rel jt_decoder_new []"
  by (simp add: jt_rel_def jt_decoder_new_def buf_simps jt_sizes jt_consts)

interpretation jtd: stream_decoder jt_parse jt_Decode jt_push jt_GetPacket jt_rel
  "\<lambda>d. ReadableBytes (jd_buffer d)" "\<lambda>_. True" kNoError kNeedMoreData kInvalidHeader kBufferFull
  512000 980
proof
  show "ReadableBytes (jd_buffer d) \<le> length s" if "jt_rel d s" for d s
    using that by (auto simp: jt_rel_def Let_def buf_simps split: jt_status.splits)
  show "\<exists>d'. jt_push bs d = (kNoError, d') \<and> jt_rel d' (s @ bs)"
    if "jt_rel d s" "ReadableBytes (jd_buffer d) + length bs \<le> 512000" for d s bs
    using that jt_push_room [of d s "Append bs Buffer_new"]
    by (simp add: jt_push_def buf_simps jt_sizes)
  show "jt_push bs d = (kBufferFull, d)"
    if "jt_rel d s" "512000 < ReadableBytes (jd_buffer d) + length bs" for d s bs
    using that by (simp add: jt_push_def jt_PushBuffer_def buf_simps jt_sizes Let_def)
qed (use jt_Decode_decodes in \<open>force simp: jt_decodes_def jt_parse_More_short split: frame.splits\<close>)+

section \<open>The encoder, inverse of the parser\<close>

definition jt_encode :: "jt_packet \<Rightarrow> byte list" where
  "jt_encode p = (let h = m_header p in
     w_be 4 (DWFramHeadMark h) @
     [push_bit 6 (V2 h) OR push_bit 5 (P1 h) OR push_bit 4 (X1 h) OR CC4 h,
      push_bit 7 (M1 h) OR PT7 h] @
     w_be 2 (WdPackageSequence h) @ BCDSIMCardNumber h @
     [Bt1LogicChannelNumber h, push_bit 4 (DataType4 h) OR SubpackageHandleMark4 h] @
     (if is_video h then w_be 8 (Bt8timeStamp h) @ w_be 2 (WdLastIFrameInterval h) @
        w_be 2 (WdLastFrameInterval h)
      else if DataType4 h = DATA_TYPE_AUDIO then w_be 8 (Bt8timeStamp h) else []) @
     w_be 2 (WdBodyLen h) @ m_body p)"

text \<open>The packets a vehicle can send: the fields its data type does not carry are zero.\<close>

definition jt_pkt_wf :: "jt_packet \<Rightarrow> bool" where
  "jt_pkt_wf p = (let h = m_header p in
     jt_hdr1_ok h \<and> M1 h \<in> {0, 1} \<and> length (BCDSIMCardNumber h) = 6 \<and>
     (is_video h \<or> WdLastIFrameInterval h = 0 \<and> WdLastFrameInterval h = 0) \<and>
     (is_video h \<or> DataType4 h = DATA_TYPE_AUDIO \<or> Bt8timeStamp h = 0) \<and>
     unat (WdBodyLen h) = length (m_body p) \<and> length (m_body p) \<le> JT1078_MAX_LENGTH)"

lemma jt_byte5:
  assumes "m \<in> {0, 1 :: byte}" "IsSupportCodingType (unat pt)"
  shows "drop_bit 7 (push_bit 7 m OR pt) AND 1 = m" "(push_bit 7 m OR pt) AND 0x7F = pt"
proof -
  have "pt \<in> {6, 7, 8, 26, 91, 98}"
    using assms(2) by (simp add: IsSupportCodingType_def word_unat_eq_iff)
  with assms(1) show "drop_bit 7 (push_bit 7 m OR pt) AND 1 = m" "(push_bit 7 m OR pt) AND 0x7F = pt"
    by auto
qed

lemma jt_byte15:
  assumes "dt \<in> {0, 1, 2, 3, 4 :: byte}" "sb \<in> {0, 1, 2, 3 :: byte}"
  shows "drop_bit 4 (push_bit 4 dt OR sb) AND 0xF = dt" "(push_bit 4 dt OR sb) AND 0xF = sb"
  using assms by auto

lemma jt_hdr1_pieces:
  assumes "length m = 4" "length sq = 2" "length sim = 6"
  shows "jt_hdr1 (m @ [b4, b5] @ sq @ sim @ [ch, b15]) = header_Clear\<lparr>
     DWFramHeadMark := of_nat (be_nat m), V2 := drop_bit 6 b4 AND 0x3, P1 := drop_bit 5 b4 AND 0x1,
     X1 := drop_bit 4 b4 AND 0x1, CC4 := b4 AND 0xF, M1 := drop_bit 7 b5 AND 0x1, PT7 := b5 AND 0x7F,
     WdPackageSequence := of_nat (be_nat sq), BCDSIMCardNumber := sim, Bt1LogicChannelNumber := ch,
     DataType4 := drop_bit 4 b15 AND 0xF, SubpackageHandleMark4 := b15 AND 0xF\<rparr>"
  unfolding jt_hdr1_def by (simp add: nth_append assms)

lemma jt_hdr1_encode:
  fixes h :: header_t
  assumes "jt_hdr1_ok h" "M1 h \<in> {0, 1}" "length (BCDSIMCardNumber h) = 6"
  defines "pre \<equiv> w_be 4 (DWFramHeadMark h) @
     [push_bit 6 (V2 h) OR push_bit 5 (P1 h) OR push_bit 4 (X1 h) OR CC4 h, push_bit 7 (M1 h) OR PT7 h] @
     w_be 2 (WdPackageSequence h) @ BCDSIMCardNumber h @
     [Bt1LogicChannelNumber h, push_bit 4 (DataType4 h) OR SubpackageHandleMark4 h]"
  shows "length pre = 16" "jt_hdr1 pre = h\<lparr>Bt8timeStamp := 0, WdLastIFrameInterval := 0,
    WdLastFrameInterval := 0, WdBodyLen := 0\<rparr>"
proof -
  have ok: "V2 h = 2" "P1 h = 0" "X1 h = 0" "CC4 h = 1" "IsSupportCodingType (unat (PT7 h))"
    "DataType4 h \<in> {0, 1, 2, 3, 4}" "SubpackageHandleMark4 h \<in> {0, 1, 2, 3}"
    using assms(1) by (simp_all add: jt_hdr1_ok_def)
  show "length pre = 16" by (simp add: pre_def assms)
  show "jt_hdr1 pre = h\<lparr>Bt8timeStamp := 0, WdLastIFrameInterval := 0,
    WdLastFrameInterval := 0, WdBodyLen := 0\<rparr>"
    unfolding pre_def jt_hdr1_pieces [OF length_w_be length_w_be assms(3)]
      jt_byte5 [OF assms(2) ok(5)] jt_byte15 [OF ok(6,7)] header_Clear_def
    by (rule header_t.equality) (simp_all add: word_be_roundtrip ok(1-4))
qed

lemma jt_hdr2_encode:
  fixes h :: header_t
  defines "suf \<equiv> (if is_video h then w_be 8 (Bt8timeStamp h) @ w_be 2 (WdLastIFrameInterval h) @
        w_be 2 (WdLastFrameInterval h)
      else if DataType4 h = DATA_TYPE_AUDIO then w_be 8 (Bt8timeStamp h) else []) @ w_be 2 (WdBodyLen h)"
  assumes "jt_hdr1_ok h" "is_video h \<or> WdLastIFrameInterval h = 0 \<and> WdLastFrameInterval h = 0"
    "is_video h \<or> DataType4 h = DATA_TYPE_AUDIO \<or> Bt8timeStamp h = 0"
  shows "length suf = jt_hdr2_len h" "jt_hdr2 (h\<lparr>Bt8timeStamp := 0, WdLastIFrameInterval := 0,
    WdLastFrameInterval := 0, WdBodyLen := 0\<rparr>) suf = h"
proof -
  show "length suf = jt_hdr2_len h" by (simp add: suf_def jt_hdr2_len_def)
  let ?z = "h\<lparr>Bt8timeStamp := 0, WdLastIFrameInterval := 0, WdLastFrameInterval := 0, WdBodyLen := 0\<rparr>"
  have z: "is_video ?z = is_video h" "DataType4 ?z = DataType4 h" by (simp_all add: is_video_def)
  from assms(2) show "jt_hdr2 ?z suf = h"
  proof (cases rule: jt_kind_cases)
    case video
    then show ?thesis
      unfolding jt_hdr2_def z suf_def if_P [OF video] by (simp add: word_be_roundtrip)
  next
    case audio
    with assms(3) show ?thesis
      unfolding jt_hdr2_def z suf_def if_not_P [OF audio(1)] if_P [OF audio(2)]
      by (intro header_t.equality) (simp_all add: word_be_roundtrip)
  next
    case route
    then have r: "DataType4 h \<noteq> DATA_TYPE_AUDIO" by (simp add: jt_consts)
    with route assms(3,4) show ?thesis
      unfolding jt_hdr2_def z suf_def if_not_P [OF route(1)] if_not_P [OF r]
      by (intro header_t.equality) (simp_all add: word_be_roundtrip)
  qed
qed

lemma jt_parse_encode:
  assumes "jt_pkt_wf p"
  shows "jt_parse (jt_encode p @ t) = Frame p t"
proof -
  define h where "h = m_header p"
  define pre where "pre = w_be 4 (DWFramHeadMark h) @
     [push_bit 6 (V2 h) OR push_bit 5 (P1 h) OR push_bit 4 (X1 h) OR CC4 h, push_bit 7 (M1 h) OR PT7 h] @
     w_be 2 (WdPackageSequence h) @ BCDSIMCardNumber h @
     [Bt1LogicChannelNumber h, push_bit 4 (DataType4 h) OR SubpackageHandleMark4 h]"
  define suf where "suf = (if is_video h then w_be 8 (Bt8timeStamp h) @ w_be 2 (WdLastIFrameInterval h) @
        w_be 2 (WdLastFrameInterval h)
      else if DataType4 h = DATA_TYPE_AUDIO then w_be 8 (Bt8timeStamp h) else []) @ w_be 2 (WdBodyLen h)"
  define z where "z = h\<lparr>Bt8timeStamp := 0, WdLastIFrameInterval := 0, WdLastFrameInterval := 0,
    WdBodyLen := 0\<rparr>"
  have wf: "jt_hdr1_ok h" "M1 h \<in> {0, 1}" "length (BCDSIMCardNumber h) = 6"
    "is_video h \<or> WdLastIFrameInterval h = 0 \<and> WdLastFrameInterval h = 0"
    "is_video h \<or> DataType4 h = DATA_TYPE_AUDIO \<or> Bt8timeStamp h = 0"
    "unat (WdBodyLen h) = length (m_body p)" "length (m_body p) \<le> JT1078_MAX_LENGTH"
    using assms unfolding jt_pkt_wf_def h_def Let_def by blast+
  have e: "jt_encode p = pre @ suf @ m_body p"
    by (simp add: jt_encode_def pre_def suf_def h_def Let_def)
  have l: "length pre = 16" "length suf = jt_hdr2_len h"
    using jt_hdr1_encode(1) [OF wf(1-3)] jt_hdr2_encode(1) [OF wf(1,4,5)]
    by (simp_all only: pre_def suf_def)
  have h1: "jt_hdr1 (pre @ x) = z" for x
    using jt_hdr1_append [of pre x] jt_hdr1_encode(2) [OF wf(1-3)] l(1)
    unfolding pre_def [symmetric] z_def by simp
  have zl: "jt_hdr2_len z = jt_hdr2_len h" "jt_hdr1_ok z"
    using wf(1) by (simp_all add: z_def jt_hdr2_len_def is_video_def jt_hdr1_ok_def)
  have h2: "jt_hdr2 z (suf @ x) = h" for x
    using jt_hdr2_append [of z suf x] jt_hdr2_encode(2) [OF wf(1,4,5)] l(2) zl
    unfolding suf_def [symmetric] z_def [symmetric] by simp
  show ?thesis
    by (simp add: jt_parse_Frame e h1 h2 l zl wf Let_def h_def [symmetric])
qed

lemma jt_parse_Nil [simp]: "jt_parse [] = More"
  by (simp add: jt_parse_def)

lemma parse_all_encode:
  "(\<And>p. p \<in> set ps \<Longrightarrow> jt_pkt_wf p) \<Longrightarrow>
    parse_all jt_parse (concat (map jt_encode ps)) = (ps, False, [])"
proof (induction ps)
  case Nil
  then show ?case by (simp add: jtp.parse_all_More)
next
  case (Cons p ps)
  then show ?case by (simp add: jtp.parse_all_Frame [OF jt_parse_encode])
qed

text \<open>A concrete packet of transparent data, for the witnesses.\<close>

definition jt_sample :: jt_packet where
  "jt_sample = \<lparr>m_header = header_Clear\<lparr>DWFramHeadMark := JT_1078_HEAD_MARK, V2 := 2, CC4 := 1,
     PT7 := 98, WdPackageSequence := 7, BCDSIMCardNumber := [0x01, 0x38, 0, 0, 0x10, 0x02],
     Bt1LogicChannelNumber := 3, DataType4 := DATA_TYPE_ROUTE, WdBodyLen := 2\<rparr>, m_body = [0xAA, 0xBB]\<rparr>"

lemma jt_sample_wf: "jt_pkt_wf jt_sample"
  by (simp add: jt_pkt_wf_def jt_sample_def Let_def jt_hdr1_ok_def jt_consts header_Clear_def
      IsSupportCodingType_def)

lemma jt_sample_len: "length (jt_encode jt_sample) = 20"
  by (simp add: jt_encode_def jt_sample_def Let_def is_video_def jt_consts header_Clear_def)

section \<open>Properties\<close>

text \<open>
  C1. The vehicle decoder is correct on a stream cut anyhow into pieces of at most 511020 bytes (the
  server reads at most 5120 at a time): a fresh decoder that is pushed the pieces one by one, and
  drained after each push, never faults, always returns, hands over exactly the packets the parser
  finds in the whole stream, in order, and ends with \<open>kInvalidHeader\<close> when a bad header follows them,
  with \<open>kNeedMoreData\<close> otherwise.
\<close>

theorem jt_stream_correct:
  assumes "\<And>c. c \<in> set cs \<Longrightarrow> length c \<le> 511020"
    and "parse_all jt_parse (concat cs) = (ps, b, r)"
  shows "\<exists>d'. feed_all jt_push jt_Decode kNoError kNeedMoreData jt_GetPacket cs jt_decoder_new =
    Some (ps, Inr (if b then kInvalidHeader else kNeedMoreData, d'))"
  by (rule jtd.feed_all_parse_all [OF jt_rel_new _ _ _ assms(2)])
    (use assms(1) in force)+

theorem jt_stream_correct_witness:
  "\<exists>d'. feed_all jt_push jt_Decode kNoError kNeedMoreData jt_GetPacket
     [take 5 (jt_encode jt_sample), drop 5 (jt_encode jt_sample)] jt_decoder_new =
    Some ([jt_sample], Inr (kNeedMoreData, d'))"
proof -
  have "parse_all jt_parse (concat [take 5 (jt_encode jt_sample), drop 5 (jt_encode jt_sample)]) =
      ([jt_sample], False, [])"
    using parse_all_encode [of "[jt_sample]"] jt_sample_wf by simp
  moreover have "length c \<le> 511020"
    if "c \<in> set [take 5 (jt_encode jt_sample), drop 5 (jt_encode jt_sample)]" for c
    using that by (auto simp: jt_sample_len)
  ultimately show ?thesis by (intro jt_stream_correct [where b = False, unfolded if_False])
qed

lemma jt_encoded_stream_decoded:
  assumes "\<And>p. p \<in> set ps \<Longrightarrow> jt_pkt_wf p"
    and "\<And>c. c \<in> set cs \<Longrightarrow> length c \<le> 511020"
    and "concat cs = concat (map jt_encode ps)"
  shows "\<exists>d'. feed_all jt_push jt_Decode kNoError kNeedMoreData jt_GetPacket cs jt_decoder_new =
    Some (ps, Inr (kNeedMoreData, d'))"
proof -
  have "parse_all jt_parse (concat cs) = (ps, False, [])"
    using parse_all_encode [OF assms(1)] assms(3) by simp
  from jtd.feed_all_parse_all [OF jt_rel_new _ _ _ this] show ?thesis
    using assms(2) by force
qed

text \<open>
  C2. What a vehicle sends is what the server sees: the encodings of well-formed packets, cut into
  pieces of any size up to 511020 bytes, come out of the decoder as the same packets in the same
  order, and the decoder waits for more.
\<close>

theorem jt_decoder_roundtrip:
  assumes "\<And>p. p \<in> set ps \<Longrightarrow> jt_pkt_wf p"
    and "\<And>c. c \<in> set cs \<Longrightarrow> length c \<le> 511020"
    and "concat cs = concat (map jt_encode ps)"
  shows "\<exists>d'. feed_all jt_push jt_Decode kNoError kNeedMoreData jt_GetPacket cs jt_decoder_new =
    Some (ps, Inr (kNeedMoreData, d'))"
  by (rule jt_encoded_stream_decoded [OF assms])

theorem jt_decoder_roundtrip_witness:
  "\<exists>d'. feed_all jt_push jt_Decode kNoError kNeedMoreData jt_GetPacket
     [jt_encode jt_sample @ take 1 (jt_encode jt_sample), drop 1 (jt_encode jt_sample)] jt_decoder_new =
    Some ([jt_sample, jt_sample], Inr (kNeedMoreData, d'))"
  by (rule jt_decoder_roundtrip) (auto simp: jt_sample_wf jt_sample_len)

text \<open>
  Every packet the decoder hands over is within the protocol: its body is as long as its header
  says and at most 950 bytes, and its header passed every check of step 1.
\<close>

theorem jt_packet_bounds:
  assumes "jt_rel d s" "jt_Decode d = Inr (kNoError, d')"
  shows "length (m_body (jt_GetPacket d')) = unat (WdBodyLen (m_header (jt_GetPacket d')))
    \<and> length (m_body (jt_GetPacket d')) \<le> JT1078_MAX_LENGTH
    \<and> IsSupportCodingType (unat (PT7 (m_header (jt_GetPacket d'))))
    \<and> length (BCDSIMCardNumber (m_header (jt_GetPacket d'))) = 6"
proof -
  obtain p t where p: "jt_parse s = Frame p t" "jt_GetPacket d' = p"
    using jt_Decode_decodes [OF assms(1)] assms(2)
    by (auto simp: jt_decodes_def split: frame.splits)
  have k: "PT7 (jt_hdr2 h x) = PT7 h" "BCDSIMCardNumber (jt_hdr2 h x) = BCDSIMCardNumber h" for h x
    by (simp_all add: jt_hdr2_def)
  have l: "16 \<le> length s \<Longrightarrow> length (BCDSIMCardNumber (jt_hdr1 s)) = 6"
    by (simp add: jt_hdr1_def)
  define h where "h = jt_hdr2 (jt_hdr1 s) (drop 16 s)"
  have "16 \<le> length s" "jt_hdr1_ok (jt_hdr1 s)" "unat (WdBodyLen h) \<le> JT1078_MAX_LENGTH"
    "m_header p = h" "length (m_body p) = unat (WdBodyLen h)"
    using p(1) by (auto simp: jt_parse_Frame Let_def h_def)
  then show ?thesis
    unfolding p(2) jt_hdr1_ok_def by (simp add: k l h_def)
qed

theorem jt_packet_bounds_witness:
  "\<exists>d'. jt_Decode (snd (jt_push (jt_encode jt_sample) jt_decoder_new)) = Inr (kNoError, d') \<and>
    length (m_body (jt_GetPacket d')) \<le> JT1078_MAX_LENGTH"
proof -
  let ?d = "snd (jt_push (jt_encode jt_sample) jt_decoder_new)"
  have r: "jt_rel ?d (jt_encode jt_sample)"
  proof -
    have "ReadableBytes (jd_buffer jt_decoder_new) = 0"
      using jtd.unread_le [OF jt_rel_new] by simp
    then show ?thesis
      using jtd.push_room [OF jt_rel_new, of "jt_encode jt_sample"] by (auto simp: jt_sample_len)
  qed
  moreover have "jt_parse (jt_encode jt_sample) = Frame jt_sample []"
    using jt_parse_encode [OF jt_sample_wf, of "[]"] by simp
  ultimately obtain d' where "jt_Decode ?d = Inr (kNoError, d')"
    using jtd.decode_Frame by blast
  with jt_packet_bounds [OF r this] show ?thesis by blast
qed

end
