(* ===== verification/Ipc_Packet.thy ===== *)
theory Ipc_Packet
  imports Framing
begin

text \<open>
  The packets the server processes exchange (core/ipc_packet): the wire structure \<open>packet_t\<close>, the
  movable \<open>packet_move_t\<close> the worker threads queue, and the decoder \<open>ipc::decoder_t\<close>. The
  decoder keeps the packet in one heap block of \<open>capacity + 1\<close> bytes; a packet that does not fit is
  a fault of the model. The parser of the wire format, its encoder and the interpretation of the
  decoder contract of Framing follow.
\<close>

section \<open>Packet types\<close>

definition IPC_PKT_INVALID_PACKET :: u32 where "IPC_PKT_INVALID_PACKET = 0"
definition IPC_PKT_TYPE_MASK :: u32 where "IPC_PKT_TYPE_MASK = 0x000000ff"
definition IPC_PKT_TYPE_HEARTBEAT :: u32 where "IPC_PKT_TYPE_HEARTBEAT = 0x00000001"
definition IPC_PKT_TYPE_SUBSCRIBE_DEVICE_ID :: u32 where "IPC_PKT_TYPE_SUBSCRIBE_DEVICE_ID = 0x00000002"
definition IPC_PKT_TYPE_UNSUBSCRIBE_DEVICE_ID :: u32 where "IPC_PKT_TYPE_UNSUBSCRIBE_DEVICE_ID = 0x00000003"
definition IPC_PKT_TYPE_JT1078_PACKET :: u32 where "IPC_PKT_TYPE_JT1078_PACKET = 0x00000004"
definition IPC_PKT_FROM_MASK :: u32 where "IPC_PKT_FROM_MASK = 0x000f0000"
definition IPC_PKT_FROM_JT1078_SERVER :: u32 where "IPC_PKT_FROM_JT1078_SERVER = 0x00010000"
definition IPC_PKT_FROM_WEB_SERVER :: u32 where "IPC_PKT_FROM_WEB_SERVER = 0x00020000"
definition IPC_PKT_FROM_PC_SERVER :: u32 where "IPC_PKT_FROM_PC_SERVER = 0x00030000"
definition IPC_PKT_FROM_PC_CLIENT :: u32 where "IPC_PKT_FROM_PC_CLIENT = 0x00040000"
definition IPC_PKT_FROM_PHONE_CLIENT :: u32 where "IPC_PKT_FROM_PHONE_CLIENT = 0x00050000"
definition IPC_PKT_OTHER_MASK :: u32 where "IPC_PKT_OTHER_MASK = 0xff000000"
definition IPC_PKT_OTHER_THREAD_STOP :: u32 where "IPC_PKT_OTHER_THREAD_STOP = 0x01000000"

lemmas ipc_consts = IPC_PKT_INVALID_PACKET_def IPC_PKT_TYPE_MASK_def IPC_PKT_TYPE_HEARTBEAT_def
  IPC_PKT_TYPE_SUBSCRIBE_DEVICE_ID_def IPC_PKT_TYPE_UNSUBSCRIBE_DEVICE_ID_def
  IPC_PKT_TYPE_JT1078_PACKET_def IPC_PKT_FROM_MASK_def IPC_PKT_FROM_JT1078_SERVER_def
  IPC_PKT_FROM_WEB_SERVER_def IPC_PKT_FROM_PC_SERVER_def IPC_PKT_FROM_PC_CLIENT_def
  IPC_PKT_FROM_PHONE_CLIENT_def IPC_PKT_OTHER_MASK_def IPC_PKT_OTHER_THREAD_STOP_def

section \<open>The wire structure\<close>

definition INVALID_PKT_SEQ_ID :: u32 where "INVALID_PKT_SEQ_ID = 0xFFFFFFFF"
definition sizeof_packet_t :: nat where "sizeof_packet_t = 16"
definition sizeof_packet_move_t :: nat where "sizeof_packet_move_t = 24"

record ipc_packet =
  m_uHeadLength :: u32
  m_uDataLength :: u32
  m_uPktSeqId :: u32
  m_uPktType :: u32
  m_data :: "byte list"

definition packet_Clear :: "ipc_packet \<Rightarrow> ipc_packet" where
  "packet_Clear p = p\<lparr>m_uHeadLength := of_nat sizeof_packet_t, m_uDataLength := 0,
     m_uPktSeqId := INVALID_PKT_SEQ_ID, m_uPktType := IPC_PKT_INVALID_PACKET\<rparr>"

definition packet_new :: ipc_packet where
  "packet_new = packet_Clear \<lparr>m_uHeadLength = 0, m_uDataLength = 0, m_uPktSeqId = 0, m_uPktType = 0,
     m_data = []\<rparr>"

text \<open>The 16 bytes of the packed structure in memory, and a structure read back from memory.\<close>

definition packet_header_bytes :: "ipc_packet \<Rightarrow> byte list" where
  "packet_header_bytes p = w_le 4 (m_uHeadLength p) @ w_le 4 (m_uDataLength p) @
     w_le 4 (m_uPktSeqId p) @ w_le 4 (m_uPktType p)"

definition packet_of_mem :: "byte list \<Rightarrow> ipc_packet" where
  "packet_of_mem m = (let n = of_nat (le_nat (take 4 (drop 4 m))) :: u32 in
     \<lparr>m_uHeadLength = of_nat (le_nat (take 4 m)), m_uDataLength = n,
      m_uPktSeqId = of_nat (le_nat (take 4 (drop 8 m))),
      m_uPktType = of_nat (le_nat (take 4 (drop 12 m))), m_data = take (unat n) (drop 16 m)\<rparr>)"

definition ipc_encode :: "ipc_packet \<Rightarrow> byte list" where
  "ipc_encode p = packet_header_bytes p @ m_data p"

section \<open>The movable packet\<close>

text \<open>
  \<open>m_data\<close> is an owned pointer. The copy constructors leave it as the allocator left it when there
  is nothing to copy: \<open>Garbage\<close>. Deleting a garbage pointer is a fault.
\<close>

datatype data_ptr = Null | Block "byte list" | Garbage

record packet_move =
  pm_head_length :: u32
  pm_data_length :: u32
  pm_seq_id :: u32
  pm_type :: u32
  pm_data :: data_ptr

definition packet_move_new :: packet_move where
  "packet_move_new = \<lparr>pm_head_length = of_nat sizeof_packet_move_t, pm_data_length = 0,
     pm_seq_id = INVALID_PKT_SEQ_ID, pm_type = IPC_PKT_INVALID_PACKET, pm_data = Null\<rparr>"

definition packet_move_uninit :: packet_move where
  "packet_move_uninit = \<lparr>pm_head_length = 0, pm_data_length = 0, pm_seq_id = 0, pm_type = 0,
     pm_data = Garbage\<rparr>"

definition packet_move_Clear :: "packet_move \<Rightarrow> fault + packet_move" where
  "packet_move_Clear p = (if pm_data p = Garbage then Inl UseAfterFree else Inr packet_move_new)"

definition CopyFrom_move :: "packet_move \<Rightarrow> packet_move \<Rightarrow> fault + packet_move" where
  "CopyFrom_move other p =
     (let p = p\<lparr>pm_head_length := pm_head_length other, pm_data_length := pm_data_length other,
        pm_seq_id := pm_seq_id other, pm_type := pm_type other\<rparr>;
        n = unat (pm_data_length other) in
      case pm_data other of
        Null \<Rightarrow> Inr p
      | Garbage \<Rightarrow> Inl UseAfterFree
      | Block bs \<Rightarrow>
          if length bs < n then Inl OutOfBounds else Inr (p\<lparr>pm_data := Block (take n bs @ [0])\<rparr>))"

text \<open>Moving takes the pointer and clears the source; the pair is (target, source).\<close>

definition MoveFrom :: "packet_move \<Rightarrow> packet_move \<times> packet_move" where
  "MoveFrom other = (other, packet_move_new)"

definition CopyFrom_packet :: "ipc_packet \<Rightarrow> packet_move \<Rightarrow> packet_move" where
  "CopyFrom_packet other p =
     (let p = p\<lparr>pm_head_length := of_nat sizeof_packet_move_t, pm_data_length := m_uDataLength other,
        pm_seq_id := m_uPktSeqId other, pm_type := m_uPktType other\<rparr>;
        n = unat (m_uDataLength other) in
      if 0 < n then p\<lparr>pm_data := Block (take n (m_data other) @ [0])\<rparr> else p)"

definition packet_move_of_packet :: "ipc_packet \<Rightarrow> packet_move" where
  "packet_move_of_packet p = CopyFrom_packet p packet_move_uninit"

definition packet_move_assign_packet :: "ipc_packet \<Rightarrow> packet_move \<Rightarrow> fault + packet_move" where
  "packet_move_assign_packet other p = rbind (packet_move_Clear p) (\<lambda>p. Inr (CopyFrom_packet other p))"

definition packet_move_assign_move :: "packet_move \<Rightarrow> packet_move \<Rightarrow> fault + (packet_move \<times> packet_move)" where
  "packet_move_assign_move other p = rbind (packet_move_Clear p) (\<lambda>_. Inr (MoveFrom other))"

section \<open>The decoder\<close>

datatype ipc_status = kReadHeader | kReadPktBody

datatype ipc_error = ipcNoError | ipcNeedMoreData | ipcBufferFull | ipcInvalidHeader

text \<open>
  \<open>id_block\<close> is the heap block of \<open>m_packet_buffer\<close>, \<open>id_gen\<close> counts its reallocations: a
  reference taken before one dangles after it.
\<close>

record ipc_decoder =
  id_buffer :: buffer
  id_block :: "byte list"
  id_gen :: nat
  id_howmuch :: nat
  id_status :: ipc_status

definition IPC_MAX_BUFFER_SIZE :: nat where "IPC_MAX_BUFFER_SIZE = 500 * 1024"

definition ipc_decoder_new :: ipc_decoder where
  "ipc_decoder_new = \<lparr>id_buffer = Reserve (IPC_MAX_BUFFER_SIZE div 4) Buffer_new,
     id_block = replicate (1024 + 1) 0, id_gen = 0, id_howmuch = sizeof_packet_t, id_status = kReadHeader\<rparr>"

definition ipc_PushBuffer :: "byte list \<Rightarrow> ipc_decoder \<Rightarrow> ipc_error \<times> ipc_decoder" where
  "ipc_PushBuffer data d =
     (let b = id_buffer d;
          nCapacity = GetCapacity b;
          nLeftCapacity = GetLeftCapacity b;
          nNewBufferLen = length data;
          nCurBufferLen = ReadableBytes b in
      if nNewBufferLen + nCurBufferLen > IPC_MAX_BUFFER_SIZE then (ipcBufferFull, d)
      else if nNewBufferLen + nCurBufferLen > nCapacity then
        (let nNewCapacity = min (nCapacity * 2) IPC_MAX_BUFFER_SIZE in
         (ipcNoError, d\<lparr>id_buffer := Append data (Reserve nNewCapacity (AutoRemove b))\<rparr>))
      else if nNewBufferLen > nLeftCapacity then
        (ipcNoError, d\<lparr>id_buffer := Append data (AutoRemove b)\<rparr>)
      else (ipcNoError, d\<lparr>id_buffer := Append data b\<rparr>))"

definition ipc_PushBuffer_buffer :: "buffer \<Rightarrow> ipc_decoder \<Rightarrow> ipc_error \<times> ipc_decoder" where
  "ipc_PushBuffer_buffer src d = ipc_PushBuffer (take (ReadableBytes src) (GetBuffer src)) d"

definition ipc_ParseHeader :: "ipc_decoder \<Rightarrow> fault + (ipc_error \<times> ipc_decoder)" where
  "ipc_ParseHeader d =
     (let b = id_buffer d; packet = packet_of_mem (GetBuffer b);
          capacity = length (id_block d) - 1 in
      if ReadableBytes b < id_howmuch d then Inr (ipcNeedMoreData, d)
      else if length (GetBuffer b) < sizeof_packet_t then Inl OutOfBounds
      else if unat (m_uHeadLength packet) \<noteq> sizeof_packet_t then Inr (ipcInvalidHeader, d)
      else
        (let d = (if unat (m_uDataLength packet) > capacity
                  then d\<lparr>id_block := replicate (str_capacity capacity (min (unat (m_uDataLength packet))
                         (capacity * 2)) + 1) 0, id_gen := id_gen d + 1\<rparr>
                  else d) in
         Inr (ipcNoError, d\<lparr>id_block := mem_write 0 (take sizeof_packet_t (GetBuffer b)) (id_block d),
           id_buffer := Skip (id_howmuch d) b\<rparr>)))"

definition ipc_ParseBody :: "ipc_decoder \<Rightarrow> fault + (ipc_error \<times> ipc_decoder)" where
  "ipc_ParseBody d =
     (let b = id_buffer d; n = id_howmuch d in
      if ReadableBytes b < n then Inr (ipcNeedMoreData, d)
      else if length (id_block d) < sizeof_packet_t + n + 1 then Inl OutOfBounds
      else Inr (ipcNoError, d\<lparr>
        id_block := mem_write sizeof_packet_t (take n (GetBuffer b) @ [0]) (id_block d),
        id_buffer := Skip n b\<rparr>))"

definition ipc_Decode_header :: "ipc_decoder \<Rightarrow> fault + (ipc_error \<times> ipc_decoder)" where
  "ipc_Decode_header d =
     (let gen = id_gen d;
          d = d\<lparr>id_block := mem_write 0 (packet_header_bytes packet_new) (id_block d)\<rparr> in
      rbind (ipc_ParseHeader d) (\<lambda>(e, d).
        if e \<noteq> ipcNoError then Inr (e, d)
        else if id_gen d \<noteq> gen then Inl UseAfterFree
        else Inr (ipcNoError, d\<lparr>id_status := kReadPktBody,
          id_howmuch := unat (m_uDataLength (packet_of_mem (id_block d)))\<rparr>)))"

definition ipc_Decode_body :: "ipc_decoder \<Rightarrow> fault + (ipc_error \<times> ipc_decoder)" where
  "ipc_Decode_body d =
     rbind (ipc_ParseBody d) (\<lambda>(e, d).
       if e \<noteq> ipcNoError then Inr (e, d)
       else Inr (ipcNoError, d\<lparr>id_status := kReadHeader, id_howmuch := sizeof_packet_t\<rparr>))"

definition ipc_Decode :: "ipc_decoder \<Rightarrow> fault + (ipc_error \<times> ipc_decoder)" where
  "ipc_Decode d =
     (if id_status d = kReadHeader then
        rbind (ipc_Decode_header d) (\<lambda>(e, d). if e \<noteq> ipcNoError then Inr (e, d) else ipc_Decode_body d)
      else ipc_Decode_body d)"

definition ipc_GetPacket :: "ipc_decoder \<Rightarrow> ipc_packet" where
  "ipc_GetPacket d = packet_of_mem (id_block d)"

section \<open>The parser it implements\<close>

definition ipc_len :: "byte list \<Rightarrow> nat" where
  "ipc_len s = unat (m_uDataLength (packet_of_mem s))"

definition ipc_head_ok :: "byte list \<Rightarrow> bool" where
  "ipc_head_ok s = (unat (m_uHeadLength (packet_of_mem s)) = 16)"

definition ipc_parse :: "byte list \<Rightarrow> ipc_packet frame" where
  "ipc_parse s =
     (if length s < 16 then More
      else if \<not> ipc_head_ok s then Bad
      else if length s < 16 + ipc_len s then More
      else Frame (packet_of_mem s) (drop (16 + ipc_len s) s))"

text \<open>The streams whose packets fit the decoder's block: at most 1008 bytes of data each.\<close>

function ipc_safe :: "byte list \<Rightarrow> bool" where
  "ipc_safe s = (if length s < 16 \<or> \<not> ipc_head_ok s then True
     else if 1008 < ipc_len s then False
     else if length s < 16 + ipc_len s then True
     else ipc_safe (drop (16 + ipc_len s) s))"
  by pat_completeness auto
termination
  by (relation "measure length") auto

declare ipc_safe.simps [simp del]

lemma packet_of_mem_append:
  "16 \<le> length s \<Longrightarrow> ipc_head_ok (s @ t) = ipc_head_ok s"
  "16 \<le> length s \<Longrightarrow> ipc_len (s @ t) = ipc_len s"
  "16 + ipc_len s \<le> length s \<Longrightarrow> packet_of_mem (s @ t) = packet_of_mem s"
  by (simp_all add: packet_of_mem_def ipc_head_ok_def ipc_len_def Let_def)

lemma ipc_parse_Frame:
  "ipc_parse s = Frame p r \<longleftrightarrow> 16 \<le> length s \<and> ipc_head_ok s \<and> 16 + ipc_len s \<le> length s \<and>
    p = packet_of_mem s \<and> r = drop (16 + ipc_len s) s"
  by (auto simp: ipc_parse_def)

lemma ipc_parse_Bad: "ipc_parse s = Bad \<longleftrightarrow> 16 \<le> length s \<and> \<not> ipc_head_ok s"
  by (auto simp: ipc_parse_def)

interpretation ipcp: frame_parser ipc_parse
proof
  show "ipc_parse (s @ t) = Bad" if "ipc_parse s = Bad" for s t
    using that by (simp add: ipc_parse_Bad packet_of_mem_append)
  show "ipc_parse (s @ t) = Frame p (r @ t)" if "ipc_parse s = Frame p r" for s p r t
    using that by (auto simp: ipc_parse_Frame packet_of_mem_append)
  show "length r < length s" if "ipc_parse s = Frame p r" for s p r
    using that by (auto simp: ipc_parse_Frame)
qed

lemma ipc_safe_prefix: "ipc_safe (s @ t) \<Longrightarrow> ipc_safe s"
proof (induction s rule: length_induct)
  case (1 s)
  show ?case
  proof (cases "16 \<le> length s \<and> ipc_head_ok s \<and> 16 + ipc_len s \<le> length s")
    case True
    with "1.prems" have "ipc_len s \<le> 1008" "ipc_safe (drop (16 + ipc_len s) s @ t)"
      by (auto simp: ipc_safe.simps [of "s @ t"] packet_of_mem_append split: if_splits)
    with True "1.IH" show ?thesis by (auto simp: ipc_safe.simps [of s])
  next
    case False
    with "1.prems" show ?thesis
      by (auto simp: ipc_safe.simps [of s] ipc_safe.simps [of "s @ t"] packet_of_mem_append
          split: if_splits)
  qed
qed

section \<open>The decoder implements the parser\<close>

definition ipc_rel :: "ipc_decoder \<Rightarrow> byte list \<Rightarrow> bool" where
  "ipc_rel d s \<longleftrightarrow> buf_ok (id_buffer d) \<and> length (id_block d) = 1025 \<and>
    (let u = GetBuffer (id_buffer d) in
     case id_status d of
       kReadHeader \<Rightarrow> id_howmuch d = 16 \<and> u = s
     | kReadPktBody \<Rightarrow> 16 \<le> length s \<and> u = drop 16 s \<and> ipc_head_ok s \<and> ipc_len s \<le> 1008 \<and>
         id_howmuch d = ipc_len s \<and> take 16 (id_block d) = take 16 s)"

definition ipc_decodes :: "byte list \<Rightarrow> fault + (ipc_error \<times> ipc_decoder) \<Rightarrow> bool" where
  "ipc_decodes s r \<longleftrightarrow>
    (case ipc_parse s of
       More \<Rightarrow> \<exists>d'. r = Inr (ipcNeedMoreData, d') \<and> ipc_rel d' s
     | Bad \<Rightarrow> \<exists>d'. r = Inr (ipcInvalidHeader, d')
     | Frame p t \<Rightarrow> \<exists>d'. r = Inr (ipcNoError, d') \<and> ipc_rel d' t \<and> ipc_GetPacket d' = p)"

lemma packet_of_mem_prefix:
  "take (16 + ipc_len s) m = take (16 + ipc_len s) s \<Longrightarrow> 16 \<le> length s \<Longrightarrow>
    packet_of_mem m = packet_of_mem s"
proof -
  assume a: "take (16 + ipc_len s) m = take (16 + ipc_len s) s" "16 \<le> length s"
  have t: "take k (drop i m) = take k (drop i s)" if "i + k \<le> 16 + ipc_len s" for i k
  proof -
    have "take k (drop i m) = drop i (take (i + k) (take (16 + ipc_len s) m))"
      using that by (simp add: take_drop min_def add.commute)
    also have "\<dots> = take k (drop i s)"
      using that a by (simp add: take_drop min_def add.commute)
    finally show ?thesis .
  qed
  from t [of 0 4] t [of 4 4] t [of 8 4] t [of 12 4] t [of 16 "ipc_len s"]
  show ?thesis by (simp add: packet_of_mem_def ipc_len_def Let_def)
qed

lemma ipc_body_decodes:
  assumes "ipc_rel d s" "id_status d = kReadPktBody"
  shows "ipc_decodes s (ipc_Decode_body d)"
proof -
  let ?n = "ipc_len s"
  have r: "buf_ok (id_buffer d)" "length (id_block d) = 1025" "16 \<le> length s"
    "GetBuffer (id_buffer d) = drop 16 s" "ipc_head_ok s" "?n \<le> 1008" "id_howmuch d = ?n"
    "take 16 (id_block d) = take 16 s"
    using assms by (auto simp: ipc_rel_def Let_def)
  show ?thesis
  proof (cases "length s < 16 + ?n")
    case True
    then have "ipc_Decode_body d = Inr (ipcNeedMoreData, d)"
      using r by (simp add: ipc_Decode_body_def ipc_ParseBody_def ReadableBytes_eq res_simps Let_def
          less_diff_conv2 add.commute)
    moreover have "ipc_parse s = More" using True r by (simp add: ipc_parse_def)
    ultimately show ?thesis using assms(1) by (simp add: ipc_decodes_def)
  next
    case False
    define m where "m = mem_write 16 (take ?n (drop 16 s) @ [0]) (id_block d)"
    define d' where "d' = d\<lparr>id_block := m, id_buffer := Skip ?n (id_buffer d),
      id_status := kReadHeader, id_howmuch := 16\<rparr>"
    have "ipc_Decode_body d = Inr (ipcNoError, d')"
      using False r by (simp add: ipc_Decode_body_def ipc_ParseBody_def buf_simps res_simps Let_def
          sizeof_packet_t_def m_def d'_def)
    moreover have "ipc_rel d' (drop (16 + ?n) s)"
      using False r by (simp add: ipc_rel_def d'_def m_def buf_simps add.commute)
    moreover have "take (16 + ?n) m = take (16 + ?n) s"
      using r False by (simp add: m_def mem_write_def take_add [of 16])
    then have "ipc_GetPacket d' = packet_of_mem s"
      using packet_of_mem_prefix [of s m] r by (simp add: ipc_GetPacket_def d'_def)
    ultimately show ?thesis using False r by (simp add: ipc_decodes_def ipc_parse_def)
  qed
qed

lemma ipc_Decode_header_eq:
  assumes "d1 = d\<lparr>id_block := mem_write 0 (packet_header_bytes packet_new) (id_block d)\<rparr>"
  shows "ipc_Decode_header d = rbind (ipc_ParseHeader d1) (\<lambda>(e, d').
        if e \<noteq> ipcNoError then Inr (e, d')
        else if id_gen d' \<noteq> id_gen d then Inl UseAfterFree
        else Inr (ipcNoError, d'\<lparr>id_status := kReadPktBody,
          id_howmuch := unat (m_uDataLength (packet_of_mem (id_block d')))\<rparr>))"
  by (simp add: ipc_Decode_header_def assms Let_def)

text \<open>A header whose packet fits the capacity is read, whatever the block still holds.\<close>

lemma ipc_header_fits:
  assumes "ipc_rel d s" "id_status d = kReadHeader" "16 \<le> length s" "ipc_head_ok s" "ipc_len s \<le> 1024"
  shows "\<exists>m. take 16 m = take 16 s \<and> length m = 1025 \<and>
    ipc_Decode_header d = Inr (ipcNoError, d\<lparr>id_block := m, id_buffer := Skip 16 (id_buffer d),
      id_status := kReadPktBody, id_howmuch := ipc_len s\<rparr>)"
proof -
  define d1 where "d1 = d\<lparr>id_block := mem_write 0 (packet_header_bytes packet_new) (id_block d)\<rparr>"
  define m where "m = mem_write 0 (take 16 s) (id_block d1)"
  have r: "buf_ok (id_buffer d)" "length (id_block d) = 1025" "GetBuffer (id_buffer d) = s"
    "id_howmuch d = 16"
    using assms(1,2) by (auto simp: ipc_rel_def)
  have l: "length (id_block d1) = 1025"
    using r by (simp add: d1_def packet_header_bytes_def)
  have t: "take 16 m = take 16 s" "length m = 1025"
    using assms(3) l by (simp_all add: m_def mem_write_def)
  have "take 4 (drop 4 m) = take 4 (drop 4 (take 16 m))" by (simp add: drop_take)
  also have "\<dots> = take 4 (drop 4 s)" unfolding t by (simp add: drop_take)
  finally have ml: "unat (m_uDataLength (packet_of_mem m)) = ipc_len s"
    by (simp add: ipc_len_def packet_of_mem_def Let_def)
  have "ipc_ParseHeader d1 = Inr (ipcNoError, d1\<lparr>id_block := m, id_buffer := Skip 16 (id_buffer d)\<rparr>)"
    using assms r l by (simp add: ipc_ParseHeader_def Let_def d1_def ReadableBytes_eq
        ipc_head_ok_def ipc_len_def sizeof_packet_t_def m_def)
  then have "ipc_Decode_header d = Inr (ipcNoError, d\<lparr>id_block := m, id_buffer := Skip 16 (id_buffer d),
      id_status := kReadPktBody, id_howmuch := ipc_len s\<rparr>)"
    by (simp add: ipc_Decode_header_eq [OF d1_def] res_simps ml) (simp add: d1_def)
  with t show ?thesis by blast
qed

lemma ipc_header_decodes:
  assumes "ipc_rel d s" "id_status d = kReadHeader" "ipc_safe s"
  shows "ipc_decodes s (ipc_Decode d)"
proof -
  define d1 where "d1 = d\<lparr>id_block := mem_write 0 (packet_header_bytes packet_new) (id_block d)\<rparr>"
  have r: "buf_ok (id_buffer d)" "length (id_block d1) = 1025" "GetBuffer (id_buffer d) = s"
    "id_howmuch d = 16"
    using assms by (auto simp: ipc_rel_def d1_def packet_header_bytes_def)
  consider (short) "length s < 16" | (bad) "16 \<le> length s" "\<not> ipc_head_ok s"
    | (ok) "16 \<le> length s" "ipc_head_ok s" by linarith
  then show ?thesis
  proof cases
    case short
    then have "ipc_Decode d = Inr (ipcNeedMoreData, d1)"
      using r assms(2) by (simp add: ipc_Decode_def ipc_Decode_header_eq [OF d1_def]
          ipc_ParseHeader_def Let_def d1_def ReadableBytes_eq res_simps)
    moreover have "ipc_rel d1 s" using r assms(2) by (simp add: ipc_rel_def d1_def)
    moreover have "ipc_parse s = More" using short by (simp add: ipc_parse_def)
    ultimately show ?thesis by (simp add: ipc_decodes_def)
  next
    case bad
    then have "ipc_Decode d = Inr (ipcInvalidHeader, d1)"
      using r assms(2) by (simp add: ipc_Decode_def ipc_Decode_header_eq [OF d1_def]
          ipc_ParseHeader_def Let_def d1_def ReadableBytes_eq res_simps ipc_head_ok_def
          sizeof_packet_t_def)
    with bad show ?thesis by (simp add: ipc_decodes_def ipc_parse_def)
  next
    case ok
    have n: "ipc_len s \<le> 1008"
      using assms(3) ok by (simp add: ipc_safe.simps [of s] split: if_splits)
    with ok ipc_header_fits [OF assms(1,2)] obtain m where m: "take 16 m = take 16 s" "length m = 1025"
      "ipc_Decode_header d = Inr (ipcNoError, d\<lparr>id_block := m, id_buffer := Skip 16 (id_buffer d),
        id_status := kReadPktBody, id_howmuch := ipc_len s\<rparr>)" (is "_ = Inr (_, ?d2)")
      by auto
    then have "ipc_Decode d = ipc_Decode_body ?d2"
      using assms(2) by (simp add: ipc_Decode_def res_simps)
    moreover have "ipc_rel ?d2 s"
      using ok n r m by (simp add: ipc_rel_def buf_simps)
    ultimately show ?thesis using ipc_body_decodes [of ?d2 s] by simp
  qed
qed

lemma ipc_Decode_decodes: "ipc_rel d s \<Longrightarrow> ipc_safe s \<Longrightarrow> ipc_decodes s (ipc_Decode d)"
  using ipc_header_decodes ipc_body_decodes
  by (cases "id_status d") (auto simp: ipc_Decode_def)

lemma ipc_rel_new: "ipc_rel ipc_decoder_new []"
  by (simp add: ipc_rel_def ipc_decoder_new_def buf_simps sizeof_packet_t_def)

lemma ipc_rel_push:
  assumes "ipc_rel d s" "buf_ok b" "GetBuffer b = GetBuffer (id_buffer d) @ bs"
  shows "ipc_rel (d\<lparr>id_buffer := b\<rparr>) (s @ bs)"
  using assms by (auto simp: ipc_rel_def Let_def packet_of_mem_append split: ipc_status.splits)

lemma ipc_push_room:
  assumes "ipc_rel d s" "ReadableBytes (id_buffer d) + length bs \<le> IPC_MAX_BUFFER_SIZE"
  shows "\<exists>d'. ipc_PushBuffer bs d = (ipcNoError, d') \<and> ipc_rel d' (s @ bs)"
proof -
  have b: "buf_ok (id_buffer d)" using assms(1) by (simp add: ipc_rel_def)
  have "ipc_rel (d\<lparr>id_buffer := Append bs b\<rparr>) (s @ bs)"
    if "buf_ok b" "GetBuffer b = GetBuffer (id_buffer d)" for b
    using assms that by (intro ipc_rel_push) (auto simp: buf_simps)
  from this [of "id_buffer d"] this [of "AutoRemove (id_buffer d)"]
    this [of "Reserve n (AutoRemove (id_buffer d))" for n]
  show ?thesis
    using assms b by (auto simp: ipc_PushBuffer_def Let_def buf_simps)
qed

interpretation ipcd: stream_decoder ipc_parse ipc_Decode ipc_PushBuffer ipc_GetPacket ipc_rel
  "\<lambda>d. ReadableBytes (id_buffer d)" ipc_safe ipcNoError ipcNeedMoreData ipcInvalidHeader ipcBufferFull
  512000 1024
proof
  show "ReadableBytes (id_buffer d) \<le> length s" if "ipc_rel d s" for d s
    using that by (auto simp: ipc_rel_def Let_def buf_simps split: ipc_status.splits)
  show "\<exists>d'. ipc_PushBuffer bs d = (ipcNoError, d') \<and> ipc_rel d' (s @ bs)"
    if "ipc_rel d s" "ReadableBytes (id_buffer d) + length bs \<le> 512000" for d s bs
    using that ipc_push_room [of d s bs] by (simp add: IPC_MAX_BUFFER_SIZE_def)
  show "ipc_PushBuffer bs d = (ipcBufferFull, d)"
    if "ipc_rel d s" "512000 < ReadableBytes (id_buffer d) + length bs" for d s bs
    using that by (simp add: ipc_PushBuffer_def IPC_MAX_BUFFER_SIZE_def Let_def)
  show "length s \<le> 1024" if "ipc_safe s" "ipc_parse s = More" for s
    using that by (auto simp: ipc_safe.simps [of s] ipc_parse_def split: if_splits)
  show "ipc_safe r" if "ipc_safe s" "ipc_parse s = Frame p r" for s p r
    using that by (auto simp: ipc_safe.simps [of s] ipc_parse_Frame split: if_splits)
  show "ipc_safe s" if "ipc_safe (s @ t)" for s t
    using ipc_safe_prefix that .
qed (use ipc_Decode_decodes in \<open>force simp: ipc_decodes_def split: frame.splits\<close>)+

section \<open>Encoding\<close>

definition ipc_pkt_wf :: "ipc_packet \<Rightarrow> bool" where
  "ipc_pkt_wf p = (m_uHeadLength p = 16 \<and> unat (m_uDataLength p) = length (m_data p))"

lemma length_packet_header [simp]: "length (packet_header_bytes p) = 16"
  by (simp add: packet_header_bytes_def)

lemma packet_of_encode:
  "ipc_pkt_wf p \<Longrightarrow> packet_of_mem (ipc_encode p @ t) = p"
  by (simp add: packet_of_mem_def ipc_encode_def packet_header_bytes_def ipc_pkt_wf_def
      word_le_roundtrip Let_def)

lemma ipc_parse_encode: "ipc_pkt_wf p \<Longrightarrow> ipc_parse (ipc_encode p @ t) = Frame p t"
  using packet_of_encode [of p t]
  by (simp add: ipc_parse_def ipc_head_ok_def ipc_len_def ipc_pkt_wf_def ipc_encode_def)

lemma ipc_safe_Cons:
  "ipc_pkt_wf p \<Longrightarrow> length (m_data p) \<le> 1008 \<Longrightarrow> ipc_safe s \<Longrightarrow> ipc_safe (ipc_encode p @ s)"
proof -
  assume a: "ipc_pkt_wf p" "length (m_data p) \<le> 1008" "ipc_safe s"
  then have "ipc_len (ipc_encode p @ s) = length (m_data p)"
    by (simp add: ipc_len_def packet_of_encode) (simp add: ipc_pkt_wf_def)
  moreover have "length (ipc_encode p) = 16 + length (m_data p)" by (simp add: ipc_encode_def)
  ultimately show ?thesis
    using a by (subst ipc_safe.simps) simp
qed

lemma ipc_safe_bad: "\<not> ipc_head_ok s \<Longrightarrow> ipc_safe s"
  by (subst ipc_safe.simps) simp

lemma ipc_parse_Nil [simp]: "ipc_parse [] = More"
  by (simp add: ipc_parse_def)

lemma ipc_safe_concat:
  "(\<And>p. p \<in> set ps \<Longrightarrow> ipc_pkt_wf p \<and> length (m_data p) \<le> 1008) \<Longrightarrow>
    ipc_safe (concat (map ipc_encode ps)) \<and>
    parse_all ipc_parse (concat (map ipc_encode ps)) = (ps, False, [])"
proof (induction ps)
  case Nil
  then show ?case by (simp add: ipc_safe.simps [of "[]"] ipcp.parse_all_More)
next
  case (Cons p ps)
  then show ?case
    by (simp add: ipc_safe_Cons ipcp.parse_all_Frame [OF ipc_parse_encode])
qed

section \<open>Properties\<close>

text \<open>
  C3. The ipc decoder is correct on every stream whose packets carry at most 1008 bytes, cut anyhow into
  pieces of at most 510976 bytes: no fault, the packets of the stream in order, and \<open>kInvalidHeader\<close> exactly at a
  header whose length field is not 16.
\<close>

theorem ipc_stream_correct:
  assumes "ipc_safe (concat cs)"
    and "\<And>c. c \<in> set cs \<Longrightarrow> length c \<le> 510976"
    and "parse_all ipc_parse (concat cs) = (ps, b, r)"
  shows "\<exists>d'. feed_all ipc_PushBuffer ipc_Decode ipcNoError ipcNeedMoreData ipc_GetPacket cs
    ipc_decoder_new = Some (ps, Inr (if b then ipcInvalidHeader else ipcNeedMoreData, d'))"
  by (rule ipcd.feed_all_parse_all [OF ipc_rel_new _ assms(1) _ assms(3)])
    (use assms(2) in force)+

theorem ipc_stream_correct_witness:
  "\<exists>d'. feed_all ipc_PushBuffer ipc_Decode ipcNoError ipcNeedMoreData ipc_GetPacket
    [[17, 0, 0], [0, 0, 0, 0, 0, 1, 0, 0, 0, 1, 0, 0, 0]] ipc_decoder_new =
    Some ([], Inr (ipcInvalidHeader, d'))"
proof -
  let ?cs = "[[17, 0, 0], [0, 0, 0, 0, 0, 1, 0, 0, 0, 1, 0, 0, 0 :: byte]]"
  have "\<not> ipc_head_ok (concat ?cs)" by (simp add: ipc_head_ok_def packet_of_mem_def Let_def)
  then have "ipc_safe (concat ?cs)" "parse_all ipc_parse (concat ?cs) = ([], True, concat ?cs)"
    by (simp_all add: ipc_safe_bad ipcp.parse_all_Bad ipc_parse_Bad)
  then show ?thesis
    by (intro ipc_stream_correct [where b = True, unfolded if_True]) auto
qed

text \<open>
  C4. What one server process sends another receives: the encodings of packets of at most 1008 data
  bytes, cut anyhow into pieces of at most 510976 bytes, come out of the decoder as the same packets in
  the same order, and the decoder waits for more.
\<close>

theorem ipc_decoder_roundtrip:
  assumes "\<And>p. p \<in> set ps \<Longrightarrow> ipc_pkt_wf p \<and> length (m_data p) \<le> 1008"
    and "\<And>c. c \<in> set cs \<Longrightarrow> length c \<le> 510976"
    and "concat cs = concat (map ipc_encode ps)"
  shows "\<exists>d'. feed_all ipc_PushBuffer ipc_Decode ipcNoError ipcNeedMoreData ipc_GetPacket cs
    ipc_decoder_new = Some (ps, Inr (ipcNeedMoreData, d'))"
proof -
  have "ipc_safe (concat cs)" "parse_all ipc_parse (concat cs) = (ps, False, [])"
    using ipc_safe_concat [OF assms(1)] assms(3) by simp_all
  from ipcd.feed_all_parse_all [OF ipc_rel_new _ this(1) _ this(2)] show ?thesis
    using assms(2) by force
qed

definition ipc_sample :: ipc_packet where
  "ipc_sample = \<lparr>m_uHeadLength = 16, m_uDataLength = 3, m_uPktSeqId = 1,
     m_uPktType = IPC_PKT_TYPE_SUBSCRIBE_DEVICE_ID, m_data = [1, 2, 3]\<rparr>"

theorem ipc_decoder_roundtrip_witness:
  "\<exists>d'. feed_all ipc_PushBuffer ipc_Decode ipcNoError ipcNeedMoreData ipc_GetPacket
    [ipc_encode ipc_sample @ take 7 (ipc_encode ipc_sample), drop 7 (ipc_encode ipc_sample)]
    ipc_decoder_new = Some ([ipc_sample, ipc_sample], Inr (ipcNeedMoreData, d'))"
  by (rule ipc_decoder_roundtrip)
    (auto simp: ipc_pkt_wf_def ipc_sample_def ipc_encode_def packet_header_bytes_def)

text \<open>
  C5. The limit of 1008 bytes is sharp. When a decoder reaches a header that announces more than 1024
  bytes, \<open>ParseHeader\<close> reallocates the packet block while \<open>Decode\<close> still reads its length through the
  old reference; when it announces 1009 to 1024 bytes and they have arrived, they are copied past the
  end of the block.
\<close>

theorem ipc_oversized_faults:
  assumes "ipc_rel d s" "id_status d = kReadHeader" "16 \<le> length s" "ipc_head_ok s" "1008 < ipc_len s"
    and "1024 < ipc_len s \<or> 16 + ipc_len s \<le> length s"
  shows "ipc_Decode d = Inl (if 1024 < ipc_len s then UseAfterFree else OutOfBounds)"
proof -
  have r: "buf_ok (id_buffer d)" "length (id_block d) = 1025" "GetBuffer (id_buffer d) = s"
    "id_howmuch d = 16"
    using assms(1,2) by (auto simp: ipc_rel_def)
  show ?thesis
  proof (cases "1024 < ipc_len s")
    case True
    then show ?thesis
      using r assms by (simp add: ipc_Decode_def ipc_Decode_header_def ipc_ParseHeader_def Let_def
          res_simps ReadableBytes_eq sizeof_packet_t_def ipc_head_ok_def ipc_len_def)
  next
    case False
    with assms ipc_header_fits [OF assms(1-4)] obtain m where "length m = 1025"
      "ipc_Decode_header d = Inr (ipcNoError, d\<lparr>id_block := m, id_buffer := Skip 16 (id_buffer d),
        id_status := kReadPktBody, id_howmuch := ipc_len s\<rparr>)"
      by auto
    with False show ?thesis
      using r assms by (simp add: ipc_Decode_def ipc_Decode_body_def ipc_ParseBody_def res_simps
          buf_simps Let_def sizeof_packet_t_def)
  qed
qed

theorem ipc_oversized_faults_witness:
  "ipc_Decode (ipc_decoder_new\<lparr>id_buffer := Append (w_le 4 (16 :: u32) @ w_le 4 (2000 :: u32) @ replicate 8 0)
     Buffer_new\<rparr>) = Inl UseAfterFree"
proof -
  let ?s = "w_le 4 (16 :: u32) @ w_le 4 (2000 :: u32) @ replicate 8 0"
  have "ipc_rel (ipc_decoder_new\<lparr>id_buffer := Append ?s Buffer_new\<rparr>) ?s"
    using ipc_rel_push [OF ipc_rel_new, of "Append ?s Buffer_new" ?s] ipc_rel_new
    by (simp add: buf_simps ipc_rel_def ipc_decoder_new_def)
  moreover have "ipc_head_ok ?s" "ipc_len ?s = 2000"
    by (simp_all add: ipc_head_ok_def ipc_len_def packet_of_mem_def Let_def word_le_roundtrip)
  ultimately show ?thesis
    using ipc_oversized_faults [of "ipc_decoder_new\<lparr>id_buffer := Append ?s Buffer_new\<rparr>" ?s]
    by (simp add: ipc_decoder_new_def)
qed

text \<open>
  A movable packet built from a packet without data keeps an uninitialised pointer; clearing or
  overwriting it deletes that pointer.
\<close>

lemma packet_move_of_empty:
  "packet_move_Clear (packet_move_of_packet p) =
    (if m_uDataLength p = 0 then Inl UseAfterFree else Inr packet_move_new)"
  by (simp add: packet_move_Clear_def packet_move_of_packet_def CopyFrom_packet_def
      packet_move_uninit_def Let_def unat_gt_0)

end
