(* ===== verification/Device_Id.thy ===== *)
theory Device_Id
  imports Prelude
begin

text \<open>
  The identifier of a vehicle channel and its text form (jt1078/Jt1078Util.cpp, the same file as
  jt1078/jt1078_server/Jt1078Util.cpp): 14 hexadecimal digits, the 6 BCD bytes of the SIM number and
  the channel byte. A \<open>std::string\<close> is a list of bytes; a C string ends at its first zero byte or
  at the end of the list.
\<close>

type_synonym cstring = "byte list"
type_synonym device_id_t = u64

definition ascii :: "string \<Rightarrow> cstring" where
  "ascii s = map of_char s"

definition INVALID_DEVICE_ID :: device_id_t where "INVALID_DEVICE_ID = 0"

section \<open>Hexadecimal text, as printf and strtoull treat it\<close>

definition hex_digit :: "nat \<Rightarrow> byte" where
  "hex_digit d = (if d < 10 then of_nat (48 + d) else of_nat (87 + d))"

definition hex_value :: "byte \<Rightarrow> nat option" where
  "hex_value c = (let n = unat c in
     if 48 \<le> n \<and> n \<le> 57 then Some (n - 48)
     else if 97 \<le> n \<and> n \<le> 102 then Some (n - 87)
     else if 65 \<le> n \<and> n \<le> 70 then Some (n - 55) else None)"

text \<open>\<open>%0kx\<close> of a number of at most \<open>k\<close> digits.\<close>

fun hex_str :: "nat \<Rightarrow> nat \<Rightarrow> cstring" where
  "hex_str 0 n = []"
| "hex_str (Suc k) n = hex_str k (n div 16) @ [hex_digit (n mod 16)]"

fun hex_acc :: "nat \<Rightarrow> cstring \<Rightarrow> nat" where
  "hex_acc a [] = a"
| "hex_acc a (c # cs) = (case hex_value c of None \<Rightarrow> a | Some d \<Rightarrow> hex_acc (16 * a + d) cs)"

definition is_space :: "byte \<Rightarrow> bool" where
  "is_space c = (c = 32 \<or> 9 \<le> unat c \<and> unat c \<le> 13)"

definition skip_sign :: "cstring \<Rightarrow> cstring" where
  "skip_sign s = (case s of c # cs \<Rightarrow> if c = 45 \<or> c = 43 then cs else s | [] \<Rightarrow> [])"

definition skip_0x :: "cstring \<Rightarrow> cstring" where
  "skip_0x s = (case s of
     c0 # c1 # c2 # cs \<Rightarrow>
       if c0 = 48 \<and> (c1 = 120 \<or> c1 = 88) \<and> hex_value c2 \<noteq> None then c2 # cs else s
   | _ \<Rightarrow> s)"

text \<open>\<open>strtoull(s, nullptr, 16)\<close>: white space, a sign, an optional \<open>0x\<close>, digits, saturation.\<close>

definition strtoull16 :: "cstring \<Rightarrow> u64" where
  "strtoull16 s =
     (let s1 = dropWhile is_space s;
          neg = (case s1 of c # _ \<Rightarrow> c = 45 | [] \<Rightarrow> False);
          v = hex_acc 0 (skip_0x (skip_sign s1)) in
      if 2 ^ 64 \<le> v then - 1 else if neg then - of_nat v else of_nat v)"

section \<open>Operations\<close>

definition GenerateDeviceIdStr :: "byte list option \<Rightarrow> byte \<Rightarrow> cstring" where
  "GenerateDeviceIdStr pSimCardNumber uLogicChannelNumber =
     (case pSimCardNumber of
        None \<Rightarrow> []
      | Some sim \<Rightarrow> concat (map (\<lambda>i. hex_str 2 (unat (sim ! i))) [0..<6])
          @ hex_str 2 (unat uLogicChannelNumber))"

definition GenerateDeviceId :: "cstring \<Rightarrow> device_id_t" where
  "GenerateDeviceId strDeviceId = strtoull16 strDeviceId"

definition GenerateDeviceId_sim :: "byte list option \<Rightarrow> byte \<Rightarrow> device_id_t" where
  "GenerateDeviceId_sim sim ch = GenerateDeviceId (GenerateDeviceIdStr sim ch)"

definition GenerateDeviceIdByBuffer :: "cstring \<Rightarrow> device_id_t" where
  "GenerateDeviceIdByBuffer buf = strtoull16 buf"

text \<open>
  \<open>snprintf\<close> is given 15 of the 16 bytes and returns the length it wanted; that length is then used
  to terminate the buffer and to build the string.
\<close>

definition GenerateDeviceIdStrByDeviceId :: "device_id_t \<Rightarrow> fault + cstring" where
  "GenerateDeviceIdStrByDeviceId device_id =
     (let n = unat device_id;
          text = hex_str (if n < 16 ^ 14 then 14 else if n < 16 ^ 15 then 15 else 16) n;
          nret = length text;
          buf = mem_write 0 (take 14 text @ [0]) (replicate 16 0) in
      if 16 \<le> nret then Inl OutOfBounds
      else Inr (take nret (buf[nret := 0])))"

definition is_digit :: "byte \<Rightarrow> bool" where
  "is_digit c = (48 \<le> unat c \<and> unat c \<le> 57)"

definition CheckDeviceIdStrFmt :: "cstring \<Rightarrow> bool" where
  "CheckDeviceIdStrFmt s = (length s = 14 \<and> (\<forall>i \<in> set [0..<14]. is_digit (s ! i)))"

section \<open>Lemmas\<close>

lemma length_hex_str [simp]: "length (hex_str k n) = k"
  by (induction k arbitrary: n) auto

lemma unat_hex_digit: "d < 16 \<Longrightarrow> unat (hex_digit d) = (if d < 10 then 48 + d else 87 + d)"
  using unat_of_nat_eq [where 'a = 8, of "48 + d"] unat_of_nat_eq [where 'a = 8, of "87 + d"]
  by (simp add: hex_digit_def)

lemma hex_value_digit: "d < 16 \<Longrightarrow> hex_value (hex_digit d) = Some d"
  using unat_hex_digit [of d] by (auto simp: hex_value_def Let_def split: if_splits)

lemma hex_digit_neq:
  assumes "d < 16"
  shows "hex_digit d \<noteq> 45" "hex_digit d \<noteq> 43" "\<not> is_space (hex_digit d)" "hex_digit d \<noteq> 120"
    "hex_digit d \<noteq> 88"
  using assms unat_hex_digit [OF assms]
  by (auto simp: word_unat_eq_iff is_space_def split: if_splits)

definition hexes :: "cstring \<Rightarrow> bool" where
  "hexes s = (\<forall>c \<in> set s. \<exists>d < 16. c = hex_digit d)"

lemma hexes_append [simp]: "hexes (s @ t) = (hexes s \<and> hexes t)"
  by (auto simp: hexes_def)

lemma hexes_str [simp]: "hexes (hex_str k n)"
proof (induction k arbitrary: n)
  case (Suc k)
  have "hexes [hex_digit (n mod 16)]"
    unfolding hexes_def by (auto intro!: exI [of _ "n mod 16"])
  with Suc show ?case by simp
qed (simp add: hexes_def)

lemma hex_acc_append: "hexes s \<Longrightarrow> hex_acc a (s @ t) = hex_acc (hex_acc a s) t"
  by (induction s arbitrary: a) (auto simp: hexes_def hex_value_digit)

lemma hex_acc_str: "hex_acc a (hex_str k n) = a * 16 ^ k + n mod 16 ^ k"
proof (induction k arbitrary: n)
  case (Suc k)
  have "n mod (16 * 16 ^ k) = n mod 16 + 16 * (n div 16 mod 16 ^ k)"
    by (metis add.commute mod_mult2_eq)
  with Suc show ?case
    by (simp add: hex_acc_append hex_value_digit algebra_simps)
qed simp

text \<open>On a string of hexadecimal digits followed by a terminator, \<open>strtoull\<close> reads the number.\<close>

lemma strtoull16_hexes:
  assumes "hexes s" "s \<noteq> []"
  shows "strtoull16 (s @ 0 # t) = (let v = hex_acc 0 s in if 2 ^ 64 \<le> v then - 1 else of_nat v)"
    "strtoull16 s = (let v = hex_acc 0 s in if 2 ^ 64 \<le> v then - 1 else of_nat v)"
proof -
  have z: "hex_value 0 = None" by (simp add: hex_value_def)
  obtain c cs where s: "s = c # cs" "\<not> is_space c" "c \<noteq> 45" "c \<noteq> 43"
    using assms hex_digit_neq by (cases s) (auto simp: hexes_def)
  have x: "d \<noteq> 120 \<and> d \<noteq> 88" if "d \<in> set cs \<union> {0}" for d
    using that assms(1) hex_digit_neq by (auto simp: s hexes_def)
  have "skip_0x (s @ u) = s @ u" if "u = [] \<or> u = 0 # t" for u
    using x that by (cases cs) (auto simp: s skip_0x_def split: list.split)
  then have "skip_0x (s @ 0 # t) = s @ 0 # t" "skip_0x s = s"
    by (metis append_Nil2)+
  moreover have "hex_acc 0 (s @ 0 # t) = hex_acc 0 s"
    using assms(1) by (simp add: hex_acc_append z)
  ultimately show "strtoull16 (s @ 0 # t) = (let v = hex_acc 0 s in if 2 ^ 64 \<le> v then - 1 else of_nat v)"
    "strtoull16 s = (let v = hex_acc 0 s in if 2 ^ 64 \<le> v then - 1 else of_nat v)"
    using s by (simp_all only: strtoull16_def skip_sign_def Let_def append_Cons dropWhile.simps
        if_False list.case simp_thms)
qed

lemma hex_str_byte: "unat (b :: byte) mod 16 ^ 2 = unat b"
  using unat_byte_lt [of b] by simp

lemma GenerateDeviceIdStr_acc:
  assumes "length sim = 6"
  shows "hexes (GenerateDeviceIdStr (Some sim) ch)"
    "length (GenerateDeviceIdStr (Some sim) ch) = 14"
    "hex_acc 0 (GenerateDeviceIdStr (Some sim) ch) = be_nat (sim @ [ch])"
proof -
  obtain a b c d e f where s: "sim = [a, b, c, d, e, f]"
    using assms by (auto simp: length_Suc_conv numeral_eq_Suc)
  have u: "[0..<6] = [0, 1, 2, 3, 4, 5 :: nat]" by (simp add: upt_rec)
  show "hexes (GenerateDeviceIdStr (Some sim) ch)" "length (GenerateDeviceIdStr (Some sim) ch) = 14"
    by (simp_all add: GenerateDeviceIdStr_def s u del: hex_str.simps)
  have two: "hex_acc x (hex_str 2 (unat y)) = 256 * x + unat y" for x and y :: byte
    using hex_acc_str [of x 2 "unat y"] hex_str_byte [of y] by simp
  show "hex_acc 0 (GenerateDeviceIdStr (Some sim) ch) = be_nat (sim @ [ch])"
    by (simp add: GenerateDeviceIdStr_def s u hex_acc_append two be_nat_def)
qed

lemma hex_str_acc: "hexes s \<Longrightarrow> hex_str (length s) (hex_acc 0 s) = s"
proof (induction s rule: rev_induct)
  case (snoc c s)
  then obtain d where d: "d < 16" "c = hex_digit d" by (auto simp: hexes_def)
  with snoc show ?case by (simp add: hex_acc_append hex_value_digit)
qed simp

lemma hex_acc_bound: "hexes s \<Longrightarrow> hex_acc 0 s < 16 ^ length s"
  by (metis hex_str_acc hex_acc_str mod_less_divisor add_0 mult_0 zero_less_numeral zero_less_power)

lemma be_nat_inj: "length xs = length ys \<Longrightarrow> be_nat xs = be_nat ys \<Longrightarrow> xs = ys"
  by (metis be_nat_def nat_le_le_nat length_rev rev_rev_ident)

lemma GenerateDeviceId_sim_eq:
  assumes "length sim = 6"
  shows "unat (GenerateDeviceId_sim (Some sim) ch) = be_nat (sim @ [ch])"
proof -
  let ?s = "GenerateDeviceIdStr (Some sim) ch"
  have "hex_acc 0 ?s < 16 ^ 14"
    using hex_acc_bound [of ?s] GenerateDeviceIdStr_acc [OF assms] by metis
  then have "be_nat (sim @ [ch]) < 2 ^ 64" using GenerateDeviceIdStr_acc(3) [OF assms] by simp
  moreover have "?s \<noteq> []"
    using GenerateDeviceIdStr_acc(2) [OF assms, of ch] by (metis length_0_conv zero_neq_numeral)
  ultimately show ?thesis
    using strtoull16_hexes(2) [of ?s] GenerateDeviceIdStr_acc [OF assms, of ch]
    by (simp add: GenerateDeviceId_sim_def GenerateDeviceId_def Let_def unat_of_nat_eq)
qed

lemma GenerateDeviceIdStrByDeviceId_eq:
  "unat d < 2 ^ 56 \<Longrightarrow> GenerateDeviceIdStrByDeviceId d = Inr (hex_str 14 (unat d))"
proof -
  assume "unat d < 2 ^ 56"
  then have l: "unat d < 16 ^ 14" by simp
  show ?thesis
    unfolding GenerateDeviceIdStrByDeviceId_def Let_def if_P [OF l]
    by (simp add: mem_write_def del: hex_str.simps)
qed

lemma device_text_reads_back:
  assumes "unat d < 2 ^ 56"
  shows "GenerateDeviceId (hex_str 14 (unat d)) = d" "GenerateDeviceIdByBuffer (hex_str 14 (unat d) @ 0 # t) = d"
proof -
  let ?s = "hex_str 14 (unat d)"
  have l: "unat d < 16 ^ 14" using assms by simp
  then have "hex_acc 0 ?s = unat d" by (simp add: hex_acc_str)
  moreover have "?s \<noteq> []" by (metis length_hex_str length_0_conv zero_neq_numeral)
  ultimately show "GenerateDeviceId ?s = d" "GenerateDeviceIdByBuffer (?s @ 0 # t) = d"
    using l strtoull16_hexes [OF hexes_str [of 14 "unat d"]]
    by (simp_all add: GenerateDeviceId_def GenerateDeviceIdByBuffer_def Let_def del: hex_str.simps)
qed

section \<open>Properties\<close>

text \<open>
  C6. The text form of an identifier below \<open>2 ^ 56\<close>, the range of six SIM bytes and a channel
  byte, is 14 digits long and reads back as the identifier, also from a buffer that is terminated
  and goes on behind the terminator.
\<close>

theorem device_id_text_roundtrip:
  assumes "unat did < 2 ^ 56"
  shows "\<exists>s. GenerateDeviceIdStrByDeviceId did = Inr s \<and> length s = 14 \<and>
    GenerateDeviceId s = did \<and> GenerateDeviceIdByBuffer (s @ 0 # t) = did"
  using assms device_text_reads_back [OF assms] by (simp add: GenerateDeviceIdStrByDeviceId_eq del: hex_str.simps)

theorem device_id_text_roundtrip_witness:
  "\<exists>s. GenerateDeviceIdStrByDeviceId 0x01380000100203 = Inr s \<and> length s = 14 \<and>
    GenerateDeviceId s = 0x01380000100203 \<and> GenerateDeviceIdByBuffer (s @ 0 # [1, 2]) = 0x01380000100203"
  by (rule device_id_text_roundtrip) simp

text \<open>
  A vehicle's identifier is the big-endian number of its six SIM bytes and its channel byte, so
  different vehicles or channels have different identifiers, and the text derived from the
  identifier is the text the vehicle's session derives from the packet.
\<close>

theorem device_id_of_vehicle:
  assumes "length sim = 6"
  shows "unat (GenerateDeviceId_sim (Some sim) ch) = be_nat (sim @ [ch])
    \<and> (length sim' = 6 \<and> GenerateDeviceId_sim (Some sim') ch' = GenerateDeviceId_sim (Some sim) ch
        \<longrightarrow> sim' = sim \<and> ch' = ch)
    \<and> GenerateDeviceIdStrByDeviceId (GenerateDeviceId_sim (Some sim) ch) = Inr (GenerateDeviceIdStr (Some sim) ch)"
proof -
  have b: "be_nat (sim @ [ch]) < 2 ^ 56"
    using be_nat_bound [of "sim @ [ch]"] assms by simp
  have "sim' = sim \<and> ch' = ch"
    if "length sim' = 6" "GenerateDeviceId_sim (Some sim') ch' = GenerateDeviceId_sim (Some sim) ch"
    using that be_nat_inj [of "sim' @ [ch']" "sim @ [ch]"] GenerateDeviceId_sim_eq [of sim' ch']
      GenerateDeviceId_sim_eq [OF assms, of ch] assms by simp
  moreover have "hex_str 14 (be_nat (sim @ [ch])) = GenerateDeviceIdStr (Some sim) ch"
    using hex_str_acc [of "GenerateDeviceIdStr (Some sim) ch"] GenerateDeviceIdStr_acc [OF assms, of ch]
    by simp
  ultimately show ?thesis
    using b GenerateDeviceId_sim_eq [OF assms, of ch]
    by (auto simp: GenerateDeviceIdStrByDeviceId_eq)
qed

theorem device_id_of_vehicle_witness:
  "unat (GenerateDeviceId_sim (Some [1, 0x38, 0, 0, 0x10, 2]) 3) = be_nat ([1, 0x38, 0, 0, 0x10, 2] @ [3])"
  using device_id_of_vehicle [of "[1, 0x38, 0, 0, 0x10, 2]"] by (simp del: of_nat_numeral)

text \<open>Identifiers of 16 digits overflow the buffer; 15 digits leave a zero byte in the text.\<close>

lemma device_id_text_overflow:
  "2 ^ 60 \<le> unat did \<Longrightarrow> GenerateDeviceIdStrByDeviceId did = Inl OutOfBounds"
  by (simp add: GenerateDeviceIdStrByDeviceId_def Let_def del: hex_str.simps)

end
