(* ===== verification/Tcp_Session.thy ===== *)
theory Tcp_Session
  imports Device_Id Byte_Buffer
begin

text \<open>
  The TCP connection every session and client is built on (core/tcp/TcpSession.cpp, TcpClient.cpp,
  core/socket/Socket.cpp): session identifiers, the read event and the error callbacks, the two ways
  of sending, the list of data the kernel did not accept yet, connecting and reconnecting. The kernel
  is a list of answers; the bytes it accepts are part of the result. The locale
  \<open>reliable_sender\<close> is the contract of a sender that keeps what was not accepted.
\<close>

section \<open>State\<close>

datatype tcp_error = TCP_ERROR_DISCONNECT | TCP_ERROR_NET_ERROR | TCP_ERROR_USER_BUFFER_FULL
  | TCP_ERROR_INVALID_PACKET

definition INVALID_SOCKET :: int where "INVALID_SOCKET = - 1"

type_synonym session_id = u64

text \<open>
  The callbacks are represented by whether they are set; \<open>ts_eventloop\<close> is the identity of the loop.
\<close>

record tcp_session =
  ts_remote_ip :: cstring
  ts_remote_port :: u16
  ts_session_id :: session_id
  ts_eventloop :: "nat option"
  ts_fd :: int
  ts_read_event :: bool
  ts_error_callback :: bool
  ts_read_callback :: bool
  ts_can_write :: bool
  ts_pending :: "byte list list"

text \<open>
  \<open>GenerateSessionId\<close>: the counter is 64 bits wide and is read into an \<open>int\<close>; \<open>%\<close> truncates
  toward zero, the sum is unsigned. The result is the identifier and the new counter.
\<close>

definition GenerateSessionId :: "u64 \<Rightarrow> u64 \<Rightarrow> session_id \<times> u64" where
  "GenerateSessionId now count =
     (let count = count + 1;
          cur = sint (ucast count :: 32 word);
          r = (if 0 \<le> cur then cur mod 1000000 else - ((- cur) mod 1000000)) in
      (now * 1000000 + of_int r, count))"

definition tcp_session_new :: "session_id \<Rightarrow> tcp_session" where
  "tcp_session_new sid = \<lparr>ts_remote_ip = [], ts_remote_port = - 1, ts_session_id = sid,
     ts_eventloop = None, ts_fd = INVALID_SOCKET, ts_read_event = False, ts_error_callback = False,
     ts_read_callback = False, ts_can_write = False, ts_pending = []\<rparr>"

section \<open>Operations\<close>

text \<open>\<open>Clear\<close>; the second component lists the descriptors it closes.\<close>

definition TcpSession_Clear :: "'a tcp_session_scheme \<Rightarrow> 'a tcp_session_scheme \<times> int list" where
  "TcpSession_Clear s =
     (s\<lparr>ts_eventloop := None, ts_read_event := False, ts_fd := INVALID_SOCKET,
        ts_error_callback := False, ts_read_callback := False, ts_can_write := False\<rparr>,
      if ts_fd s \<noteq> INVALID_SOCKET then [ts_fd s] else [])"

text \<open>
  \<open>Init\<close>; \<open>ev\<close> tells whether \<open>event_new\<close> succeeds. \<open>Clear\<close> is virtual: \<open>clear\<close> is the one of the
  object's class, \<open>TcpSession_Clear\<close> for a session and \<open>TcpClient_Clear\<close> for a client.
\<close>

definition TcpSession_Init ::
  "('a tcp_session_scheme \<Rightarrow> 'a tcp_session_scheme \<times> int list) \<Rightarrow> bool \<Rightarrow> nat option \<Rightarrow> int \<Rightarrow>
    cstring \<Rightarrow> u16 \<Rightarrow> 'a tcp_session_scheme \<Rightarrow> bool \<times> 'a tcp_session_scheme \<times> int list" where
  "TcpSession_Init clear ev eventloop fd remote_ip remote_port s =
     (if eventloop = None \<or> fd = INVALID_SOCKET then (False, s, [])
      else
        (let s = s\<lparr>ts_eventloop := eventloop, ts_remote_ip := remote_ip,
               ts_remote_port := remote_port, ts_fd := fd\<rparr> in
         if \<not> ev then (case clear s of (s, closed) \<Rightarrow> (False, s, closed))
         else (True, s\<lparr>ts_read_event := True, ts_can_write := True\<rparr>, [])))"

definition InitReadEvent ::
  "('a tcp_session_scheme \<Rightarrow> 'a tcp_session_scheme \<times> int list) \<Rightarrow> bool \<Rightarrow> int \<Rightarrow> 'a tcp_session_scheme \<Rightarrow>
    bool \<times> 'a tcp_session_scheme \<times> int list" where
  "InitReadEvent clear ev fd s =
     TcpSession_Init clear ev (ts_eventloop s) fd (ts_remote_ip s) (ts_remote_port s) s"

text \<open>
  \<open>SendBuffer\<close> over \<open>send\<close>: the return value, \<open>errno\<close> if it is negative, the bytes the kernel
  accepted, the session, the unused answers. A kernel never accepts more than it is given.
\<close>

definition SendBuffer ::
  "nat sys list \<Rightarrow> byte list \<Rightarrow> tcp_session \<Rightarrow>
    (int \<times> errno option \<times> byte list \<times> tcp_session \<times> nat sys list) option" where
  "SendBuffer rs data s =
     (case until_not_eintr rs of
        None \<Rightarrow> None
      | Some (SysOk n, rs') \<Rightarrow>
          (let w = min n (length data) in Some (int w, None, take w data, s, rs'))
      | Some (SysErr e, rs') \<Rightarrow>
          Some (- 1, Some e, [], if would_block e then s else s\<lparr>ts_can_write := False\<rparr>, rs'))"

text \<open>\<open>SendBuffer\<close> over \<open>writev\<close>: the same on the concatenated pieces.\<close>

definition SendBuffer_iov ::
  "nat sys list \<Rightarrow> byte list list \<Rightarrow> tcp_session \<Rightarrow>
    (int \<times> errno option \<times> byte list \<times> tcp_session \<times> nat sys list) option" where
  "SendBuffer_iov rs iov s =
     (let len = length (concat iov) in
      case until_not_eintr rs of
        None \<Rightarrow> None
      | Some (SysOk n, rs') \<Rightarrow>
          (let w = min n len in Some (int w, None, take w (concat iov), s, rs'))
      | Some (SysErr e, rs') \<Rightarrow>
          Some (- 1, Some e, [], if would_block e then s else s\<lparr>ts_can_write := False\<rparr>, rs'))"

definition EmptyPendingBuffer :: "tcp_session \<Rightarrow> bool" where
  "EmptyPendingBuffer s = (ts_pending s = [])"

definition PushBackPendingBuffer :: "byte list \<Rightarrow> tcp_session \<Rightarrow> tcp_session" where
  "PushBackPendingBuffer bs s = s\<lparr>ts_pending := ts_pending s @ [bs]\<rparr>"

definition PushFrontPendingBuffer :: "byte list \<Rightarrow> tcp_session \<Rightarrow> tcp_session" where
  "PushFrontPendingBuffer bs s = s\<lparr>ts_pending := bs # ts_pending s\<rparr>"

definition PopFrontPendingBuffer :: "tcp_session \<Rightarrow> tcp_session" where
  "PopFrontPendingBuffer s = s\<lparr>ts_pending := tl (ts_pending s)\<rparr>"

lemma SendBuffer_cases:
  assumes "SendBuffer rs data s = Some (w, e, out, s', rs')"
  obtains (wrote) n where "w = int n" "e = None" "n \<le> length data" "out = take n data" "s' = s"
  | (again) x where "w = - 1" "e = Some x" "would_block x" "out = []" "s' = s"
  | (failed) x where "w = - 1" "e = Some x" "\<not> would_block x" "out = []" "s' = s\<lparr>ts_can_write := False\<rparr>"
  using assms
  by (auto simp: SendBuffer_def Let_def split: option.splits sys.splits if_splits prod.splits)

lemma SendBuffer_pending: "SendBuffer rs data s = Some (w, e, out, s', rs') \<Longrightarrow> ts_pending s' = ts_pending s"
  by (erule SendBuffer_cases) auto

text \<open>
  \<open>SendPendingBuffer\<close>: the loop over the pending list, with the bytes accepted on the way.
\<close>

function SendPendingBuffer ::
  "nat sys list \<Rightarrow> tcp_session \<Rightarrow> (bool \<times> byte list \<times> tcp_session \<times> nat sys list) option" where
  "SendPendingBuffer rs s =
     (case ts_pending s of
        [] \<Rightarrow> Some (True, [], s, rs)
      | str # _ \<Rightarrow>
          (case SendBuffer rs str s of
             None \<Rightarrow> None
           | Some (written, _, out, s', rs') \<Rightarrow>
               if written < 0 then Some (EmptyPendingBuffer s', out, s', rs')
               else if written < int (length str) then
                 (let s'' = PushFrontPendingBuffer (drop (nat written) str) (PopFrontPendingBuffer s') in
                  Some (EmptyPendingBuffer s'', out, s'', rs'))
               else map_option (\<lambda>(b, out', r). (b, out @ out', r))
                      (SendPendingBuffer rs' (PopFrontPendingBuffer s'))))"
  by pat_completeness auto
termination
  by (relation "measure (\<lambda>(_, s). length (ts_pending s))")
    (auto dest: SendBuffer_pending simp: PopFrontPendingBuffer_def)

declare SendPendingBuffer.simps [simp del]

text \<open>
  \<open>HandleReadEvent\<close>: one read, then one of the callbacks or the virtual handlers. Calling an empty
  callback throws.
\<close>

datatype read_action =
    ActReadCallback buffer
  | ActOnMessage buffer
  | ActErrorCallback tcp_error
  | ActOnError tcp_error

definition HandleReadEvent ::
  "int \<Rightarrow> byte list sys list \<Rightarrow> tcp_session \<Rightarrow> (fault + read_action) option" where
  "HandleReadEvent fd rs s =
     map_option (\<lambda>(nRecv, buffer, _).
         if 0 < nRecv then
           Inr (if ts_read_callback s then ActReadCallback buffer else ActOnMessage buffer)
         else if nRecv = 0 then
           Inr (if ts_error_callback s then ActErrorCallback TCP_ERROR_DISCONNECT
                else ActOnError TCP_ERROR_DISCONNECT)
         else if ts_read_callback s then
           (if ts_error_callback s then Inr (ActErrorCallback TCP_ERROR_NET_ERROR) else Inl BadCall)
         else Inr (ActOnError TCP_ERROR_NET_ERROR))
       (GetDataFromFd fd (int MAX_SIZE_ONCE_READ) rs Buffer_new)"

section \<open>Sending in order and without loss\<close>

text \<open>What is still to be sent: the pending data, in order.\<close>

definition pending_bytes :: "tcp_session \<Rightarrow> byte list" where
  "pending_bytes s = concat (ts_pending s)"

lemma SendPendingBuffer_conserves:
  "SendPendingBuffer rs s = Some (b, out, s', rs') \<Longrightarrow>
    pending_bytes s = out @ pending_bytes s' \<and> b = EmptyPendingBuffer s' \<and>
    (ts_can_write s' \<longrightarrow> ts_can_write s) \<and> ts_session_id s' = ts_session_id s"
proof (induction "length (ts_pending s)" arbitrary: rs s out rule: less_induct)
  case less
  note [simp] = pending_bytes_def EmptyPendingBuffer_def PushFrontPendingBuffer_def
    PopFrontPendingBuffer_def
  note unf = SendPendingBuffer.simps [of rs s]
  show ?case
  proof (cases "ts_pending s")
    case Nil
    with less.prems show ?thesis by (simp add: unf)
  next
    case (Cons str rest)
    obtain w e o1 s1 rs1 where sb: "SendBuffer rs str s = Some (w, e, o1, s1, rs1)"
      using less.prems Cons by (auto simp: unf split: option.splits)
    from sb show ?thesis
    proof (cases rule: SendBuffer_cases)
      case (wrote n)
      show ?thesis
      proof (cases "n < length str")
        case True
        with less.prems Cons sb wrote show ?thesis by (auto simp: unf Let_def)
      next
        case False
        with less.prems Cons sb wrote obtain o2 where
          "SendPendingBuffer rs1 (PopFrontPendingBuffer s) = Some (b, o2, s', rs')" "out = str @ o2"
          by (auto simp: unf Let_def)
        with less.hyps [of "PopFrontPendingBuffer s" rs1 o2] Cons show ?thesis by simp
      qed
    next
      case again
      with less.prems Cons sb show ?thesis by (simp add: unf)
    next
      case failed
      with less.prems Cons sb show ?thesis by (auto simp: unf)
    qed
  qed
qed

lemma SendPendingBuffer_all_sent:
  "SendPendingBuffer rs s = Some (True, out, s', rs') \<Longrightarrow> ts_can_write s' = ts_can_write s"
proof (induction "length (ts_pending s)" arbitrary: rs s out rule: less_induct)
  case less
  note [simp] = EmptyPendingBuffer_def PushFrontPendingBuffer_def PopFrontPendingBuffer_def
  note unf = SendPendingBuffer.simps [of rs s]
  show ?case
  proof (cases "ts_pending s")
    case Nil
    with less.prems show ?thesis by (simp add: unf)
  next
    case (Cons str rest)
    obtain w e o1 s1 rs1 where sb: "SendBuffer rs str s = Some (w, e, o1, s1, rs1)"
      using less.prems Cons by (auto simp: unf split: option.splits)
    from sb show ?thesis
    proof (cases rule: SendBuffer_cases)
      case (wrote n)
      with less.prems Cons sb obtain o2 where
        "SendPendingBuffer rs1 (PopFrontPendingBuffer s) = Some (True, o2, s', rs')"
        by (auto simp: unf Let_def split: if_splits)
      with less.hyps [of "PopFrontPendingBuffer s" rs1 o2] Cons show ?thesis by simp
    qed (use less.prems Cons sb in \<open>auto simp: unf split: if_splits\<close>)
  qed
qed

lemma SendPendingBuffer_returns:
  "length (ts_pending s) \<le> length (filter (\<lambda>r. r \<noteq> SysErr EINTR) rs) \<Longrightarrow>
    \<exists>r. SendPendingBuffer rs s = Some r"
proof (induction "length (ts_pending s)" arbitrary: rs s)
  case 0
  then show ?case by (auto simp: SendPendingBuffer.simps [of rs s])
next
  case (Suc n)
  then obtain str rest where p: "ts_pending s = str # rest" by (cases "ts_pending s") auto
  have "until_not_eintr rs = Some (r, rs') \<Longrightarrow>
      length (filter (\<lambda>r. r \<noteq> SysErr EINTR) rs) = Suc (length (filter (\<lambda>r. r \<noteq> SysErr EINTR) rs'))" for r rs'
    by (induction rs rule: until_not_eintr.induct) auto
  moreover have "\<exists>r rs'. until_not_eintr rs = Some (r, rs')"
    using Suc.prems p by (induction rs rule: until_not_eintr.induct) auto
  ultimately obtain r rs' where r: "until_not_eintr rs = Some (r, rs')"
    "length rest \<le> length (filter (\<lambda>r. r \<noteq> SysErr EINTR) rs')"
    using Suc.prems p by fastforce
  then have "\<exists>x. SendPendingBuffer rs' (PopFrontPendingBuffer s) = Some x"
    using Suc.hyps p by (intro Suc.hyps(1)) (auto simp: PopFrontPendingBuffer_def)
  with r p show ?case
    by (cases r) (auto simp: SendPendingBuffer.simps [of rs s] SendBuffer_def Let_def)
qed

section \<open>The contract of a sender, and of a sequence counter\<close>

text \<open>
  A sender that keeps the rest of what the kernel did not take. \<open>wire s m\<close> is the byte image of
  message \<open>m\<close> in state \<open>s\<close>; the first component of the result tells whether the message was
  taken over (sent or queued) or dropped because the peer is gone.
\<close>

locale reliable_sender =
  fixes send :: "'r \<Rightarrow> 'm \<Rightarrow> 's \<Rightarrow> (bool \<times> byte list \<times> 's \<times> 'r) option"
    and wire :: "'s \<Rightarrow> 'm \<Rightarrow> byte list"
    and pend :: "'s \<Rightarrow> byte list"
  assumes accepted: "send r m s = Some (True, out, s', r') \<Longrightarrow> pend s @ wire s m = out @ pend s'"
    and dropped: "send r m s = Some (False, out, s', r') \<Longrightarrow> pend s = out @ pend s'"
begin

fun send_all :: "'r \<Rightarrow> 'm list \<Rightarrow> 's \<Rightarrow> (byte list \<times> byte list \<times> 's \<times> 'r) option" where
  "send_all r [] s = Some ([], [], s, r)"
| "send_all r (m # ms) s =
     Option.bind (send r m s) (\<lambda>(ok, out, s', r').
       Option.bind (send_all r' ms s') (\<lambda>(wires, outs, s'', r'').
         Some ((if ok then wire s m else []) @ wires, out @ outs, s'', r'')))"

text \<open>The peer sees the accepted messages in order, without loss, gap or repetition.\<close>

lemma send_all_conserves:
  "send_all r ms s = Some (wires, outs, s', r') \<Longrightarrow> pend s @ wires = outs @ pend s'"
proof (induction ms arbitrary: r s wires outs)
  case (Cons m ms)
  then obtain ok out s1 r1 ws os where
    a: "send r m s = Some (ok, out, s1, r1)" "send_all r1 ms s1 = Some (ws, os, s', r')"
       "wires = (if ok then wire s m else []) @ ws" "outs = out @ os"
    by (auto simp: bind_eq_Some_conv)
  have "pend s @ (if ok then wire s m else []) = out @ pend s1"
    using a(1) accepted dropped by (cases ok) auto
  with Cons.IH [OF a(2)] a(3,4) show ?case by (metis append.assoc)
qed simp

end

text \<open>The packet counters: the first identifier is 0, the counter wraps.\<close>

locale seq_counter =
  fixes next_id :: "'s \<Rightarrow> u32 \<times> 's"
    and last_id :: "'s \<Rightarrow> u32"
  assumes next_fst: "fst (next_id s) = last_id s + 1"
    and next_snd: "last_id (snd (next_id s)) = last_id s + 1"
begin

fun ids :: "nat \<Rightarrow> 's \<Rightarrow> u32 list" where
  "ids 0 s = []"
| "ids (Suc n) s = fst (next_id s) # ids n (snd (next_id s))"

lemma ids_eq: "ids n s = map (\<lambda>k. last_id s + of_nat (Suc k)) [0..<n]"
proof (induction n arbitrary: s)
  case (Suc n)
  have "[0..<Suc n] = 0 # map Suc [0..<n]" by (simp add: map_Suc_upt upt_conv_Cons del: upt_Suc)
  with Suc show ?case by (simp add: next_fst next_snd o_def add.assoc del: upt_Suc)
qed simp

lemma ids_fresh: "last_id s = - 1 \<Longrightarrow> ids n s = map of_nat [0..<n]"
  by (simp add: ids_eq)

lemma ids_distinct: "n \<le> 2 ^ 32 \<Longrightarrow> distinct (ids n s)"
proof -
  assume n: "n \<le> 2 ^ 32"
  have "inj_on (\<lambda>k. last_id s + of_nat (Suc k)) {0..<n}"
  proof (rule inj_onI)
    fix i j assume a: "i \<in> {0..<n}" "j \<in> {0..<n}"
      "last_id s + of_nat (Suc i) = last_id s + of_nat (Suc j)"
    then have "(of_nat i :: u32) = of_nat j" by simp
    then have "unat (of_nat i :: u32) = unat (of_nat j :: u32)" by simp
    with a(1,2) n show "i = j" by (simp add: unat_of_nat_eq)
  qed
  then show ?thesis by (simp add: ids_eq distinct_map)
qed

end

section \<open>Connecting\<close>

text \<open>
  \<open>SocketConnect\<close>: what \<open>socket\<close>, the non-blocking flag and \<open>connect\<close> answer. The result is
  the return value, the descriptor handed back and the descriptors closed.
\<close>

datatype connect_result = ConnNow | ConnRetriable | ConnRefused | ConnError

definition SocketConnect ::
  "int \<Rightarrow> int \<Rightarrow> bool \<Rightarrow> connect_result \<Rightarrow> int \<times> int \<times> int list" where
  "SocketConnect fd new_fd nonblock conn =
     (let made_fd = fd < 0; fd' = (if made_fd then new_fd else fd) in
      if made_fd \<and> new_fd < 0 then (- 1, fd', [])
      else if made_fd \<and> \<not> nonblock then (- 1, - 1, [fd'])
      else case conn of
        ConnRetriable \<Rightarrow> (0, fd', [])
      | ConnRefused \<Rightarrow> (2, fd', [])
      | ConnNow \<Rightarrow> (1, fd', [])
      | ConnError \<Rightarrow> if made_fd then (- 1, - 1, [fd']) else (- 1, fd', []))"

record tcp_client = tcp_session +
  tc_write_event :: "int option"
  tc_connected :: bool

definition FreeWriteEvent :: "'a tcp_client_scheme \<Rightarrow> 'a tcp_client_scheme" where
  "FreeWriteEvent c = c\<lparr>tc_write_event := None\<rparr>"

text \<open>
  \<open>AsyncConnect\<close> and the callback of its write event. Both end in the virtual \<open>OnConnected\<close>;
  its arguments are returned, with the client and the descriptors that were closed.
\<close>

definition AsyncConnect ::
  "nat \<Rightarrow> cstring \<Rightarrow> u16 \<Rightarrow> int \<Rightarrow> bool \<Rightarrow> connect_result \<Rightarrow> bool \<Rightarrow> 'a tcp_client_scheme \<Rightarrow>
    bool \<times> 'a tcp_client_scheme \<times> (int \<times> bool) option \<times> int list" where
  "AsyncConnect loop ip port new_fd nonblock conn ev c =
     (let c = (FreeWriteEvent c)\<lparr>ts_eventloop := Some loop, ts_remote_ip := ip, ts_remote_port := port\<rparr> in
      case SocketConnect INVALID_SOCKET new_fd nonblock conn of (ret, fd, closed) \<Rightarrow>
        if ret < 0 then (False, c, None, closed)
        else if ret = 0 then
          (if \<not> ev then (False, c, None, closed @ [fd])
           else (True, c\<lparr>tc_write_event := Some fd\<rparr>, None, closed))
        else if ret = 1 then (True, c, Some (fd, True), closed)
        else (True, c, Some (fd, False), closed))"

datatype write_event = EvWrite "bool" | EvTimeout

definition tcp_session_write_cb ::
  "int \<Rightarrow> write_event \<Rightarrow> 'a tcp_client_scheme \<Rightarrow> 'a tcp_client_scheme \<times> (int \<times> bool) \<times> int list" where
  "tcp_session_write_cb socket ev c =
     (case ev of
        EvWrite True \<Rightarrow> (c, (socket, False), [socket])
      | EvWrite False \<Rightarrow> (c\<lparr>tc_connected := True\<rparr>, (socket, True), [])
      | EvTimeout \<Rightarrow> (c, (socket, False), []))"

definition TcpClient_Clear :: "'a tcp_client_scheme \<Rightarrow> 'a tcp_client_scheme \<times> int list" where
  "TcpClient_Clear c = TcpSession_Clear ((FreeWriteEvent c)\<lparr>tc_connected := False\<rparr>)"

text \<open>A client whose read event cannot be made is closed, and no longer counts as connected.\<close>

lemma InitReadEvent_client_failed:
  assumes "ts_eventloop c \<noteq> None" "fd \<noteq> INVALID_SOCKET" "InitReadEvent TcpClient_Clear False fd c = (ok, c', closed)"
  shows "\<not> ok \<and> \<not> tc_connected c' \<and> tc_write_event c' = None \<and> ts_fd c' = INVALID_SOCKET \<and> closed = [fd]"
  using assms by (auto simp: InitReadEvent_def TcpSession_Init_def TcpClient_Clear_def TcpSession_Clear_def
      FreeWriteEvent_def)

text \<open>A failed attempt that is reported with \<open>OnConnected(fd, false)\<close> leaves its descriptor open.\<close>

lemma connect_failure_keeps_fd:
  "0 \<le> fd \<Longrightarrow> SocketConnect INVALID_SOCKET fd True ConnRefused = (2, fd, [])"
  "tcp_session_write_cb fd EvTimeout c = (c, (fd, False), [])"
  by (simp_all add: SocketConnect_def INVALID_SOCKET_def tcp_session_write_cb_def)

section \<open>Properties\<close>

text \<open>
  C7. Resending what is pending neither loses, repeats nor reorders a byte: when the kernel has answered
  its calls, the bytes it took followed by the bytes that stay pending are the bytes that were pending,
  and the return value says whether nothing is left.
\<close>

theorem pending_conserved:
  assumes "SendPendingBuffer rs s = Some (b, out, s', rs')"
  shows "concat (ts_pending s) = out @ concat (ts_pending s') \<and> (b \<longleftrightarrow> ts_pending s' = [])"
  using SendPendingBuffer_conserves [OF assms] by (simp add: pending_bytes_def EmptyPendingBuffer_def)

theorem pending_conserved_witness:
  "\<exists>s'. SendPendingBuffer [SysErr EINTR, SysOk 3, SysOk 1] ((tcp_session_new 1)\<lparr>ts_pending := [[1, 2, 3], [4, 5]]\<rparr>)
      = Some (False, [1, 2, 3, 4], s', []) \<and>
    concat [[1, 2, 3], [4, 5]] = [1, 2, 3, 4] @ concat (ts_pending s') \<and> ts_pending s' \<noteq> []"
proof -
  let ?s = "(tcp_session_new 1)\<lparr>ts_pending := [[1, 2, 3], [4, 5]]\<rparr>"
  have "\<exists>s'. SendPendingBuffer [SysErr EINTR, SysOk 3, SysOk 1] ?s = Some (False, [1, 2, 3, 4], s', [])"
    by (simp add: SendPendingBuffer.simps SendBuffer_def Let_def PopFrontPendingBuffer_def
        PushFrontPendingBuffer_def EmptyPendingBuffer_def)
  then obtain s' where "SendPendingBuffer [SysErr EINTR, SysOk 3, SysOk 1] ?s = Some (False, [1, 2, 3, 4], s', [])"
    by blast
  with pending_conserved [OF this] show ?thesis by auto
qed

lemma GenerateSessionId_eq:
  assumes "unat c < 2 ^ 31 - 1" "unat t < 2 ^ 43"
  shows "unat (fst (GenerateSessionId t c)) = unat t * 1000000 + (unat c + 1) mod 1000000"
proof -
  have u: "unat (c + 1) = unat c + 1"
    using assms(1) by (simp add: unat_word_ariths)
  have "unat (ucast (c + 1) :: 32 word) = unat c + 1"
    using assms(1) by (simp add: unsigned_ucast_eq take_bit_eq_mod u)
  then have "uint (ucast (c + 1) :: 32 word) = int (unat c + 1)"
    by (metis uint_nat)
  moreover have "int (unat c + 1) < 2 ^ 31"
  proof -
    have "unat c + 1 < 2 ^ 31" using assms(1) by simp
    then have "int (unat c + 1) < int (2 ^ 31)" by (simp only: of_nat_less_iff)
    then show ?thesis by simp
  qed
  ultimately have si: "sint (ucast (c + 1) :: 32 word) = int (unat c + 1)"
    by (simp add: sint_uint signed_take_bit_int_eq_self)
  have r: "(of_int (int (unat c + 1) mod 1000000) :: u64) = of_nat ((unat c + 1) mod 1000000)"
    by (metis of_int_of_nat_eq of_nat_numeral zmod_int)
  have t: "(t :: u64) * 1000000 = of_nat (unat t * 1000000)" by simp
  have "fst (GenerateSessionId t c) = t * 1000000 + of_int (int (unat c + 1) mod 1000000)"
    by (simp only: GenerateSessionId_def Let_def si fst_conv of_nat_0_le_iff if_True)
  then have f: "fst (GenerateSessionId t c) = of_nat (unat t * 1000000 + (unat c + 1) mod 1000000)"
    unfolding r t by (metis of_nat_add)
  have "(unat c + 1) mod 1000000 < 1000000" by simp
  moreover have "unat t < 8796093022208" using assms(2) by simp
  ultimately have "unat t * 1000000 + (unat c + 1) mod 1000000 < 18446744073709551616" by linarith
  then have "unat t * 1000000 + (unat c + 1) mod 1000000 < 2 ^ 64" by simp
  then have "unat (of_nat (unat t * 1000000 + (unat c + 1) mod 1000000) :: u64) =
      unat t * 1000000 + (unat c + 1) mod 1000000"
    by (intro unat_of_nat_eq) simp
  with f show ?thesis by (simp only:)
qed

text \<open>
  Session identifiers do not repeat while the counter stays below \<open>2 ^ 31\<close>, unless a million
  sessions are made within one second.
\<close>

theorem session_ids_unique:
  assumes "unat t1 < 2 ^ 43" "unat t2 < 2 ^ 43" "unat c1 < unat c2" "unat c2 < 2 ^ 31 - 1"
    and "t1 = t2 \<longrightarrow> unat c2 - unat c1 < 1000000"
  shows "fst (GenerateSessionId t1 c1) \<noteq> fst (GenerateSessionId t2 c2)"
proof
  assume "fst (GenerateSessionId t1 c1) = fst (GenerateSessionId t2 c2)"
  then have e: "unat t1 * 1000000 + (unat c1 + 1) mod 1000000 =
      unat t2 * 1000000 + (unat c2 + 1) mod 1000000"
    using GenerateSessionId_eq [of c1 t1] GenerateSessionId_eq [of c2 t2] assms by auto
  have m: "(unat c1 + 1) mod 1000000 < 1000000" "(unat c2 + 1) mod 1000000 < 1000000" by simp_all
  with e have t: "unat t1 = unat t2" by linarith
  then have "t1 = t2" by (simp only: word_unat_eq_iff)
  with assms(5) have d: "unat c2 - unat c1 < 1000000" by simp
  from e t have "(unat c1 + 1) mod 1000000 = (unat c2 + 1) mod 1000000" by simp
  then have "1000000 dvd (unat c2 + 1) - (unat c1 + 1)"
    using mod_eq_dvd_iff_nat [of "unat c1 + 1" "unat c2 + 1" 1000000] assms(3) by simp
  with d assms(3) show False by (auto dest: dvd_imp_le)
qed

theorem session_ids_unique_witness:
  "fst (GenerateSessionId 1700000000 41) \<noteq> fst (GenerateSessionId 1700000000 42)"
  by (rule session_ids_unique) simp_all

end
