(* ===== verification/Subscription.thy ===== *)
theory Subscription
  imports Std_Map
begin

text \<open>
  The contract of a table of subscriptions, shared by the forward server, the pc server and
  the topic manager of the web socket server: who receives what after any
  sequence of subscribe, unsubscribe and disconnect commands.
\<close>

datatype ('t, 'x) sub_cmd = Sub 't 'x | Unsub 't 'x | Gone 'x

text \<open>What a sequence of commands asks for: the last command about a pair decides.\<close>

fun wants :: "('t, 'x) sub_cmd list \<Rightarrow> 't \<Rightarrow> 'x \<Rightarrow> bool \<Rightarrow> bool" where
  "wants [] t x b = b"
| "wants (Sub t' x' # cs) t x b = wants cs t x (b \<or> t' = t \<and> x' = x)"
| "wants (Unsub t' x' # cs) t x b = wants cs t x (b \<and> \<not> (t' = t \<and> x' = x))"
| "wants (Gone x' # cs) t x b = wants cs t x (b \<and> x' \<noteq> x)"

locale subscription_table =
  fixes holds :: "'s \<Rightarrow> 't \<Rightarrow> 'x \<Rightarrow> bool"
    and add :: "'t \<Rightarrow> 'x \<Rightarrow> 's \<Rightarrow> 's"
    and del :: "'t \<Rightarrow> 'x \<Rightarrow> 's \<Rightarrow> 's"
    and gone :: "'x \<Rightarrow> 's \<Rightarrow> 's"
    and inv :: "'s \<Rightarrow> bool"
  assumes holds_add: "inv s \<Longrightarrow> holds (add t x s) t' x' \<longleftrightarrow> holds s t' x' \<or> t = t' \<and> x = x'"
    and holds_del: "inv s \<Longrightarrow> holds (del t x s) t' x' \<longleftrightarrow> holds s t' x' \<and> \<not> (t = t' \<and> x = x')"
    and holds_gone: "inv s \<Longrightarrow> holds (gone x s) t' x' \<longleftrightarrow> holds s t' x' \<and> x \<noteq> x'"
    and inv_add: "inv s \<Longrightarrow> inv (add t x s)"
    and inv_del: "inv s \<Longrightarrow> inv (del t x s)"
    and inv_gone: "inv s \<Longrightarrow> inv (gone x s)"
begin

fun exec :: "('t, 'x) sub_cmd \<Rightarrow> 's \<Rightarrow> 's" where
  "exec (Sub t x) s = add t x s"
| "exec (Unsub t x) s = del t x s"
| "exec (Gone x) s = gone x s"

lemma inv_exec: "inv s \<Longrightarrow> inv (exec c s)"
  by (cases c) (auto intro: inv_add inv_del inv_gone)

lemma inv_run: "inv s \<Longrightarrow> inv (fold exec cs s)"
  by (induction cs arbitrary: s) (auto intro: inv_exec)

lemma holds_exec: "inv s \<Longrightarrow> holds (exec c s) t x = wants [c] t x (holds s t x)"
  by (cases c) (auto simp: holds_add holds_del holds_gone)

lemma wants_Cons: "wants (c # cs) t x b = wants cs t x (wants [c] t x b)"
  by (cases c) auto

theorem holds_run: "inv s \<Longrightarrow> holds (fold exec cs s) t x = wants cs t x (holds s t x)"
proof (induction cs arbitrary: s)
  case (Cons c cs)
  then show ?case by (simp add: inv_exec holds_exec wants_Cons [of c cs])
qed simp

end

section \<open>Visiting a channel\<close>

text \<open>
  The loop of the publishers over the connections of a channel: a connection that accepts data is
  sent the message, and one that does not (any more) leaves the channel. \<open>w\<close> is \<open>IsCanWrite\<close>
  and \<open>f\<close> the sending of the message, with what it put out.
\<close>

fun visit ::
  "('h \<Rightarrow> bool) \<Rightarrow> ('k \<Rightarrow> 'h \<Rightarrow> ('o \<times> 'h) option) \<Rightarrow> 'o \<Rightarrow> ('k, 'u) smap \<Rightarrow> ('k \<Rightarrow> 'h) \<Rightarrow>
    (('k, 'u) smap \<times> ('k \<Rightarrow> 'h) \<times> ('k \<times> 'o) list) option" where
  "visit w f z [] h = Some ([], h, [])"
| "visit w f z (p # m) h =
     (let k = fst p in
      Option.bind (if w (h k) then f k (h k) else Some (z, h k)) (\<lambda>(out, s).
        map_option (\<lambda>(m', h', outs). (if w s then p # m' else m', h', (k, out) # outs))
          (visit w f z m (h(k := s)))))"

lemma visit_spec:
  "distinct (map fst m) \<Longrightarrow> visit w f z m h = Some (m', h', outs) \<Longrightarrow>
    m' = filter (\<lambda>p. w (h' (fst p))) m \<and> (\<forall>k. k \<notin> fst ` set m \<longrightarrow> h' k = h k) \<and>
    (\<forall>k \<in> fst ` set m. if w (h k) then \<exists>out. f k (h k) = Some (out, h' k) \<and> (k, out) \<in> set outs
      else h' k = h k)"
proof (induction m arbitrary: h m' outs)
  case (Cons p m)
  define k where "k = fst p"
  obtain out s m1 outs1 where st:
    "(if w (h k) then f k (h k) else Some (z, h k)) = Some (out, s)"
    "visit w f z m (h(k := s)) = Some (m1, h', outs1)"
    "m' = (if w s then p # m1 else m1)" "outs = (k, out) # outs1"
    using Cons.prems(2) by (auto simp: Let_def k_def bind_eq_Some_conv split: if_splits)
  have d: "k \<notin> fst ` set m" "distinct (map fst m)" using Cons.prems(1) by (simp_all add: k_def)
  note ih = Cons.IH [OF d(2) st(2)]
  then have s: "h' k = s" using d(1) by simp
  have "if w (h k) then \<exists>out. f k (h k) = Some (out, h' k) \<and> (k, out) \<in> set outs else h' k = h k"
    using st(1) s st(4) by (auto split: if_splits)
  moreover have "if w (h x) then \<exists>out. f x (h x) = Some (out, h' x) \<and> (x, out) \<in> set outs else h' x = h x"
    if x: "x \<in> fst ` set m" for x
  proof -
    have o: "(h(k := s)) x = h x" using x d(1) by auto
    have "if w ((h(k := s)) x) then \<exists>out. f x ((h(k := s)) x) = Some (out, h' x) \<and> (x, out) \<in> set outs1
      else h' x = (h(k := s)) x"
      using ih x by blast
    then show ?thesis unfolding o st(4) by (auto split: if_splits)
  qed
  ultimately show ?case using ih s st(3) by (auto simp: k_def [symmetric])
qed auto

end
