(* ===== verification/Forward_Server.thy ===== *)
theory Forward_Server
  imports Tcp_Session Ipc_Packet Jt1078_Decoder Subscription
begin

text \<open>
  The forward server of jt1078_server (jt1078/forward_server): a \<open>Subscriber\<close> is the connection of
  a pc or web server, a channel is the set of subscribers of one vehicle channel, the publisher
  relays every vehicle packet to the subscribers of its channel, and the server reacts to subscribe
  and unsubscribe packets by asking the service to open or close the vehicle's stream. The heap of
  subscriber objects is a function of the session identifier; what the service is asked to do is
  returned as a list of calls.
\<close>

section \<open>The relayed packet\<close>

text \<open>The 30 bytes of the packed \<open>header_t\<close> in memory; bit fields fill a byte from its low end.\<close>

definition sizeof_header_t :: nat where "sizeof_header_t = 30"

definition header_bytes :: "header_t \<Rightarrow> byte list" where
  "header_bytes h = w_le 4 (DWFramHeadMark h) @
     [V2 h OR push_bit 2 (P1 h) OR push_bit 3 (X1 h) OR push_bit 4 (CC4 h), M1 h OR push_bit 1 (PT7 h)] @
     w_le 2 (WdPackageSequence h) @ BCDSIMCardNumber h @
     [Bt1LogicChannelNumber h, DataType4 h OR push_bit 4 (SubpackageHandleMark4 h)] @
     w_le 8 (Bt8timeStamp h) @ w_le 2 (WdLastIFrameInterval h) @ w_le 2 (WdLastFrameInterval h) @
     w_le 2 (WdBodyLen h)"

definition header_of_mem :: "byte list \<Rightarrow> header_t" where
  "header_of_mem m = \<lparr>DWFramHeadMark = of_nat (le_nat (take 4 m)),
     V2 = (m ! 4) AND 0x3, P1 = drop_bit 2 (m ! 4) AND 0x1, X1 = drop_bit 3 (m ! 4) AND 0x1,
     CC4 = drop_bit 4 (m ! 4) AND 0xF, M1 = (m ! 5) AND 0x1, PT7 = drop_bit 1 (m ! 5) AND 0x7F,
     WdPackageSequence = of_nat (le_nat (take 2 (drop 6 m))), BCDSIMCardNumber = take 6 (drop 8 m),
     Bt1LogicChannelNumber = m ! 14, DataType4 = (m ! 15) AND 0xF,
     SubpackageHandleMark4 = drop_bit 4 (m ! 15) AND 0xF,
     Bt8timeStamp = of_nat (le_nat (take 8 (drop 16 m))),
     WdLastIFrameInterval = of_nat (le_nat (take 2 (drop 24 m))),
     WdLastFrameInterval = of_nat (le_nat (take 2 (drop 26 m))),
     WdBodyLen = of_nat (le_nat (take 2 (drop 28 m)))\<rparr>"

section \<open>Subscriber\<close>

record subscriber = tcp_session +
  sub_decoder :: ipc_decoder
  sub_last_seq :: u32
  sub_send_buffer :: "byte list"

definition subscriber_new :: "session_id \<Rightarrow> subscriber" where
  "subscriber_new sid = tcp_session.extend (tcp_session_new sid)
     (subscriber.fields ipc_decoder_new INVALID_PKT_SEQ_ID [])"

text \<open>\<open>lift_session\<close>: an operation of the base class on the derived object.\<close>

definition set_base :: "tcp_session \<Rightarrow> subscriber \<Rightarrow> subscriber" where
  "set_base b s = tcp_session.extend b
     (subscriber.fields (sub_decoder s) (sub_last_seq s) (sub_send_buffer s))"

definition base :: "subscriber \<Rightarrow> tcp_session" where
  "base s = tcp_session.truncate s"

definition Subscriber_Init ::
  "bool \<Rightarrow> nat option \<Rightarrow> int \<Rightarrow> cstring \<Rightarrow> u16 \<Rightarrow> subscriber \<Rightarrow> bool \<times> subscriber \<times> int list" where
  "Subscriber_Init ev loop fd ip port s =
     (case TcpSession_Init TcpSession_Clear ev loop fd ip port (base s) of (ok, b, closed) \<Rightarrow> (ok, set_base b s, closed))"

definition GetIpcPktSeqId :: "subscriber \<Rightarrow> u32 \<times> subscriber" where
  "GetIpcPktSeqId s =
     (let s = (if sub_last_seq s = INVALID_PKT_SEQ_ID then s\<lparr>sub_last_seq := 0\<rparr>
               else s\<lparr>sub_last_seq := sub_last_seq s + 1\<rparr>) in
      (sub_last_seq s, s))"

text \<open>\<open>InitIovecByPkt\<close>: the four pieces of a relayed packet.\<close>

definition InitIovecByPkt ::
  "jt_packet \<Rightarrow> device_id_t \<Rightarrow> subscriber \<Rightarrow> byte list list \<times> subscriber" where
  "InitIovecByPkt pkt device_id s =
     (case GetIpcPktSeqId s of (seq, s) \<Rightarrow>
        (let n = unat (WdBodyLen (m_header pkt));
             ipc_pkt = packet_new\<lparr>m_uHeadLength := of_nat sizeof_packet_t,
               m_uDataLength := of_nat (8 + sizeof_header_t + n), m_uPktSeqId := seq,
               m_uPktType := IPC_PKT_TYPE_JT1078_PACKET OR IPC_PKT_FROM_JT1078_SERVER\<rparr> in
         ([packet_header_bytes ipc_pkt, w_le 8 device_id, header_bytes (m_header pkt),
           take n (m_body pkt)], s)))"

text \<open>
  \<open>SendMsg\<close>: the return value, the bytes the kernel took, the subscriber, the unused answers. The
  first definition is what the function does once the message is in \<open>m_send_buffer\<close>.
\<close>

definition Subscriber_write ::
  "nat sys list \<Rightarrow> byte list \<Rightarrow> subscriber \<Rightarrow> (int \<times> byte list \<times> subscriber \<times> nat sys list) option"
where
  "Subscriber_write rs msg s =
     Option.bind (if EmptyPendingBuffer (base s) then Some (True, [], base s, rs)
                  else SendPendingBuffer rs (base s))
       (\<lambda>(bOk, out, b, rs).
         if \<not> bOk then
           (if ts_can_write b
            then Some (int (length msg), out, set_base (PushBackPendingBuffer msg b) s, rs)
            else Some (- 1, out, set_base b s, rs))
         else
           Option.bind (SendBuffer rs msg b) (\<lambda>(ret, nerrno, out', b, rs).
             if ret < 0 then
               (if nerrno = Some EAGAIN \<or> nerrno = Some EWOULDBLOCK
                then Some (0, out @ out', set_base (PushBackPendingBuffer msg b) s, rs)
                else Some (- 1, out @ out', set_base b s, rs))
             else if ret < int (length msg) then
               Some (ret, out @ out', set_base (PushBackPendingBuffer (drop (nat ret) msg) b) s, rs)
             else Some (int (length msg), out @ out', set_base b s, rs)))"

definition Subscriber_SendMsg ::
  "nat sys list \<Rightarrow> jt_packet \<Rightarrow> device_id_t \<Rightarrow> subscriber \<Rightarrow>
    (int \<times> byte list \<times> subscriber \<times> nat sys list) option" where
  "Subscriber_SendMsg rs pkt device_id s0 =
     (case InitIovecByPkt pkt device_id s0 of (iov, s) \<Rightarrow>
        (let msg = concat iov in Subscriber_write rs msg (s\<lparr>sub_send_buffer := msg\<rparr>)))"

datatype sub_event = PacketCompleted ipc_packet | PacketError tcp_error

text \<open>\<open>OnMessage\<close>: the callbacks it makes, in order, and the subscriber; \<open>None\<close> if it never returns.\<close>

definition Subscriber_OnMessage ::
  "byte list \<Rightarrow> subscriber \<Rightarrow> (sub_event list \<times> (fault + subscriber)) option" where
  "Subscriber_OnMessage buffer s =
     map_option (\<lambda>(ps, out). case out of
         Inl f \<Rightarrow> (map PacketCompleted ps, Inl f)
       | Inr (e, d) \<Rightarrow>
           (map PacketCompleted ps @
              (if e = ipcBufferFull then [PacketError TCP_ERROR_USER_BUFFER_FULL]
               else if e \<noteq> ipcNeedMoreData then [PacketError TCP_ERROR_INVALID_PACKET] else []),
            Inr (s\<lparr>sub_decoder := d\<rparr>)))
       (feed ipc_PushBuffer ipc_Decode ipcNoError ipc_GetPacket buffer (sub_decoder s))"

definition Subscriber_OnError :: "tcp_error \<Rightarrow> sub_event list" where
  "Subscriber_OnError e = [PacketError e]"

section \<open>Channel and publisher\<close>

type_synonym channel = "(session_id, unit) smap"
type_synonym heap = "session_id \<Rightarrow> subscriber"

text \<open>The loop of \<open>Channel::SendMsg\<close>; \<open>ans\<close> gives the kernel's answers for each connection.\<close>

fun Channel_SendMsg ::
  "(session_id \<Rightarrow> nat sys list) \<Rightarrow> jt_packet \<Rightarrow> device_id_t \<Rightarrow> channel \<Rightarrow> heap \<Rightarrow>
    (channel \<times> heap \<times> (session_id \<times> byte list) list) option" where
  "Channel_SendMsg ans pkt did [] h = Some ([], h, [])"
| "Channel_SendMsg ans pkt did (p # m) h =
     (let sid = fst p in
      Option.bind
       (if ts_can_write (h sid)
        then map_option (\<lambda>(_, out, s, _). (out, s)) (Subscriber_SendMsg (ans sid) pkt did (h sid))
        else Some ([], h sid))
       (\<lambda>(out, s).
         map_option (\<lambda>(m', h', outs).
             (if ts_can_write s then p # m' else m', h', (sid, out) # outs))
           (Channel_SendMsg ans pkt did m (h(sid := s)))))"

record forward_server =
  fs_subscribers :: channel
  fs_channels :: "(u64, channel) smap"
  fs_is_realtime :: bool

definition Publisher_Publish ::
  "(session_id \<Rightarrow> nat sys list) \<Rightarrow> u64 \<Rightarrow> jt_packet \<Rightarrow> forward_server \<Rightarrow> heap \<Rightarrow>
    (forward_server \<times> heap \<times> (session_id \<times> byte list) list) option" where
  "Publisher_Publish ans device_id pkt fs h =
     (case sm_find (fs_channels fs) device_id of
        None \<Rightarrow> Some (fs, h, [])
      | Some ch \<Rightarrow>
          map_option (\<lambda>(ch', h', outs).
              (fs\<lparr>fs_channels := sm_set device_id ch' (fs_channels fs)\<rparr>, h', outs))
            (Channel_SendMsg ans pkt device_id ch h))"

definition Publisher_CreateChannel :: "u64 \<Rightarrow> forward_server \<Rightarrow> forward_server" where
  "Publisher_CreateChannel ch fs = fs\<lparr>fs_channels := sm_set ch [] (fs_channels fs)\<rparr>"

definition Publisher_Exists :: "u64 \<Rightarrow> forward_server \<Rightarrow> bool" where
  "Publisher_Exists ch fs = (sm_find (fs_channels fs) ch \<noteq> None)"

definition Publisher_AddSubscriber :: "u64 \<Rightarrow> session_id \<Rightarrow> forward_server \<Rightarrow> forward_server" where
  "Publisher_AddSubscriber ch sid fs =
     (case sm_find (fs_channels fs) ch of
        None \<Rightarrow> fs
      | Some m \<Rightarrow> fs\<lparr>fs_channels := sm_set ch (sm_set sid () m) (fs_channels fs)\<rparr>)"

definition Publisher_DelSubscriber_from :: "u64 \<Rightarrow> session_id \<Rightarrow> forward_server \<Rightarrow> forward_server" where
  "Publisher_DelSubscriber_from ch sid fs =
     (case sm_find (fs_channels fs) ch of
        None \<Rightarrow> fs
      | Some m \<Rightarrow> fs\<lparr>fs_channels := sm_set ch (sm_erase sid m) (fs_channels fs)\<rparr>)"

definition Publisher_DelSubscriber :: "session_id \<Rightarrow> forward_server \<Rightarrow> forward_server" where
  "Publisher_DelSubscriber sid fs =
     fs\<lparr>fs_channels := map (\<lambda>(ch, m). (ch, sm_erase sid m)) (fs_channels fs)\<rparr>"

section \<open>The server\<close>

text \<open>What the server asks \<open>Jt1078Service\<close> to do.\<close>

datatype service_call = SendCommandTo808Call cstring bool bool | NotifyNoSubscriberCall cstring bool

definition NotifyOpenCarTerminal :: "u64 \<Rightarrow> forward_server \<Rightarrow> fault + service_call list" where
  "NotifyOpenCarTerminal device_id fs =
     rbind (GenerateDeviceIdStrByDeviceId device_id) (\<lambda>str.
       Inr [SendCommandTo808Call str True (fs_is_realtime fs)])"

definition NotifyCloseCarTerminal :: "u64 \<Rightarrow> forward_server \<Rightarrow> fault + service_call list" where
  "NotifyCloseCarTerminal device_id fs =
     rbind (GenerateDeviceIdStrByDeviceId device_id) (\<lambda>str.
       Inr [SendCommandTo808Call str False (fs_is_realtime fs),
            NotifyNoSubscriberCall str (fs_is_realtime fs)])"

fun release_empty ::
  "forward_server \<Rightarrow> (u64, channel) smap \<Rightarrow> fault + ((u64, channel) smap \<times> service_call list)" where
  "release_empty fs [] = Inr ([], [])"
| "release_empty fs ((ch, m) # cs) =
     (if m = [] then
        rbind (NotifyCloseCarTerminal ch fs) (\<lambda>calls.
          rbind (release_empty fs cs) (\<lambda>(cs', calls'). Inr (cs', calls @ calls')))
      else rbind (release_empty fs cs) (\<lambda>(cs', calls'). Inr ((ch, m) # cs', calls')))"

definition ReleaseChannelIfEmptySubscriber ::
  "forward_server \<Rightarrow> fault + (forward_server \<times> service_call list)" where
  "ReleaseChannelIfEmptySubscriber fs =
     rbind (release_empty fs (fs_channels fs)) (\<lambda>(cs, calls). Inr (fs\<lparr>fs_channels := cs\<rparr>, calls))"

definition IS_FROM_WEB_SERVER :: "ipc_packet \<Rightarrow> bool" where
  "IS_FROM_WEB_SERVER p = (m_uPktType p AND IPC_PKT_FROM_MASK = IPC_PKT_FROM_WEB_SERVER)"

definition ProcessPacket_Subscriber ::
  "session_id \<Rightarrow> ipc_packet \<Rightarrow> forward_server \<Rightarrow> fault + (forward_server \<times> service_call list)" where
  "ProcessPacket_Subscriber sid packet fs =
     (let device_id = GenerateDeviceIdByBuffer (m_data packet) in
      rbind (if Publisher_Exists device_id fs then Inr (fs, [])
             else rbind (if IS_FROM_WEB_SERVER packet then Inr []
                         else NotifyOpenCarTerminal device_id fs)
                    (\<lambda>calls. Inr (Publisher_CreateChannel device_id fs, calls)))
        (\<lambda>(fs, calls). Inr (Publisher_AddSubscriber device_id sid fs, calls)))"

definition ProcessPacket_UnSubscriber ::
  "session_id \<Rightarrow> ipc_packet \<Rightarrow> forward_server \<Rightarrow> fault + (forward_server \<times> service_call list)" where
  "ProcessPacket_UnSubscriber sid packet fs =
     (let device_id = GenerateDeviceIdByBuffer (m_data packet) in
      ReleaseChannelIfEmptySubscriber (Publisher_DelSubscriber_from device_id sid fs))"

definition Forward_OnPacketCompleted ::
  "session_id \<Rightarrow> ipc_packet \<Rightarrow> forward_server \<Rightarrow> fault + (forward_server \<times> service_call list)" where
  "Forward_OnPacketCompleted sid packet fs =
     (let t = m_uPktType packet AND IPC_PKT_TYPE_MASK in
      if t = IPC_PKT_TYPE_HEARTBEAT then Inr (fs, [])
      else if t = IPC_PKT_TYPE_SUBSCRIBE_DEVICE_ID then ProcessPacket_Subscriber sid packet fs
      else if t = IPC_PKT_TYPE_UNSUBSCRIBE_DEVICE_ID then ProcessPacket_UnSubscriber sid packet fs
      else Inr (fs, []))"

definition Forward_OnPacketError ::
  "session_id \<Rightarrow> tcp_error \<Rightarrow> forward_server \<Rightarrow> fault + (forward_server \<times> service_call list)" where
  "Forward_OnPacketError sid e fs =
     ReleaseChannelIfEmptySubscriber
       (Publisher_DelSubscriber sid (fs\<lparr>fs_subscribers := sm_erase sid (fs_subscribers fs)\<rparr>))"

definition Forward_OnNewConnection ::
  "bool \<Rightarrow> nat \<Rightarrow> session_id \<Rightarrow> int \<Rightarrow> cstring \<Rightarrow> u16 \<Rightarrow> forward_server \<Rightarrow> heap \<Rightarrow>
    forward_server \<times> heap \<times> int list" where
  "Forward_OnNewConnection ev loop sid fd ip port fs h =
     (case Subscriber_Init ev (Some loop) fd ip port (subscriber_new sid) of (ok, s, closed) \<Rightarrow>
        if \<not> ok then (fs, h, closed)
        else (fs\<lparr>fs_subscribers := sm_set sid () (fs_subscribers fs)\<rparr>, h(sid := s), closed))"

text \<open>A callback of one connection.\<close>

definition Forward_step ::
  "session_id \<times> sub_event \<Rightarrow> forward_server \<Rightarrow> fault + (forward_server \<times> service_call list)" where
  "Forward_step ev fs = (case ev of
       (sid, PacketCompleted p) \<Rightarrow> Forward_OnPacketCompleted sid p fs
     | (sid, PacketError e) \<Rightarrow> Forward_OnPacketError sid e fs)"

text \<open>
  Everything that happens to the server, in the order the event loop delivers it: new connections,
  the callbacks of all connections and the packets of the vehicles, each with the answers of the
  connections' kernels. A kernel that answers \<open>EINTR\<close> for ever keeps the server in its loop.
\<close>

datatype forward_event =
    FwdConnection bool nat session_id int cstring u16
  | FwdSession session_id sub_event
  | FwdPublish "session_id \<Rightarrow> nat sys list" device_id_t jt_packet

definition Forward_on ::
  "forward_event \<Rightarrow> forward_server \<times> heap \<Rightarrow> fault + ((forward_server \<times> heap) \<times> service_call list)" where
  "Forward_on ev s = (case s of (fs, h) \<Rightarrow> (case ev of
       FwdConnection ok loop sid fd ip port \<Rightarrow>
         (case Forward_OnNewConnection ok loop sid fd ip port fs h of (fs, h, _) \<Rightarrow> Inr ((fs, h), []))
     | FwdSession sid e \<Rightarrow> rbind (Forward_step (sid, e) fs) (\<lambda>(fs, calls). Inr ((fs, h), calls))
     | FwdPublish ans did pkt \<Rightarrow>
         (case Publisher_Publish ans did pkt fs h of
            None \<Rightarrow> Inl NoReturn
          | Some (fs, h, _) \<Rightarrow> Inr ((fs, h), []))))"

fun Forward_run ::
  "forward_event list \<Rightarrow> forward_server \<times> heap \<Rightarrow> fault + ((forward_server \<times> heap) \<times> service_call list)"
where
  "Forward_run [] s = Inr (s, [])"
| "Forward_run (ev # evs) s =
     rbind (Forward_on ev s) (\<lambda>(s, c). rbind (Forward_run evs s) (\<lambda>(s, c'). Inr (s, c @ c')))"

section \<open>Sending keeps every byte\<close>

lemma base_set [simp]: "base (set_base b s) = b"
  by (simp add: base_def set_base_def tcp_session.defs subscriber.defs)

lemma base_fields [simp]:
  "ts_can_write (base s) = ts_can_write s" "ts_pending (base s) = ts_pending s"
  "ts_session_id (base s) = ts_session_id s" "base (s\<lparr>sub_send_buffer := x\<rparr>) = base s"
  "base (s\<lparr>sub_last_seq := y\<rparr>) = base s"
  by (simp_all add: base_def tcp_session.defs)

lemma set_base_fields [simp]:
  "ts_can_write (set_base b s) = ts_can_write b" "ts_pending (set_base b s) = ts_pending b"
  "ts_session_id (set_base b s) = ts_session_id b"
  "sub_last_seq (set_base b s) = sub_last_seq s" "sub_decoder (set_base b s) = sub_decoder s"
  by (simp_all add: set_base_def tcp_session.defs subscriber.defs)

lemma GetIpcPktSeqId_eq: "GetIpcPktSeqId s = (sub_last_seq s + 1, s\<lparr>sub_last_seq := sub_last_seq s + 1\<rparr>)"
  by (simp add: GetIpcPktSeqId_def INVALID_PKT_SEQ_ID_def)

interpretation sub_seq: seq_counter GetIpcPktSeqId sub_last_seq
  by unfold_locales (simp_all add: GetIpcPktSeqId_eq)

text \<open>The bytes of a relayed packet, as they go on the wire.\<close>

definition relay_wire :: "subscriber \<Rightarrow> jt_packet \<times> device_id_t \<Rightarrow> byte list" where
  "relay_wire s m = concat (fst (InitIovecByPkt (fst m) (snd m) s))"

definition sub_send ::
  "nat sys list \<Rightarrow> jt_packet \<times> device_id_t \<Rightarrow> subscriber \<Rightarrow> (bool \<times> byte list \<times> subscriber \<times> nat sys list) option"
where
  "sub_send rs m s =
     map_option (\<lambda>(ret, out, s', rs'). (0 \<le> ret, out, s', rs')) (Subscriber_SendMsg rs (fst m) (snd m) s)"

lemma InitIovecByPkt_state:
  "snd (InitIovecByPkt pkt did s) = s\<lparr>sub_last_seq := sub_last_seq s + 1\<rparr>"
  by (simp add: InitIovecByPkt_def GetIpcPktSeqId_eq Let_def)

lemma Subscriber_write_conserves:
  assumes "Subscriber_write rs msg s = Some (ret, out, s', rs')"
  shows "concat (ts_pending s) @ (if 0 \<le> ret then msg else []) = out @ concat (ts_pending s') \<and>
    (ts_can_write s \<longrightarrow> (ts_can_write s' \<longleftrightarrow> 0 \<le> ret)) \<and> ts_session_id s' = ts_session_id s \<and>
    sub_last_seq s' = sub_last_seq s"
proof -
  obtain bOk o1 b rs1 where flush:
    "(if EmptyPendingBuffer (base s) then Some (True, [], base s, rs) else SendPendingBuffer rs (base s))
      = Some (bOk, o1, b, rs1)"
    using assms by (auto simp: Subscriber_write_def bind_eq_Some_conv)
  have f: "concat (ts_pending s) = o1 @ concat (ts_pending b)" "bOk \<longleftrightarrow> ts_pending b = []"
    "ts_session_id b = ts_session_id s" "ts_can_write b \<longrightarrow> ts_can_write s"
    "bOk \<Longrightarrow> ts_can_write b = ts_can_write s"
    using flush SendPendingBuffer_conserves [of rs "base s" bOk o1 b rs1]
      SendPendingBuffer_all_sent [of rs "base s" o1 b rs1]
    by (auto simp: EmptyPendingBuffer_def pending_bytes_def split: if_splits)
  show ?thesis
  proof (cases bOk)
    case False
    with assms flush f show ?thesis
      by (auto simp: Subscriber_write_def PushBackPendingBuffer_def split: if_splits)
  next
    case True
    with assms flush obtain w e o2 b2 rs2 where sb: "SendBuffer rs1 msg b = Some (w, e, o2, b2, rs2)"
      by (auto simp: Subscriber_write_def bind_eq_Some_conv)
    from sb show ?thesis
      by (cases rule: SendBuffer_cases)
        (use assms flush f True sb in \<open>auto simp: Subscriber_write_def PushBackPendingBuffer_def
          would_block_def split: if_splits\<close>)
  qed
qed

lemma Subscriber_SendMsg_conserves:
  assumes "Subscriber_SendMsg rs pkt did s = Some (ret, out, s', rs')"
  shows "concat (ts_pending s) @ (if 0 \<le> ret then relay_wire s (pkt, did) else []) =
      out @ concat (ts_pending s')"
    and "ts_can_write s \<Longrightarrow> ts_can_write s' \<longleftrightarrow> 0 \<le> ret"
    and "ts_session_id s' = ts_session_id s" and "sub_last_seq s' = sub_last_seq s + 1"
proof -
  have st: "InitIovecByPkt pkt did s = (fst (InitIovecByPkt pkt did s), s\<lparr>sub_last_seq := sub_last_seq s + 1\<rparr>)"
    by (metis InitIovecByPkt_state prod.collapse)
  have "Subscriber_write rs (relay_wire s (pkt, did))
      (s\<lparr>sub_last_seq := sub_last_seq s + 1, sub_send_buffer := relay_wire s (pkt, did)\<rparr>) = Some (ret, out, s', rs')"
    using assms by (subst (asm) Subscriber_SendMsg_def, subst (asm) st) (simp add: relay_wire_def Let_def)
  from Subscriber_write_conserves [OF this]
  show "concat (ts_pending s) @ (if 0 \<le> ret then relay_wire s (pkt, did) else []) =
      out @ concat (ts_pending s')" "ts_can_write s \<Longrightarrow> ts_can_write s' \<longleftrightarrow> 0 \<le> ret"
      "ts_session_id s' = ts_session_id s" "sub_last_seq s' = sub_last_seq s + 1"
    by simp_all
qed

interpretation sub_sender: reliable_sender sub_send relay_wire "\<lambda>s. concat (ts_pending s)"
proof
  show "concat (ts_pending s) @ relay_wire s m = out @ concat (ts_pending s')"
    if "sub_send r m s = Some (True, out, s', r')" for r m s out s' r'
    using that Subscriber_SendMsg_conserves(1) [of r "fst m" "snd m" s]
    by (fastforce simp: sub_send_def)
  show "concat (ts_pending s) = out @ concat (ts_pending s')"
    if "sub_send r m s = Some (False, out, s', r')" for r m s out s' r'
    using that Subscriber_SendMsg_conserves(1) [of r "fst m" "snd m" s]
    by (fastforce simp: sub_send_def)
qed

section \<open>What a receiver reads out of a relayed packet\<close>

text \<open>The bit fields hold values of their width.\<close>

definition header_fields_ok :: "header_t \<Rightarrow> bool" where
  "header_fields_ok h = (V2 h AND 0x3 = V2 h \<and> P1 h AND 0x1 = P1 h \<and> X1 h AND 0x1 = X1 h \<and>
     CC4 h AND 0xF = CC4 h \<and> M1 h AND 0x1 = M1 h \<and> PT7 h AND 0x7F = PT7 h \<and>
     DataType4 h AND 0xF = DataType4 h \<and> SubpackageHandleMark4 h AND 0xF = SubpackageHandleMark4 h \<and>
     length (BCDSIMCardNumber h) = 6)"

lemma field_bits:
  fixes x :: byte
  shows "x AND 0x1 = x \<Longrightarrow> bit x n \<Longrightarrow> n = 0" "x AND 0x3 = x \<Longrightarrow> bit x n \<Longrightarrow> n < 2"
    "x AND 0xF = x \<Longrightarrow> bit x n \<Longrightarrow> n < 4" "x AND 0x7F = x \<Longrightarrow> bit x n \<Longrightarrow> n < 7"
proof -
  have m: "(0x1 :: byte) = mask 1" "(0x3 :: byte) = mask 2" "(0xF :: byte) = mask 4" "(0x7F :: byte) = mask 7"
    by (simp_all add: mask_eq_decr_exp)
  have g: "x AND mask k = x \<Longrightarrow> bit x n \<Longrightarrow> n < k" for k
    by (metis bit_and_iff bit_mask_iff)
  show "x AND 0x1 = x \<Longrightarrow> bit x n \<Longrightarrow> n = 0" "x AND 0x3 = x \<Longrightarrow> bit x n \<Longrightarrow> n < 2"
    "x AND 0xF = x \<Longrightarrow> bit x n \<Longrightarrow> n < 4" "x AND 0x7F = x \<Longrightarrow> bit x n \<Longrightarrow> n < 7"
    unfolding m using g by fastforce+
qed

lemma fields_2_1_1_4:
  fixes v p x c :: byte
  assumes "v AND 0x3 = v" "p AND 0x1 = p" "x AND 0x1 = x" "c AND 0xF = c"
  defines "b \<equiv> v OR push_bit 2 p OR push_bit 3 x OR push_bit 4 c"
  shows "b AND 0x3 = v" "drop_bit 2 b AND 0x1 = p" "drop_bit 3 b AND 0x1 = x" "drop_bit 4 b AND 0xF = c"
proof -
  have m: "(0x1 :: byte) = mask 1" "(0x3 :: byte) = mask 2" "(0xF :: byte) = mask 4"
    by (simp_all add: mask_eq_decr_exp)
  note f = field_bits(2) [OF assms(1)] field_bits(1) [OF assms(2)] field_bits(1) [OF assms(3)]
    field_bits(3) [OF assms(4)]
  show "b AND 0x3 = v" "drop_bit 2 b AND 0x1 = p" "drop_bit 3 b AND 0x1 = x" "drop_bit 4 b AND 0xF = c"
    unfolding m b_def
    by (rule bit_word_eqI, use f in \<open>fastforce simp: bit_simps\<close>)+
qed

lemma fields_1_7:
  fixes m t :: byte
  assumes "m AND 0x1 = m" "t AND 0x7F = t"
  shows "(m OR push_bit 1 t) AND 0x1 = m" "drop_bit 1 (m OR push_bit 1 t) AND 0x7F = t"
proof -
  have k: "(0x1 :: byte) = mask 1" "(0x7F :: byte) = mask 7" by (simp_all add: mask_eq_decr_exp)
  show "(m OR push_bit 1 t) AND 0x1 = m" "drop_bit 1 (m OR push_bit 1 t) AND 0x7F = t"
    unfolding k
    by (rule bit_word_eqI, auto simp: bit_simps simp del: One_nat_def push_bit_Suc drop_bit_Suc
        dest: field_bits(1) [OF assms(1)] field_bits(4) [OF assms(2)])+
qed

lemma fields_4_4:
  fixes d e :: byte
  assumes "d AND 0xF = d" "e AND 0xF = e"
  shows "(d OR push_bit 4 e) AND 0xF = d" "drop_bit 4 (d OR push_bit 4 e) AND 0xF = e"
proof -
  have k: "(0xF :: byte) = mask 4" by (simp add: mask_eq_decr_exp)
  note f = field_bits(3) [OF assms(1)] field_bits(3) [OF assms(2)]
  show "(d OR push_bit 4 e) AND 0xF = d" "drop_bit 4 (d OR push_bit 4 e) AND 0xF = e"
    unfolding k by (rule bit_word_eqI, use f in \<open>fastforce simp: bit_simps\<close>)+
qed

lemma length_header_bytes: "length (BCDSIMCardNumber h) = 6 \<Longrightarrow> length (header_bytes h) = 30"
  by (simp add: header_bytes_def)

lemma header_of_pieces:
  assumes "length mk = 4" "length sq = 2" "length sim = 6" "length ts = 8" "length li = 2" "length lf = 2"
    "length bl = 2"
  shows "header_of_mem (mk @ [b4, b5] @ sq @ sim @ [ch, b15] @ ts @ li @ lf @ bl) =
    \<lparr>DWFramHeadMark = of_nat (le_nat mk), V2 = b4 AND 0x3, P1 = drop_bit 2 b4 AND 0x1,
     X1 = drop_bit 3 b4 AND 0x1, CC4 = drop_bit 4 b4 AND 0xF, M1 = b5 AND 0x1,
     PT7 = drop_bit 1 b5 AND 0x7F, WdPackageSequence = of_nat (le_nat sq), BCDSIMCardNumber = sim,
     Bt1LogicChannelNumber = ch, DataType4 = b15 AND 0xF,
     SubpackageHandleMark4 = drop_bit 4 b15 AND 0xF, Bt8timeStamp = of_nat (le_nat ts),
     WdLastIFrameInterval = of_nat (le_nat li), WdLastFrameInterval = of_nat (le_nat lf),
     WdBodyLen = of_nat (le_nat bl)\<rparr>"
  unfolding header_of_mem_def by (simp add: nth_append assms)

lemma header_memory_roundtrip:
  assumes "header_fields_ok h"
  shows "header_of_mem (header_bytes h) = h"
proof -
  have l: "length (BCDSIMCardNumber h) = 6" using assms by (simp add: header_fields_ok_def)
  show ?thesis
    unfolding header_bytes_def
      header_of_pieces [OF length_w_le length_w_le l length_w_le length_w_le length_w_le length_w_le]
    using assms unfolding header_fields_ok_def
    by (intro header_t.equality)
      (simp_all only: header_t.simps fields_2_1_1_4 fields_1_7 fields_4_4 old.unit.exhaust,
       simp_all add: word_le_roundtrip)
qed

text \<open>The ipc packet whose encoding \<open>relay_wire\<close> is.\<close>

definition relay_packet :: "u32 \<Rightarrow> jt_packet \<Rightarrow> device_id_t \<Rightarrow> ipc_packet" where
  "relay_packet seq pkt did =
     (let n = unat (WdBodyLen (m_header pkt)) in
      \<lparr>m_uHeadLength = 16, m_uDataLength = of_nat (38 + n), m_uPktSeqId = seq,
       m_uPktType = IPC_PKT_TYPE_JT1078_PACKET OR IPC_PKT_FROM_JT1078_SERVER,
       m_data = w_le 8 did @ header_bytes (m_header pkt) @ take n (m_body pkt)\<rparr>)"

lemma relay_wire_eq: "relay_wire s (pkt, did) = ipc_encode (relay_packet (sub_last_seq s + 1) pkt did)"
  by (simp add: relay_wire_def relay_packet_def InitIovecByPkt_def GetIpcPktSeqId_eq Let_def
      ipc_encode_def packet_header_bytes_def sizeof_packet_t_def sizeof_header_t_def)

definition relay_ok :: "jt_packet \<Rightarrow> bool" where
  "relay_ok pkt = (header_fields_ok (m_header pkt) \<and> unat (WdBodyLen (m_header pkt)) = length (m_body pkt)
     \<and> length (m_body pkt) \<le> JT1078_MAX_LENGTH)"

lemma relay_packet_wf:
  assumes "relay_ok pkt"
  shows "ipc_pkt_wf (relay_packet seq pkt did)" "length (m_data (relay_packet seq pkt did)) \<le> 988"
proof -
  have l: "length (m_body pkt) \<le> 950" "unat (WdBodyLen (m_header pkt)) = length (m_body pkt)"
    "length (header_bytes (m_header pkt)) = 30"
    using assms by (simp_all add: relay_ok_def jt_consts header_fields_ok_def length_header_bytes)
  have "unat (of_nat (38 + length (m_body pkt)) :: u32) = 38 + length (m_body pkt)"
    using l(1) by (intro unat_of_nat_eq) simp
  with l show "ipc_pkt_wf (relay_packet seq pkt did)" "length (m_data (relay_packet seq pkt did)) \<le> 988"
    by (simp_all add: ipc_pkt_wf_def relay_packet_def Let_def del: of_nat_add)
qed

lemma byte_and_bounds:
  fixes x :: byte
  shows "x AND 1 AND 1 = x AND 1" "x AND 3 AND 3 = x AND 3" "x AND 0xF AND 0xF = x AND 0xF"
    "x AND 0x7F AND 0x7F = x AND 0x7F"
  by (simp_all add: and.assoc)

lemma jt_parse_relay_ok:
  assumes "jt_parse s = Frame p t"
  shows "relay_ok p"
proof -
  define h where "h = jt_hdr2 (jt_hdr1 s) (drop 16 s)"
  have h: "16 \<le> length s" "unat (WdBodyLen h) \<le> JT1078_MAX_LENGTH"
    "m_header p = h" "length (m_body p) = unat (WdBodyLen h)"
    using assms by (auto simp: jt_parse_Frame Let_def h_def)
  have k: "header_fields_ok (jt_hdr2 g x) = header_fields_ok g" for g x
    by (simp add: jt_hdr2_def header_fields_ok_def)
  have "header_fields_ok (jt_hdr1 s)"
    using h(1) by (simp add: header_fields_ok_def jt_hdr1_def byte_and_bounds)
  then show ?thesis using h by (simp add: relay_ok_def k h_def)
qed

lemma jt_pkt_relay_ok: "jt_pkt_wf p \<Longrightarrow> relay_ok p"
  by (rule jt_parse_relay_ok [OF jt_parse_encode])

lemma jt_decoded_relay_ok:
  assumes "jt_rel d s" "jt_Decode d = Inr (kNoError, d')"
  shows "relay_ok (jt_GetPacket d')"
proof -
  obtain p t where p: "jt_parse s = Frame p t" "jt_GetPacket d' = p"
    using jt_Decode_decodes [OF assms(1)] assms(2)
    by (auto simp: jt_decodes_def split: frame.splits)
  then show ?thesis using jt_parse_relay_ok by simp
qed

section \<open>The server state\<close>

definition fs_inv :: "forward_server \<Rightarrow> bool" where
  "fs_inv fs \<longleftrightarrow> sm_wf (fs_channels fs) \<and> (\<forall>(ch, m) \<in> set (fs_channels fs). sm_wf m)"

definition fs_holds :: "forward_server \<Rightarrow> u64 \<Rightarrow> session_id \<Rightarrow> bool" where
  "fs_holds fs ch sid = (\<exists>m. sm_find (fs_channels fs) ch = Some m \<and> sm_find m sid = Some ())"

definition fwd_subscribe :: "u64 \<Rightarrow> session_id \<Rightarrow> forward_server \<Rightarrow> forward_server" where
  "fwd_subscribe ch sid fs =
     Publisher_AddSubscriber ch sid (if Publisher_Exists ch fs then fs else Publisher_CreateChannel ch fs)"

definition drop_empty :: "forward_server \<Rightarrow> forward_server" where
  "drop_empty fs = fs\<lparr>fs_channels := filter (\<lambda>(ch, m). m \<noteq> []) (fs_channels fs)\<rparr>"

lemma fs_inv_set:
  "fs_inv fs \<Longrightarrow> sm_wf m \<Longrightarrow> fs_inv (fs\<lparr>fs_channels := sm_set ch m (fs_channels fs)\<rparr>)"
proof -
  have "set (sm_set ch m cs) \<subseteq> insert (ch, m) (set cs)" for cs :: "(u64, channel) smap"
    by (induction ch m cs rule: sm_set.induct) auto
  then show "fs_inv fs \<Longrightarrow> sm_wf m \<Longrightarrow> fs_inv (fs\<lparr>fs_channels := sm_set ch m (fs_channels fs)\<rparr>)"
    by (fastforce simp: fs_inv_def)
qed

lemma fs_inv_find: "fs_inv fs \<Longrightarrow> sm_find (fs_channels fs) ch = Some m \<Longrightarrow> sm_wf m"
  by (auto simp: fs_inv_def dest: sm_find_in)

lemma fs_inv_ops:
  assumes "fs_inv fs"
  shows "fs_inv (fwd_subscribe ch sid fs)" "fs_inv (Publisher_DelSubscriber_from ch sid fs)"
    "fs_inv (Publisher_DelSubscriber sid fs)" "fs_inv (drop_empty fs)"
proof -
  show "fs_inv (fwd_subscribe ch sid fs)"
    using assms fs_inv_find [OF assms] fs_inv_set [OF fs_inv_set [OF assms sm_wf_Nil], of "[(sid, ())]" ch ch]
    by (auto simp: sm_wf_Cons fwd_subscribe_def Publisher_AddSubscriber_def Publisher_CreateChannel_def
        Publisher_Exists_def intro!: fs_inv_set split: option.splits)
  show "fs_inv (Publisher_DelSubscriber_from ch sid fs)"
    using assms fs_inv_find [OF assms]
    by (auto simp: Publisher_DelSubscriber_from_def intro!: fs_inv_set split: option.splits)
  show "fs_inv (Publisher_DelSubscriber sid fs)"
    using assms by (auto simp: fs_inv_def Publisher_DelSubscriber_def)
  show "fs_inv (drop_empty fs)"
    using assms by (auto simp: fs_inv_def drop_empty_def)
qed

lemma fs_holds_ops:
  assumes "fs_inv fs"
  shows "fs_holds (fwd_subscribe ch sid fs) ch' sid' \<longleftrightarrow> fs_holds fs ch' sid' \<or> ch = ch' \<and> sid = sid'"
    "fs_holds (Publisher_DelSubscriber_from ch sid fs) ch' sid' \<longleftrightarrow>
      fs_holds fs ch' sid' \<and> \<not> (ch = ch' \<and> sid = sid')"
    "fs_holds (Publisher_DelSubscriber sid fs) ch' sid' \<longleftrightarrow> fs_holds fs ch' sid' \<and> sid \<noteq> sid'"
    "fs_holds (drop_empty fs) ch' sid' \<longleftrightarrow> fs_holds fs ch' sid'"
proof -
  show "fs_holds (fwd_subscribe ch sid fs) ch' sid' \<longleftrightarrow> fs_holds fs ch' sid' \<or> ch = ch' \<and> sid = sid'"
    by (auto simp: fs_holds_def fwd_subscribe_def Publisher_AddSubscriber_def Publisher_CreateChannel_def
        Publisher_Exists_def split: option.splits if_splits)
  show "fs_holds (Publisher_DelSubscriber_from ch sid fs) ch' sid' \<longleftrightarrow>
      fs_holds fs ch' sid' \<and> \<not> (ch = ch' \<and> sid = sid')"
    by (auto simp: fs_holds_def Publisher_DelSubscriber_from_def split: option.splits if_splits)
  show "fs_holds (Publisher_DelSubscriber sid fs) ch' sid' \<longleftrightarrow> fs_holds fs ch' sid' \<and> sid \<noteq> sid'"
    by (auto simp: fs_holds_def Publisher_DelSubscriber_def split: if_splits)
  show "fs_holds (drop_empty fs) ch' sid' \<longleftrightarrow> fs_holds fs ch' sid'"
    using assms by (auto simp: fs_holds_def drop_empty_def fs_inv_def sm_find_filter split: option.splits)
qed

interpretation fwd: subscription_table fs_holds fwd_subscribe
  "\<lambda>ch sid fs. drop_empty (Publisher_DelSubscriber_from ch sid fs)"
  "\<lambda>sid fs. drop_empty (Publisher_DelSubscriber sid fs)" fs_inv
  by unfold_locales (simp_all add: fs_inv_ops fs_holds_ops)

section \<open>Publishing\<close>

lemma Channel_SendMsg_visit:
  "Channel_SendMsg ans pkt did m h = visit ts_can_write
    (\<lambda>sid s. map_option (\<lambda>(_, out, s, _). (out, s)) (Subscriber_SendMsg (ans sid) pkt did s)) [] m h"
  by (induction m arbitrary: h) (simp_all add: Let_def)

lemma Channel_SendMsg_spec:
  assumes "distinct (map fst m)" "Channel_SendMsg ans pkt did m h = Some (m', h', outs)"
  shows "m' = filter (\<lambda>p. ts_can_write (h' (fst p))) m \<and> (\<forall>sid. sid \<notin> fst ` set m \<longrightarrow> h' sid = h sid) \<and>
    (\<forall>sid \<in> fst ` set m. if ts_can_write (h sid)
      then \<exists>ret out rs'. Subscriber_SendMsg (ans sid) pkt did (h sid) = Some (ret, out, h' sid, rs') \<and>
        (sid, out) \<in> set outs
      else h' sid = h sid)"
proof -
  note v = visit_spec [OF assms(1) assms(2) [unfolded Channel_SendMsg_visit]]
  have "if ts_can_write (h sid)
      then \<exists>ret out rs'. Subscriber_SendMsg (ans sid) pkt did (h sid) = Some (ret, out, h' sid, rs') \<and>
        (sid, out) \<in> set outs
      else h' sid = h sid" if "sid \<in> fst ` set m" for sid
    using bspec [OF conjunct2 [OF conjunct2 [OF v]] that] by (auto split: if_splits)
  with v show ?thesis by blast
qed

text \<open>What publishing makes of the channels: only the one of the vehicle changes, and never vanishes.\<close>

lemma Publish_cases:
  assumes "Publisher_Publish ans did pkt fs h = Some (fs', h', outs)"
  obtains (none) "sm_find (fs_channels fs) did = None" "fs' = fs" "h' = h" "outs = []"
  | (some) m m' where "sm_find (fs_channels fs) did = Some m" "Channel_SendMsg ans pkt did m h = Some (m', h', outs)"
    "fs' = fs\<lparr>fs_channels := sm_set did m' (fs_channels fs)\<rparr>"
  using assms by (auto simp: Publisher_Publish_def split: option.splits)

lemma Publish_table:
  assumes "fs_inv fs" "Publisher_Publish ans did pkt fs h = Some (fs', h', outs)"
  shows "fs_inv fs'" "fs_holds fs' ch sid \<longleftrightarrow> fs_holds fs ch sid \<and> (did = ch \<longrightarrow> ts_can_write (h' sid))"
proof -
  have "fs_inv fs' \<and> (fs_holds fs' ch sid \<longleftrightarrow> fs_holds fs ch sid \<and> (did = ch \<longrightarrow> ts_can_write (h' sid)))"
    using assms(2)
  proof (cases rule: Publish_cases)
    case none
    with assms(1) show ?thesis by (auto simp: fs_holds_def)
  next
    case (some m m')
    have wf: "sm_wf m" using fs_inv_find [OF assms(1) some(1)] .
    then have "distinct (map fst m)" using sm_wf_distinct by (simp add: sm_keys_def)
    note spec = Channel_SendMsg_spec [OF this some(2)]
    then have f: "m' = filter (\<lambda>p. ts_can_write (h' (fst p))) m" by blast
    have "sm_wf m'" unfolding f by (rule sm_wf_filter [OF wf])
    moreover have "sm_find m' sid = Some () \<longleftrightarrow> sm_find m sid = Some () \<and> ts_can_write (h' sid)"
      unfolding f sm_find_filter [OF wf] by (auto split: option.split)
    ultimately show ?thesis
      using some assms(1) by (auto simp: fs_holds_def intro!: fs_inv_set)
  qed
  then show "fs_inv fs'" "fs_holds fs' ch sid \<longleftrightarrow> fs_holds fs ch sid \<and> (did = ch \<longrightarrow> ts_can_write (h' sid))"
    by simp_all
qed


section \<open>Runs of the server\<close>

text \<open>What an event asks of the subscription table.\<close>

definition fwd_cmd :: "session_id \<times> sub_event \<Rightarrow> (u64, session_id) sub_cmd option" where
  "fwd_cmd ev = (case ev of
       (sid, PacketError e) \<Rightarrow> Some (Gone sid)
     | (sid, PacketCompleted p) \<Rightarrow>
         (let t = m_uPktType p AND IPC_PKT_TYPE_MASK; did = GenerateDeviceIdByBuffer (m_data p) in
          if t = IPC_PKT_TYPE_SUBSCRIBE_DEVICE_ID then Some (Sub did sid)
          else if t = IPC_PKT_TYPE_UNSUBSCRIBE_DEVICE_ID then Some (Unsub did sid) else None))"

lemma release_empty_filter:
  "release_empty fs cs = Inr (cs', calls) \<Longrightarrow> cs' = filter (\<lambda>(ch, m). m \<noteq> []) cs"
  by (induction cs arbitrary: cs' calls) (auto simp: rbind_eq_Inr split: if_splits)

lemma Release_drop: "ReleaseChannelIfEmptySubscriber fs = Inr (fs', calls) \<Longrightarrow> fs' = drop_empty fs"
  by (auto simp: ReleaseChannelIfEmptySubscriber_def rbind_eq_Inr drop_empty_def
      dest: release_empty_filter)

lemma Subscribe_state:
  "ProcessPacket_Subscriber sid p fs = Inr (fs', calls) \<Longrightarrow>
    fs' = fwd_subscribe (GenerateDeviceIdByBuffer (m_data p)) sid fs"
  by (auto simp: ProcessPacket_Subscriber_def fwd_subscribe_def rbind_eq_Inr Let_def split: if_splits)

lemma fs_subscribers_irrelevant:
  "fs_holds (fs\<lparr>fs_subscribers := x\<rparr>) = fs_holds fs" "fs_inv (fs\<lparr>fs_subscribers := x\<rparr>) = fs_inv fs"
  by (auto simp: fs_holds_def fs_inv_def fun_eq_iff)

lemma Forward_step_table:
  assumes "Forward_step ev fs = Inr (fs', calls)" "fs_inv fs"
  shows "fs_inv fs' \<and> (\<forall>ch sid. fs_holds fs' ch sid \<longleftrightarrow>
    (case fwd_cmd ev of None \<Rightarrow> fs_holds fs ch sid | Some c \<Rightarrow> wants [c] ch sid (fs_holds fs ch sid)))"
proof -
  obtain sid e where ev: "ev = (sid, e)" by (cases ev)
  show ?thesis
  proof (cases e)
    case (PacketCompleted p)
    with assms ev show ?thesis
      by (auto simp: Forward_step_def Forward_OnPacketCompleted_def ProcessPacket_UnSubscriber_def fwd_cmd_def
          fs_inv_ops fs_holds_ops Let_def ipc_consts dest!: Subscribe_state Release_drop split: if_splits)
  next
    case (PacketError x)
    let ?fs = "fs\<lparr>fs_subscribers := sm_erase sid (fs_subscribers fs)\<rparr>"
    have "fs' = drop_empty (Publisher_DelSubscriber sid ?fs)"
      using assms(1) ev PacketError
      by (auto simp: Forward_step_def Forward_OnPacketError_def dest: Release_drop)
    moreover have i: "fs_inv ?fs" using assms(2) by (simp add: fs_subscribers_irrelevant)
    ultimately show ?thesis
      by (simp add: fwd_cmd_def ev PacketError fs_inv_ops [OF i] fs_inv_ops(4) [OF fs_inv_ops(3) [OF i]]
          fs_holds_ops(4) [OF fs_inv_ops(3) [OF i]] fs_holds_ops(3) [OF i] fs_subscribers_irrelevant)
  qed
qed


text \<open>The events of a run, each with the connections as they are after it.\<close>

fun Forward_trace :: "forward_event list \<Rightarrow> forward_server \<times> heap \<Rightarrow> (forward_event \<times> heap) list" where
  "Forward_trace [] s = []"
| "Forward_trace (ev # evs) s =
     (case Forward_on ev s of Inl _ \<Rightarrow> [] | Inr (s', _) \<Rightarrow> (ev, snd s') # Forward_trace evs s')"

text \<open>
  Whether \<open>sid\<close> is in channel \<open>ch\<close> after an event, given whether it was before: its own commands
  and errors decide, and a packet of the channel's vehicle drops it when it cannot be written then.
\<close>

definition routed :: "u64 \<Rightarrow> session_id \<Rightarrow> forward_event \<times> heap \<Rightarrow> bool \<Rightarrow> bool" where
  "routed ch sid t b = (case fst t of
       FwdConnection _ _ _ _ _ _ \<Rightarrow> b
     | FwdSession x e \<Rightarrow> (case fwd_cmd (x, e) of None \<Rightarrow> b | Some c \<Rightarrow> wants [c] ch sid b)
     | FwdPublish _ did _ \<Rightarrow> b \<and> (did = ch \<longrightarrow> ts_can_write (snd t sid)))"

lemma Forward_on_table:
  assumes "Forward_on ev (fs, h) = Inr ((fs', h'), calls)" "fs_inv fs"
  shows "fs_inv fs' \<and> (\<forall>ch sid. fs_holds fs' ch sid \<longleftrightarrow> routed ch sid (ev, h') (fs_holds fs ch sid))"
proof (cases ev)
  case (FwdConnection ok loop sid fd ip port)
  with assms have "fs' = fs \<or> fs' = fs\<lparr>fs_subscribers := sm_set sid () (fs_subscribers fs)\<rparr>"
    by (auto simp: Forward_on_def Forward_OnNewConnection_def split: prod.splits if_splits)
  with assms(2) show ?thesis by (auto simp: FwdConnection routed_def fs_subscribers_irrelevant)
next
  case (FwdSession sid e)
  with assms(1) have "Forward_step (sid, e) fs = Inr (fs', calls)"
    by (auto simp: Forward_on_def rbind_eq_Inr)
  from Forward_step_table [OF this assms(2)] show ?thesis by (simp add: FwdSession routed_def)
next
  case (FwdPublish ans did pkt)
  with assms(1) obtain outs where "Publisher_Publish ans did pkt fs h = Some (fs', h', outs)"
    by (auto simp: Forward_on_def split: option.splits)
  from Publish_table [OF assms(2) this] show ?thesis by (simp add: FwdPublish routed_def)
qed

lemma Forward_run_table:
  "Forward_run evs (fs, h) = Inr ((fs', h'), calls) \<Longrightarrow> fs_inv fs \<Longrightarrow>
    fs_holds fs' ch sid \<longleftrightarrow> fold (routed ch sid) (Forward_trace evs (fs, h)) (fs_holds fs ch sid)"
proof (induction evs arbitrary: fs h calls)
  case (Cons ev evs)
  then obtain fs1 h1 c1 c2 where st: "Forward_on ev (fs, h) = Inr ((fs1, h1), c1)"
    "Forward_run evs (fs1, h1) = Inr ((fs', h'), c2)"
    by (auto simp: rbind_eq_Inr)
  note one = Forward_on_table [OF st(1) Cons.prems(2)]
  from Cons.IH [OF st(2) conjunct1 [OF one]] one st(1) show ?case by simp
qed simp

text \<open>The stream of a vehicle as the commands sent for it leave it.\<close>

fun stream_open :: "service_call list \<Rightarrow> cstring \<Rightarrow> bool \<Rightarrow> bool" where
  "stream_open [] str b = b"
| "stream_open (SendCommandTo808Call s v _ # cs) str b = stream_open cs str (if s = str then v else b)"
| "stream_open (NotifyNoSubscriberCall _ _ # cs) str b = stream_open cs str b"

abbreviation dev_text :: "u64 \<Rightarrow> cstring" where
  "dev_text did \<equiv> hex_str 14 (unat did)"

lemma dev_text_inj: "unat a < 2 ^ 56 \<Longrightarrow> unat b < 2 ^ 56 \<Longrightarrow> dev_text a = dev_text b \<longleftrightarrow> a = b"
proof -
  assume "unat a < 2 ^ 56" "unat b < 2 ^ 56"
  then have "hex_acc 0 (dev_text a) = unat a" "hex_acc 0 (dev_text b) = unat b"
    by (simp_all add: hex_acc_str)
  then show ?thesis by (metis word_unat_eq_iff)
qed

lemma GenerateDeviceId_dev_text:
  assumes "unat did < 2 ^ 56"
  shows "GenerateDeviceId (dev_text did) = did"
proof -
  have "hex_acc 0 (dev_text did) = unat did" using assms by (simp add: hex_acc_str)
  moreover have "dev_text did \<noteq> []" by (metis length_hex_str length_0_conv zero_neq_numeral)
  ultimately show ?thesis
    using strtoull16_hexes(2) [of "dev_text did"] assms
    by (simp add: GenerateDeviceId_def Let_def del: hex_str.simps)
qed


definition ids_ok :: "forward_server \<Rightarrow> bool" where
  "ids_ok fs \<longleftrightarrow> (\<forall>ch \<in> set (sm_keys (fs_channels fs)). unat ch < 2 ^ 56)"

lemma release_empty_calls:
  assumes "\<forall>ch \<in> set (sm_keys cs). unat ch < 2 ^ 56"
  shows "\<exists>cs' calls. release_empty fs cs = Inr (cs', calls) \<and>
    (\<forall>did b. unat did < 2 ^ 56 \<longrightarrow>
      stream_open calls (dev_text did) b = (b \<and> (did, []) \<notin> set cs))"
  using assms
proof (induction cs)
  case (Cons p cs)
  obtain ch m where p: "p = (ch, m)" by (cases p)
  with Cons obtain cs' calls where ih: "release_empty fs cs = Inr (cs', calls)"
    "\<And>did b. unat did < 2 ^ 56 \<Longrightarrow> stream_open calls (dev_text did) b = (b \<and> (did, []) \<notin> set cs)"
    by auto
  have ch: "unat ch < 2 ^ 56" using Cons.prems by (simp add: p)
  show ?case
  proof (cases "m = []")
    case True
    let ?c = "[SendCommandTo808Call (dev_text ch) False (fs_is_realtime fs),
      NotifyNoSubscriberCall (dev_text ch) (fs_is_realtime fs)]"
    have "release_empty fs (p # cs) = Inr (cs', ?c @ calls)"
      using True ih(1)
      by (simp add: p NotifyCloseCarTerminal_def GenerateDeviceIdStrByDeviceId_eq [OF ch] res_simps
          del: hex_str.simps)
    moreover have "stream_open (?c @ calls) (dev_text did) b = (b \<and> (did, []) \<notin> set (p # cs))"
      if "unat did < 2 ^ 56" for did b
      using ih(2) [OF that] dev_text_inj [OF ch that] True
      by (simp add: p del: hex_str.simps)
    ultimately show ?thesis by blast
  next
    case False
    with ih show ?thesis by (auto simp: p res_simps)
  qed
qed auto

text \<open>A channel nobody is in, which the next release will remove.\<close>

definition channel_empty :: "u64 \<Rightarrow> forward_server \<Rightarrow> bool" where
  "channel_empty ch fs = (sm_find (fs_channels fs) ch = Some [])"

lemma drop_empty_channels:
  assumes "fs_inv fs"
  shows "Publisher_Exists did (drop_empty fs) \<longleftrightarrow> Publisher_Exists did fs \<and> \<not> channel_empty did fs"
    "\<not> channel_empty did (drop_empty fs)"
  using assms
  by (auto simp: Publisher_Exists_def channel_empty_def drop_empty_def fs_inv_def sm_find_filter split: option.splits)

lemma Release_calls:
  assumes "fs_inv fs" "ids_ok fs"
  shows "\<exists>calls. ReleaseChannelIfEmptySubscriber fs = Inr (drop_empty fs, calls) \<and>
    (\<forall>did b. unat did < 2 ^ 56 \<longrightarrow> stream_open calls (dev_text did) b = (b \<and> \<not> channel_empty did fs))"
proof -
  obtain cs' calls where r: "release_empty fs (fs_channels fs) = Inr (cs', calls)"
    "\<And>did b. unat did < 2 ^ 56 \<Longrightarrow>
      stream_open calls (dev_text did) b = (b \<and> (did, []) \<notin> set (fs_channels fs))"
    using release_empty_calls [of "fs_channels fs" fs] assms(2) by (auto simp: ids_ok_def)
  have wf: "sm_wf (fs_channels fs)" using assms(1) by (simp add: fs_inv_def)
  have "(did, []) \<in> set (fs_channels fs) \<longleftrightarrow> channel_empty did fs" for did
    unfolding channel_empty_def using sm_wf_in_find [OF wf] sm_find_in by metis
  moreover have "ReleaseChannelIfEmptySubscriber fs = Inr (drop_empty fs, calls)"
    using r(1) release_empty_filter [OF r(1)]
    by (simp add: ReleaseChannelIfEmptySubscriber_def res_simps drop_empty_def)
  ultimately show ?thesis using r(2) by auto
qed

text \<open>One event keeps the streams in step with the channels, and leaves no empty channel.\<close>

definition no_empty :: "forward_server \<Rightarrow> bool" where
  "no_empty fs \<longleftrightarrow> (\<forall>(ch, m) \<in> set (fs_channels fs). m \<noteq> [])"

lemma no_empty_iff: "fs_inv fs \<Longrightarrow> no_empty fs \<longleftrightarrow> (\<forall>ch. \<not> channel_empty ch fs)"
proof -
  assume "fs_inv fs"
  then have "(ch, []) \<in> set (fs_channels fs) \<longleftrightarrow> channel_empty ch fs" for ch
    unfolding channel_empty_def fs_inv_def using sm_wf_in_find sm_find_in by metis
  then show ?thesis by (auto simp: no_empty_def)
qed

text \<open>
  The packet names an identifier of 14 digits; a web server asks for this vehicle; an error or an
  unsubscription, after which empty channels are released.
\<close>

definition small_id :: "session_id \<times> sub_event \<Rightarrow> bool" where
  "small_id ev = (case ev of (_, PacketError _) \<Rightarrow> True
     | (_, PacketCompleted p) \<Rightarrow> unat (GenerateDeviceIdByBuffer (m_data p)) < 2 ^ 56)"

definition from_web :: "u64 \<Rightarrow> session_id \<times> sub_event \<Rightarrow> bool" where
  "from_web did ev = (case ev of (_, PacketError _) \<Rightarrow> False
     | (_, PacketCompleted p) \<Rightarrow> IS_FROM_WEB_SERVER p \<and> GenerateDeviceIdByBuffer (m_data p) = did)"

definition releases :: "session_id \<times> sub_event \<Rightarrow> bool" where
  "releases ev = (case ev of (_, PacketError _) \<Rightarrow> True
     | (_, PacketCompleted p) \<Rightarrow> m_uPktType p AND IPC_PKT_TYPE_MASK = IPC_PKT_TYPE_UNSUBSCRIBE_DEVICE_ID)"

definition small_ids :: "session_id \<times> sub_event \<Rightarrow> bool" where
  "small_ids ev = (case ev of (_, PacketError _) \<Rightarrow> True
     | (_, PacketCompleted p) \<Rightarrow> unat (GenerateDeviceIdByBuffer (m_data p)) < 2 ^ 56 \<and> \<not> IS_FROM_WEB_SERVER p)"

definition fs_ok :: "forward_server \<Rightarrow> bool" where
  "fs_ok fs = (fs_inv fs \<and> ids_ok fs \<and> no_empty fs)"

lemma set_sm_set: "set (sm_set k v m) \<subseteq> insert (k, v) (set m)"
  by (induction k v m rule: sm_set.induct) auto

lemma fs_ok_drop: "fs_inv fs \<Longrightarrow> ids_ok fs \<Longrightarrow> fs_ok (drop_empty fs)"
  using fs_inv_ops(4) [of fs]
  by (simp add: fs_ok_def ids_ok_def no_empty_def) (auto simp: drop_empty_def sm_keys_def)

lemma ids_ok_del:
  "ids_ok fs \<Longrightarrow> ids_ok (Publisher_DelSubscriber sid fs)"
  "ids_ok fs \<Longrightarrow> ids_ok (Publisher_DelSubscriber_from ch sid fs)"
  "Publisher_Exists did (Publisher_DelSubscriber sid fs) = Publisher_Exists did fs"
  "Publisher_Exists did (Publisher_DelSubscriber_from ch sid fs) = Publisher_Exists did fs"
proof -
  show "ids_ok fs \<Longrightarrow> ids_ok (Publisher_DelSubscriber sid fs)"
    by (simp add: ids_ok_def Publisher_DelSubscriber_def)
  show "ids_ok fs \<Longrightarrow> ids_ok (Publisher_DelSubscriber_from ch sid fs)"
    using sm_find_None [of "fs_channels fs" ch]
    by (auto simp: ids_ok_def Publisher_DelSubscriber_from_def split: option.splits)
  show "Publisher_Exists did (Publisher_DelSubscriber sid fs) = Publisher_Exists did fs"
    by (simp add: Publisher_Exists_def Publisher_DelSubscriber_def)
  show "Publisher_Exists did (Publisher_DelSubscriber_from ch sid fs) = Publisher_Exists did fs"
    by (auto simp: Publisher_Exists_def Publisher_DelSubscriber_from_def split: option.splits)
qed

lemma sm_set_twice: "sm_set k v (sm_set k w m) = sm_set k v m"
  by (induction k w m rule: sm_set.induct) auto

lemma fwd_subscribe_channels:
  "fs_channels (fwd_subscribe ch sid fs) =
    sm_set ch (sm_set sid () (case sm_find (fs_channels fs) ch of None \<Rightarrow> [] | Some m \<Rightarrow> m)) (fs_channels fs)"
  by (cases "sm_find (fs_channels fs) ch")
    (simp_all add: fwd_subscribe_def Publisher_AddSubscriber_def Publisher_CreateChannel_def
      Publisher_Exists_def sm_set_twice)

lemma fs_ok_subscribe:
  assumes "fs_ok fs" "unat ch < 2 ^ 56"
  shows "fs_ok (fwd_subscribe ch sid fs)"
    "Publisher_Exists did (fwd_subscribe ch sid fs) \<longleftrightarrow> Publisher_Exists did fs \<or> did = ch"
proof -
  have n: "sm_set sid () m \<noteq> []" for m by (cases m) (auto split: if_splits)
  have "no_empty (fwd_subscribe ch sid fs)"
  proof -
    define x where "x = sm_set sid () (case sm_find (fs_channels fs) ch of None \<Rightarrow> [] | Some m \<Rightarrow> m)"
    have "m \<noteq> []" if "(c, m) \<in> set (sm_set ch x (fs_channels fs))" for c m
    proof -
      have "(c, m) = (ch, x) \<or> (c, m) \<in> set (fs_channels fs)"
        using that set_sm_set [of ch x "fs_channels fs"] by blast
      moreover have "x \<noteq> []" unfolding x_def by (rule n)
      ultimately show ?thesis using assms(1) by (auto simp: fs_ok_def no_empty_def)
    qed
    then show ?thesis unfolding no_empty_def fwd_subscribe_channels x_def [symmetric] by auto
  qed
  then show "fs_ok (fwd_subscribe ch sid fs)"
    using assms fs_inv_ops(1) [of fs ch sid]
    by (simp add: fs_ok_def) (auto simp: ids_ok_def fwd_subscribe_channels)
  show "Publisher_Exists did (fwd_subscribe ch sid fs) \<longleftrightarrow> Publisher_Exists did fs \<or> did = ch"
    by (auto simp: Publisher_Exists_def fwd_subscribe_channels)
qed

lemma channel_empty_ops:
  "channel_empty did (fwd_subscribe ch sid fs) \<longleftrightarrow> channel_empty did fs \<and> did \<noteq> ch"
  "Publisher_Exists did (fwd_subscribe ch sid fs) \<longleftrightarrow> Publisher_Exists did fs \<or> did = ch"
  "ids_ok fs \<Longrightarrow> unat ch < 2 ^ 56 \<Longrightarrow> ids_ok (fwd_subscribe ch sid fs)"
proof -
  have n: "sm_set sid () m \<noteq> []" for m by (cases m) (auto split: if_splits)
  show "channel_empty did (fwd_subscribe ch sid fs) \<longleftrightarrow> channel_empty did fs \<and> did \<noteq> ch"
    by (auto simp: channel_empty_def fwd_subscribe_channels n)
qed (auto simp: Publisher_Exists_def fwd_subscribe_channels ids_ok_def)

text \<open>What one callback tells the 808 server, and which channels it leaves.\<close>

definition step_calls :: "session_id \<times> sub_event \<Rightarrow> forward_server \<Rightarrow> forward_server \<Rightarrow> service_call list \<Rightarrow> bool" where
  "step_calls ev fs fs' calls \<longleftrightarrow> ids_ok fs' \<and>
     (\<forall>did. unat did < 2 ^ 56 \<longrightarrow>
        (\<forall>b. (b \<longrightarrow> Publisher_Exists did fs) \<longrightarrow> stream_open calls (dev_text did) b \<longrightarrow> Publisher_Exists did fs') \<and>
        (\<not> from_web did ev \<longrightarrow> stream_open calls (dev_text did) (Publisher_Exists did fs) = Publisher_Exists did fs')) \<and>
     (\<forall>did. releases ev \<or> \<not> channel_empty did fs \<longrightarrow> \<not> channel_empty did fs')"

lemma step_calls_release:
  assumes "fs_inv fs0" "ids_ok fs0" "\<And>did. Publisher_Exists did fs0 = Publisher_Exists did fs"
  shows "\<exists>calls. ReleaseChannelIfEmptySubscriber fs0 = Inr (drop_empty fs0, calls) \<and>
    step_calls ev fs (drop_empty fs0) calls"
proof -
  obtain calls where c: "ReleaseChannelIfEmptySubscriber fs0 = Inr (drop_empty fs0, calls)"
    "\<And>did b. unat did < 2 ^ 56 \<Longrightarrow> stream_open calls (dev_text did) b = (b \<and> \<not> channel_empty did fs0)"
    using Release_calls [OF assms(1,2)] by blast
  have "ids_ok (drop_empty fs0)" using fs_ok_drop [OF assms(1,2)] by (simp add: fs_ok_def)
  then have "step_calls ev fs (drop_empty fs0) calls"
    using drop_empty_channels [OF assms(1)]
    by (auto simp: step_calls_def c(2) assms(3) simp del: hex_str.simps)
  with c(1) show ?thesis by blast
qed

lemma Forward_step_calls:
  assumes "fs_inv fs" "ids_ok fs" "small_id ev"
  shows "\<exists>fs' calls. Forward_step ev fs = Inr (fs', calls) \<and> step_calls ev fs fs' calls"
proof -
  obtain sid e where ev: "ev = (sid, e)" by (cases ev)
  show ?thesis
  proof (cases e)
    case (PacketError x)
    let ?fs = "Publisher_DelSubscriber sid (fs\<lparr>fs_subscribers := sm_erase sid (fs_subscribers fs)\<rparr>)"
    have i: "fs_inv ?fs" "ids_ok ?fs" "\<And>did. Publisher_Exists did ?fs = Publisher_Exists did fs"
      using assms(1,2) by (auto simp: fs_inv_ops fs_subscribers_irrelevant ids_ok_del)
        (simp_all add: ids_ok_def Publisher_Exists_def Publisher_DelSubscriber_def)
    from step_calls_release [OF i, of ev] show ?thesis
      by (auto simp: Forward_step_def ev PacketError Forward_OnPacketError_def simp del: hex_str.simps)
  next
    case (PacketCompleted p)
    define did where "did = GenerateDeviceIdByBuffer (m_data p)"
    have d: "unat did < 2 ^ 56" using assms(3) by (simp add: small_id_def ev PacketCompleted did_def)
    consider (sub) "m_uPktType p AND IPC_PKT_TYPE_MASK = IPC_PKT_TYPE_SUBSCRIBE_DEVICE_ID"
      | (unsub) "m_uPktType p AND IPC_PKT_TYPE_MASK = IPC_PKT_TYPE_UNSUBSCRIBE_DEVICE_ID"
      | (other) "m_uPktType p AND IPC_PKT_TYPE_MASK \<noteq> IPC_PKT_TYPE_SUBSCRIBE_DEVICE_ID"
          "m_uPktType p AND IPC_PKT_TYPE_MASK \<noteq> IPC_PKT_TYPE_UNSUBSCRIBE_DEVICE_ID" by blast
    then show ?thesis
    proof cases
      case sub
      let ?calls = "if Publisher_Exists did fs \<or> IS_FROM_WEB_SERVER p then []
        else [SendCommandTo808Call (dev_text did) True (fs_is_realtime fs)]"
      have "Forward_step ev fs = Inr (fwd_subscribe did sid fs, ?calls)"
        using sub d by (simp add: Forward_step_def ev PacketCompleted Forward_OnPacketCompleted_def
            ProcessPacket_Subscriber_def did_def [symmetric] Let_def res_simps NotifyOpenCarTerminal_def
            GenerateDeviceIdStrByDeviceId_eq fwd_subscribe_def ipc_consts del: hex_str.simps)
      moreover have "stream_open ?calls (dev_text x) b \<longleftrightarrow>
          b \<or> x = did \<and> \<not> Publisher_Exists did fs \<and> \<not> IS_FROM_WEB_SERVER p" if "unat x < 2 ^ 56" for x b
        using dev_text_inj [OF d that] by (auto simp del: hex_str.simps)
      moreover have "\<not> releases ev" "from_web x ev \<longleftrightarrow> IS_FROM_WEB_SERVER p \<and> did = x" for x
        using sub by (simp_all add: releases_def from_web_def ev PacketCompleted did_def ipc_consts)
      ultimately show ?thesis
        using channel_empty_ops(3) [OF assms(2) d] unfolding step_calls_def
        by (auto simp: channel_empty_ops(1,2) simp del: hex_str.simps)
    next
      case unsub
      let ?fs = "Publisher_DelSubscriber_from did sid fs"
      have i: "fs_inv ?fs" "ids_ok ?fs" "\<And>x. Publisher_Exists x ?fs = Publisher_Exists x fs"
        using assms(1,2) by (simp_all add: fs_inv_ops ids_ok_del)
      from step_calls_release [OF i, of ev] unsub show ?thesis
        by (auto simp: Forward_step_def ev PacketCompleted Forward_OnPacketCompleted_def did_def
            ProcessPacket_UnSubscriber_def ipc_consts)
    next
      case other
      with assms(2) show ?thesis
        by (auto simp: Forward_step_def ev PacketCompleted Forward_OnPacketCompleted_def Let_def step_calls_def
            releases_def simp del: hex_str.simps)
    qed
  qed
qed

lemma Forward_step_streams:
  assumes "fs_ok fs" "small_ids ev"
  shows "\<exists>fs' calls. Forward_step ev fs = Inr (fs', calls) \<and> fs_ok fs' \<and>
    (\<forall>did. unat did < 2 ^ 56 \<longrightarrow>
      stream_open calls (dev_text did) (Publisher_Exists did fs) = Publisher_Exists did fs')"
proof -
  have i: "fs_inv fs" "ids_ok fs" "small_id ev" "\<And>did. \<not> from_web did ev"
    using assms by (auto simp: fs_ok_def small_ids_def small_id_def from_web_def split: prod.splits sub_event.splits)
  obtain fs' calls where st: "Forward_step ev fs = Inr (fs', calls)" "step_calls ev fs fs' calls"
    using Forward_step_calls [OF i(1-3)] by blast
  have "fs_inv fs'" using Forward_step_table [OF st(1) i(1)] ..
  moreover from this have "no_empty fs'"
    using st(2) assms(1) by (auto simp: no_empty_iff step_calls_def fs_ok_def)
  ultimately show ?thesis using st i(4) by (simp add: fs_ok_def step_calls_def del: hex_str.simps)
qed






text \<open>A channel that exists and is not empty holds somebody.\<close>

lemma channel_holds: "(\<exists>sid. fs_holds fs did sid) \<longleftrightarrow> Publisher_Exists did fs \<and> \<not> channel_empty did fs"
proof -
  have "\<exists>sid. sm_find m sid = Some ()" if "m \<noteq> []" for m :: channel
    using that by (cases m) (auto intro: exI)
  then show ?thesis by (fastforce simp: Publisher_Exists_def fs_holds_def channel_empty_def)
qed

lemma fs_ok_holds: "fs_ok fs \<Longrightarrow> Publisher_Exists did fs \<longleftrightarrow> (\<exists>sid. fs_holds fs did sid)"
  by (auto simp: channel_holds fs_ok_def no_empty_iff)

section \<open>Properties\<close>

text \<open>
  C8. Routing. After any run of the server, its events being new connections, the packets and errors
  of all connections and the packets of the vehicles, interleaved anyhow and with any answers of the
  kernel, a subscriber is in the channel of a vehicle exactly if its last command about that vehicle
  was to subscribe, it has had no error since, and no packet of that vehicle has been published
  since that left its connection unwritable; commands of others, the packets of other vehicles and
  the release of empty channels change nothing. (\<open>routed\<close> reads this off the trace of the run, the
  events and what the kernel made of the connections.)
\<close>

theorem forward_routing:
  assumes "fs_inv fs" "Forward_run evs (fs, h) = Inr ((fs', h'), calls)"
  shows "fs_holds fs' ch sid \<longleftrightarrow> fold (routed ch sid) (Forward_trace evs (fs, h)) (fs_holds fs ch sid)"
  using Forward_run_table [OF assms(2,1)] .

definition sub_packet :: "u32 \<Rightarrow> cstring \<Rightarrow> ipc_packet" where
  "sub_packet t txt = \<lparr>m_uHeadLength = 16, m_uDataLength = of_nat (length txt), m_uPktSeqId = 0,
     m_uPktType = t, m_data = txt\<rparr>"

definition fs_empty :: forward_server where
  "fs_empty = \<lparr>fs_subscribers = [], fs_channels = [], fs_is_realtime = True\<rparr>"

lemma fs_empty_ok: "fs_ok fs_empty"
  by (simp add: fs_ok_def fs_inv_def ids_ok_def no_empty_def fs_empty_def)

lemma sample_id: "GenerateDeviceIdByBuffer (ascii ''5'') = 5"
  by (simp add: GenerateDeviceIdByBuffer_def ascii_def strtoull16_def is_space_def skip_sign_def skip_0x_def
      hex_value_def of_char_def)

definition heap_one :: heap where
  "heap_one = (\<lambda>sid. (subscriber_new sid)\<lparr>ts_can_write := True\<rparr>)"

lemma heap_one_fields: "ts_pending (heap_one sid) = []" "ts_can_write (heap_one sid)"
  by (simp_all add: heap_one_def subscriber_new_def tcp_session_new_def tcp_session.defs subscriber.defs)

text \<open>Sending on a connection with nothing pending: the one answer of the kernel decides.\<close>

lemma SendMsg_one_answer:
  assumes "ts_pending s = []"
  shows "\<exists>out s'. Subscriber_SendMsg [SysErr EOther] pkt did s = Some (- 1, out, s', []) \<and> \<not> ts_can_write s'"
    "\<exists>ret out s'. Subscriber_SendMsg [SysOk n] pkt did s = Some (ret, out, s', []) \<and> ts_can_write s' = ts_can_write s"
  using assms
  by (auto simp: Subscriber_SendMsg_def InitIovecByPkt_def GetIpcPktSeqId_eq Let_def Subscriber_write_def
      EmptyPendingBuffer_def SendBuffer_def would_block_def PushBackPendingBuffer_def)

definition fwd_sample :: "session_id \<Rightarrow> sub_event" where
  "fwd_sample sid = PacketCompleted (sub_packet 0x30002 (ascii ''5''))"

lemma fwd_sample_simps:
  "small_id (sid, fwd_sample x)" "\<not> from_web did (sid, fwd_sample x)" "\<not> releases (sid, fwd_sample x)"
  "fwd_cmd (sid, fwd_sample x) = Some (Sub 5 sid)"
  by (simp_all add: small_id_def from_web_def releases_def fwd_cmd_def fwd_sample_def sub_packet_def sample_id
      IS_FROM_WEB_SERVER_def ipc_consts)

lemma fwd_sample_step:
  assumes "fs_inv fs" "ids_ok fs"
  shows "\<exists>c. Forward_step (sid, fwd_sample x) fs = Inr (fwd_subscribe 5 sid fs, c)"
proof -
  have "Forward_step (sid, fwd_sample x) fs = ProcessPacket_Subscriber sid (sub_packet 0x30002 (ascii ''5'')) fs"
    by (simp add: Forward_step_def fwd_sample_def Forward_OnPacketCompleted_def sub_packet_def ipc_consts)
  moreover obtain fs' c where "Forward_step (sid, fwd_sample x) fs = Inr (fs', c)"
    using Forward_step_calls [OF assms, of "(sid, fwd_sample x)"] fwd_sample_simps(1) by blast
  moreover have "fs' = fwd_subscribe 5 sid fs"
    using Subscribe_state [of sid "sub_packet 0x30002 (ascii ''5'')" fs fs' c] calculation
    by (simp add: sub_packet_def sample_id)
  ultimately show ?thesis by blast
qed

text \<open>Two subscribers, one of which has gone away when the vehicle's next packet comes.\<close>

definition fwd_run_sample :: "forward_event list" where
  "fwd_run_sample = [FwdSession 7 (fwd_sample 7), FwdSession 8 (fwd_sample 8),
     FwdPublish (\<lambda>sid. if sid = 7 then [SysErr EOther] else [SysOk 40]) 5 jt_sample]"

lemma fwd_run_sample_result:
  "\<exists>fs' h' calls. Forward_run fwd_run_sample (fs_empty, heap_one) = Inr ((fs', h'), calls) \<and>
    (\<exists>h1 h2. Forward_trace fwd_run_sample (fs_empty, heap_one) =
      [(FwdSession 7 (fwd_sample 7), h1), (FwdSession 8 (fwd_sample 8), h2),
       (FwdPublish (\<lambda>sid. if sid = 7 then [SysErr EOther] else [SysOk 40]) 5 jt_sample, h')]) \<and>
    \<not> ts_can_write (h' 7) \<and> ts_can_write (h' 8)"
proof -
  define fs1 where "fs1 = fwd_subscribe 5 7 fs_empty"
  define fs2 where "fs2 = fwd_subscribe 5 8 fs1"
  have ok: "fs_ok fs1" unfolding fs1_def by (rule fs_ok_subscribe(1) [OF fs_empty_ok]) simp
  obtain c1 c2 where s1: "Forward_step (7, fwd_sample 7) fs_empty = Inr (fs1, c1)"
    and s2: "Forward_step (8, fwd_sample 8) fs1 = Inr (fs2, c2)"
    using fwd_sample_step [of fs_empty 7 7] fwd_sample_step [of fs1 8 8] fs_empty_ok ok
    by (auto simp: fs_ok_def fs1_def [symmetric] fs2_def)
  have ch: "sm_find (fs_channels fs2) 5 = Some [(7, ()), (8, ())]"
    by (simp add: fs2_def fs1_def fwd_subscribe_channels fs_empty_def)
  obtain o7 h7 where a7: "Subscriber_SendMsg [SysErr EOther] jt_sample 5 (heap_one 7) = Some (- 1, o7, h7, [])"
    "\<not> ts_can_write h7" using SendMsg_one_answer(1) [OF heap_one_fields(1)] by blast
  obtain r8 o8 h8 where a8: "Subscriber_SendMsg [SysOk 40] jt_sample 5 (heap_one 8) = Some (r8, o8, h8, [])"
    "ts_can_write h8" using SendMsg_one_answer(2) [OF heap_one_fields(1)] heap_one_fields(2) by blast
  show ?thesis
    using s1 s2 ch a7 a8 heap_one_fields(2)
    by (simp add: fwd_run_sample_def Forward_on_def res_simps Publisher_Publish_def)
qed

theorem forward_routing_witness:
  "\<exists>fs' h' calls. Forward_run fwd_run_sample (fs_empty, heap_one) = Inr ((fs', h'), calls) \<and>
    fs_holds fs' 5 8 \<and> \<not> fs_holds fs' 5 7"
proof -
  obtain fs' h' calls h1 h2 where
    r: "Forward_run fwd_run_sample (fs_empty, heap_one) = Inr ((fs', h'), calls)"
    "Forward_trace fwd_run_sample (fs_empty, heap_one) =
      [(FwdSession 7 (fwd_sample 7), h1), (FwdSession 8 (fwd_sample 8), h2),
       (FwdPublish (\<lambda>sid. if sid = 7 then [SysErr EOther] else [SysOk 40]) 5 jt_sample, h')]"
    "\<not> ts_can_write (h' 7)" "ts_can_write (h' 8)"
    using fwd_run_sample_result by blast
  have "fs_inv fs_empty" using fs_empty_ok by (simp add: fs_ok_def)
  from forward_routing [OF this r(1), of 5] r show ?thesis
    by (auto simp: r(2) routed_def fwd_sample_simps)
qed



text \<open>
  C11. Publishing. When the kernel answers all calls, a vehicle packet is handed to every subscriber of
  the channel that is still writable then, whole and in order behind what was still pending, whatever
  one connection's kernel answers to the others; a subscriber that can no longer be written leaves the
  channel, and nobody else is touched.
\<close>

theorem publish_delivers:
  assumes "fs_inv fs" "Publisher_Publish ans did pkt fs h = Some (fs', h', outs)"
  shows "(\<forall>sid. fs_holds fs did sid \<and> ts_can_write (h' sid) \<longrightarrow>
      fs_holds fs' did sid \<and> (\<exists>out. (sid, out) \<in> set outs \<and>
        concat (ts_pending (h sid)) @ relay_wire (h sid) (pkt, did) = out @ concat (ts_pending (h' sid))))
    \<and> (\<forall>sid. \<not> ts_can_write (h' sid) \<longrightarrow> \<not> fs_holds fs' did sid)
    \<and> (\<forall>sid. \<not> fs_holds fs did sid \<longrightarrow> h' sid = h sid)"
proof (cases "sm_find (fs_channels fs) did")
  case None
  with assms(2) show ?thesis by (auto simp: Publisher_Publish_def fs_holds_def)
next
  case (Some m)
  with assms(2) obtain m' where m': "Channel_SendMsg ans pkt did m h = Some (m', h', outs)"
    "fs' = fs\<lparr>fs_channels := sm_set did m' (fs_channels fs)\<rparr>"
    by (auto simp: Publisher_Publish_def)
  have wf: "sm_wf m" using fs_inv_find [OF assms(1) Some] .
  then have "distinct (map fst m)" using sm_wf_distinct by (simp add: sm_keys_def)
  note spec = Channel_SendMsg_spec [OF this m'(1)]
  have h1: "fs_holds fs did sid \<longleftrightarrow> sid \<in> fst ` set m" for sid
    using sm_find_None [of m sid] by (auto simp: fs_holds_def Some sm_keys_def)
  have h2: "fs_holds fs' did sid \<longleftrightarrow> sid \<in> fst ` set m \<and> ts_can_write (h' sid)" for sid
  proof -
    have "fs_holds fs' did sid \<longleftrightarrow> sid \<in> set (sm_keys m')"
      using sm_find_None [of m' sid] by (auto simp: fs_holds_def m'(2))
    then show ?thesis using spec by (auto simp: sm_keys_def)
  qed
  have "\<exists>out. (sid, out) \<in> set outs \<and>
      concat (ts_pending (h sid)) @ relay_wire (h sid) (pkt, did) = out @ concat (ts_pending (h' sid))"
    if "sid \<in> fst ` set m" "ts_can_write (h' sid)" for sid
  proof -
    have w: "ts_can_write (h sid)" using spec that by (metis (full_types))
    with spec that obtain ret out rs' where
      r: "Subscriber_SendMsg (ans sid) pkt did (h sid) = Some (ret, out, h' sid, rs')" "(sid, out) \<in> set outs"
      by metis
    show ?thesis
      using Subscriber_SendMsg_conserves(1,2) [OF r(1)] w that(2) r(2) by auto
  qed
  then show ?thesis using spec by (simp add: h1 h2)
qed

definition fs_one :: forward_server where
  "fs_one = fwd_subscribe 5 8 fs_empty"

lemma SendMsg_returns:
  "ts_pending s = [] \<Longrightarrow> \<exists>ret out s' rs'. Subscriber_SendMsg [SysOk n] pkt did s = Some (ret, out, s', rs')"
  by (simp add: Subscriber_SendMsg_def InitIovecByPkt_def GetIpcPktSeqId_eq Let_def Subscriber_write_def
      EmptyPendingBuffer_def SendBuffer_def)

theorem publish_delivers_witness:
  "\<exists>fs' h' outs. Publisher_Publish (\<lambda>_. [SysOk 40]) 5 jt_sample fs_one heap_one = Some (fs', h', outs) \<and>
    (ts_can_write (h' 8) \<longrightarrow> (\<exists>out. (8, out) \<in> set outs \<and>
      relay_wire (heap_one 8) (jt_sample, 5) = out @ concat (ts_pending (h' 8))))"
proof -
  have ch: "sm_find (fs_channels fs_one) 5 = Some [(8, ())]"
    by (simp add: fs_one_def fwd_subscribe_channels fs_empty_def)
  have p: "ts_pending (heap_one 8) = []" "ts_can_write (heap_one 8)"
    by (simp_all add: heap_one_def subscriber_new_def tcp_session_new_def tcp_session.defs subscriber.defs)
  obtain ret out s' rs' where "Subscriber_SendMsg [SysOk 40] jt_sample 5 (heap_one 8) = Some (ret, out, s', rs')"
    using SendMsg_returns [OF p(1)] by blast
  then obtain fs' h' outs where
    r: "Publisher_Publish (\<lambda>_. [SysOk 40]) 5 jt_sample fs_one heap_one = Some (fs', h', outs)"
    using p ch by (simp add: Publisher_Publish_def)
  have "fs_inv fs_one"
    using fs_ok_subscribe(1) [OF fs_empty_ok, of 5 8] by (simp add: fs_one_def fs_ok_def)
  moreover have "fs_holds fs_one 5 8" using ch by (simp add: fs_holds_def)
  ultimately show ?thesis using publish_delivers [OF _ r] r p(1) by fastforce
qed

text \<open>
  End to end. A packet that the vehicle's session decoded, relayed through a subscriber's
  connection, is one well-formed ipc packet within the receiver's limit of 1008 bytes, and the
  receiver reads the vehicle's identifier, header and body out of its data unchanged.
\<close>

theorem relay_end_to_end:
  assumes "jt_rel d s" "jt_Decode d = Inr (kNoError, d')"
  defines "pkt \<equiv> jt_GetPacket d'"
  shows "\<exists>p. ipc_parse (relay_wire sub (pkt, did) @ t) = Frame p t \<and> length (m_data p) \<le> 1008 \<and>
    m_uPktType p AND IPC_PKT_TYPE_MASK = IPC_PKT_TYPE_JT1078_PACKET \<and>
    of_nat (le_nat (take 8 (m_data p))) = did \<and>
    header_of_mem (take 30 (drop 8 (m_data p))) = m_header pkt \<and> drop 38 (m_data p) = m_body pkt"
proof -
  have ok: "relay_ok pkt" unfolding pkt_def by (rule jt_decoded_relay_ok [OF assms(1,2)])
  let ?p = "relay_packet (sub_last_seq sub + 1) pkt did"
  have h: "length (header_bytes (m_header pkt)) = 30" "header_fields_ok (m_header pkt)"
    "unat (WdBodyLen (m_header pkt)) = length (m_body pkt)"
    using ok by (simp_all add: relay_ok_def header_fields_ok_def length_header_bytes)
  have "ipc_parse (relay_wire sub (pkt, did) @ t) = Frame ?p t"
    unfolding relay_wire_eq by (rule ipc_parse_encode) (rule relay_packet_wf(1) [OF ok])
  moreover have "length (m_data ?p) \<le> 1008" using relay_packet_wf(2) [OF ok, of "sub_last_seq sub + 1" did] by simp
  moreover have "m_data ?p = w_le 8 did @ header_bytes (m_header pkt) @ m_body pkt"
    using h(3) by (simp add: relay_packet_def Let_def)
  moreover have "m_uPktType ?p AND IPC_PKT_TYPE_MASK = IPC_PKT_TYPE_JT1078_PACKET"
    by (simp add: relay_packet_def Let_def ipc_consts)
  ultimately show ?thesis
    using h header_memory_roundtrip [OF h(2)] by (intro exI [of _ ?p]) (simp add: word_le_roundtrip)
qed

theorem relay_end_to_end_witness:
  "\<exists>d' p. jt_Decode (snd (jt_push (jt_encode jt_sample) jt_decoder_new)) = Inr (kNoError, d') \<and>
    ipc_parse (relay_wire (heap_one 8) (jt_GetPacket d', 5)) = Frame p [] \<and> length (m_data p) \<le> 1008"
proof -
  let ?d = "snd (jt_push (jt_encode jt_sample) jt_decoder_new)"
  have "ReadableBytes (jd_buffer jt_decoder_new) = 0"
    using jtd.unread_le [OF jt_rel_new] by simp
  then have r: "jt_rel ?d (jt_encode jt_sample)"
    using jtd.push_room [OF jt_rel_new, of "jt_encode jt_sample"] by (auto simp: jt_sample_len)
  moreover have "jt_parse (jt_encode jt_sample) = Frame jt_sample []"
    using jt_parse_encode [OF jt_sample_wf, of "[]"] by simp
  ultimately obtain d' where d: "jt_Decode ?d = Inr (kNoError, d')"
    using jtd.decode_Frame by blast
  from relay_end_to_end [OF r d, of "heap_one 8" 5 "[]"] d show ?thesis by auto
qed

end
