(* ===== verification/Jt1078_Server.thy ===== *)
theory Jt1078_Server
  imports Forward_Server
begin

text \<open>
  The vehicle side of jt1078_server and the service that ties it to the forward servers
  (jt1078/jt1078_server/CarManager.cpp, CarSession.cpp, Jt1078Server.cpp, jt1078/Jt1078Service.cpp,
  core/traffic/TrafficStat.h): the table of vehicle sessions, the session that decodes a vehicle's
  stream and learns its identifier from the first packet, the commands for the 808 server that go to
  redis, and the disconnection of vehicles nobody watches. The text of a JSON object is what the JSON
  library makes of it, an argument \<open>dump\<close> that may fail.
\<close>

section \<open>Vehicle sessions\<close>

datatype car_cause = UnknownCause | RemoteClose | ReadError | InvalidJt1078Pkt | InvalidDeviceId
  | FirstReceiveTimeout | HandlerError | WebClose | SrsPublishError | KickCar | NoSubscriber | OtherCause

record traffic_stat =
  tf_start_time_ms :: nat
  tf_read_bytes :: nat
  tf_write_bytes :: nat

definition AddReadByte :: "nat \<Rightarrow> traffic_stat \<Rightarrow> traffic_stat" where
  "AddReadByte n t = t\<lparr>tf_read_bytes := (tf_read_bytes t + n) mod 2 ^ 64\<rparr>"

definition traffic_Start :: "nat \<Rightarrow> traffic_stat" where
  "traffic_Start now = \<lparr>tf_start_time_ms = now, tf_read_bytes = 0, tf_write_bytes = 0\<rparr>"

record car_session = tcp_session +
  car_str_device_id :: cstring
  car_device_id :: device_id_t
  car_decoder :: jt_decoder
  car_disconnect_cause :: car_cause
  car_traffic :: traffic_stat

definition CarSession_new :: "session_id \<Rightarrow> nat \<Rightarrow> car_session" where
  "CarSession_new sid now = tcp_session.extend (tcp_session_new sid)
     (car_session.fields [] INVALID_DEVICE_ID jt_decoder_new UnknownCause (traffic_Start now))"

definition SetDisconnectCause :: "car_cause \<Rightarrow> car_session \<Rightarrow> car_session" where
  "SetDisconnectCause c car = car\<lparr>car_disconnect_cause := c\<rparr>"

definition UpdateDeviceIdIfEmpty :: "byte list \<Rightarrow> byte \<Rightarrow> car_session \<Rightarrow> car_session" where
  "UpdateDeviceIdIfEmpty sim ch car =
     (if car_device_id car = INVALID_DEVICE_ID \<or> car_str_device_id car = [] then
        (let str = GenerateDeviceIdStr (Some sim) ch in
         car\<lparr>car_str_device_id := str, car_device_id := GenerateDeviceId str\<rparr>)
      else car)"

datatype car_event = CarPacket jt_packet | CarError tcp_error

text \<open>\<open>ParseBuffer\<close> and \<open>OnMessage\<close>: the callbacks in order, then the session or the fault.\<close>

definition CarSession_ParseBuffer ::
  "buffer \<Rightarrow> car_session \<Rightarrow> (car_event list \<times> (fault + car_session)) option" where
  "CarSession_ParseBuffer b car =
     (case jt_PushBuffer b (car_decoder car) of (e, d) \<Rightarrow>
        if e \<noteq> kNoError then
          Some ([CarError TCP_ERROR_USER_BUFFER_FULL], Inr (car\<lparr>car_decoder := d\<rparr>))
        else
          map_option (\<lambda>(ps, out). case out of
              Inl f \<Rightarrow> (map CarPacket ps, Inl f)
            | Inr (e, d) \<Rightarrow>
                (map CarPacket ps @
                   (if e \<noteq> kNeedMoreData then [CarError TCP_ERROR_INVALID_PACKET] else []),
                 Inr (car\<lparr>car_decoder := d\<rparr>)))
            (drain jt_Decode kNoError jt_GetPacket d))"

definition CarSession_OnMessage ::
  "buffer \<Rightarrow> car_session \<Rightarrow> (car_event list \<times> (fault + car_session)) option" where
  "CarSession_OnMessage b car =
     CarSession_ParseBuffer b (car\<lparr>car_traffic := AddReadByte (ReadableBytes b) (car_traffic car)\<rparr>)"

definition CarSession_OnError :: "tcp_error \<Rightarrow> car_event list" where
  "CarSession_OnError e = [CarError e]"

section \<open>The manager\<close>

type_synonym car_manager = "(session_id, car_session) smap"

definition CarManager_Size :: "car_manager \<Rightarrow> nat" where
  "CarManager_Size m = length m"

definition AddCar :: "car_session \<Rightarrow> car_manager \<Rightarrow> car_manager" where
  "AddCar car m = sm_set (ts_session_id car) car m"

definition GetCar :: "session_id \<Rightarrow> car_manager \<Rightarrow> car_session option" where
  "GetCar sid m = sm_find m sid"

definition DelCar_ptr :: "car_session \<Rightarrow> car_cause \<Rightarrow> car_manager \<Rightarrow> car_manager \<times> car_session" where
  "DelCar_ptr car c m = (sm_erase (ts_session_id car) m, SetDisconnectCause c car)"

text \<open>The other two deletions also return the sessions they let go, with their cause.\<close>

definition DelCar :: "session_id \<Rightarrow> car_cause \<Rightarrow> car_manager \<Rightarrow> car_manager \<times> car_session list" where
  "DelCar sid c m =
     (case sm_find m sid of
        None \<Rightarrow> (m, [])
      | Some car \<Rightarrow> (sm_erase sid m, [SetDisconnectCause c car]))"

fun DelCarByDeviceId ::
  "device_id_t \<Rightarrow> car_cause \<Rightarrow> car_manager \<Rightarrow> car_manager \<times> car_session list" where
  "DelCarByDeviceId did c [] = ([], [])"
| "DelCarByDeviceId did c ((sid, car) # m) =
     (case DelCarByDeviceId did c m of (m', gone) \<Rightarrow>
        if car_device_id car = did then (m', SetDisconnectCause c car # gone)
        else ((sid, car) # m', gone))"

section \<open>The vehicle server\<close>

record jt1078_server =
  js_server_domain :: cstring
  js_listen_ip :: cstring
  js_listen_port :: u16
  js_manager :: car_manager

definition DisconnectCar :: "cstring \<Rightarrow> car_cause \<Rightarrow> jt1078_server \<Rightarrow> jt1078_server" where
  "DisconnectCar str c js = js\<lparr>js_manager := fst (DelCarByDeviceId (GenerateDeviceId str) c (js_manager js))\<rparr>"

definition set_car_base :: "tcp_session \<Rightarrow> car_session \<Rightarrow> car_session" where
  "set_car_base b s = tcp_session.extend b (car_session.fields (car_str_device_id s)
     (car_device_id s) (car_decoder s) (car_disconnect_cause s) (car_traffic s))"

definition Car_OnNewConnection ::
  "bool \<Rightarrow> nat \<Rightarrow> session_id \<Rightarrow> nat \<Rightarrow> int \<Rightarrow> cstring \<Rightarrow> u16 \<Rightarrow> jt1078_server \<Rightarrow> jt1078_server \<times> int list"
where
  "Car_OnNewConnection ev loop sid now fd ip port js =
     (let car = CarSession_new sid now in
      case TcpSession_Init TcpSession_Clear ev (Some loop) fd ip port (tcp_session.truncate car) of (ok, b, closed) \<Rightarrow>
        if \<not> ok then (js, closed)
        else (js\<lparr>js_manager := AddCar (set_car_base b car) (js_manager js)\<rparr>, closed))"

definition error_cause :: "tcp_error \<Rightarrow> car_cause" where
  "error_cause e = (case e of
       TCP_ERROR_DISCONNECT \<Rightarrow> RemoteClose
     | TCP_ERROR_INVALID_PACKET \<Rightarrow> InvalidJt1078Pkt
     | TCP_ERROR_NET_ERROR \<Rightarrow> ReadError
     | TCP_ERROR_USER_BUFFER_FULL \<Rightarrow> ReadError)"

definition Car_OnPacketError ::
  "session_id \<Rightarrow> tcp_error \<Rightarrow> jt1078_server \<Rightarrow> jt1078_server" where
  "Car_OnPacketError sid e js =
     (case sm_find (js_manager js) sid of
        None \<Rightarrow> js
      | Some car \<Rightarrow> js\<lparr>js_manager := fst (DelCar_ptr car (error_cause e) (js_manager js))\<rparr>)"

text \<open>
  \<open>OnPacketCompleted\<close>: the server with the session's identifier learned, and the notification
  \<open>Notify1078Packet(device_id, pkt)\<close> that follows.
\<close>

definition Car_OnPacketCompleted ::
  "car_session \<Rightarrow> jt_packet \<Rightarrow> car_session \<times> (device_id_t \<times> jt_packet)" where
  "Car_OnPacketCompleted car pkt =
     (let car = UpdateDeviceIdIfEmpty (BCDSIMCardNumber (m_header pkt)) (Bt1LogicChannelNumber (m_header pkt)) car in
      (car, (car_device_id car, pkt)))"

fun car_packets :: "car_event list \<Rightarrow> car_session \<Rightarrow> car_session \<times> (device_id_t \<times> jt_packet) list" where
  "car_packets [] car = (car, [])"
| "car_packets (CarPacket p # es) car =
     (case Car_OnPacketCompleted car p of (car, n) \<Rightarrow>
        case car_packets es car of (car, ns) \<Rightarrow> (car, n # ns))"
| "car_packets (CarError e # es) car = car_packets es car"

section \<open>The service\<close>

record jt1078_service =
  sv_jt1078_realtime :: jt1078_server
  sv_jt1078_history :: jt1078_server
  sv_forward_realtime :: forward_server
  sv_forward_history :: forward_server
  sv_redis_808_list :: cstring

definition Notify1078Packet ::
  "(session_id \<Rightarrow> nat sys list) \<Rightarrow> u64 \<Rightarrow> jt_packet \<Rightarrow> bool \<Rightarrow> jt1078_service \<Rightarrow> heap \<Rightarrow>
    (jt1078_service \<times> heap \<times> (session_id \<times> byte list) list) option" where
  "Notify1078Packet ans device_id pkt bRealtime sv h =
     (if bRealtime then
        map_option (\<lambda>(fs, h, outs). (sv\<lparr>sv_forward_realtime := fs\<rparr>, h, outs))
          (Publisher_Publish ans device_id pkt (sv_forward_realtime sv) h)
      else
        map_option (\<lambda>(fs, h, outs). (sv\<lparr>sv_forward_history := fs\<rparr>, h, outs))
          (Publisher_Publish ans device_id pkt (sv_forward_history sv) h))"

text \<open>Decimal text, as \<open>std::to_string\<close> prints an unsigned number.\<close>

fun dec_str :: "nat \<Rightarrow> cstring" where
  "dec_str n = (if n < 10 then [of_nat (48 + n)] else dec_str (n div 10) @ [of_nat (48 + n mod 10)])"

declare dec_str.simps [simp del]

type_synonym json_obj = "(cstring \<times> cstring) list"

text \<open>\<open>SendCommandTo808\<close>: the JSON object it builds, and what it pushes to the redis list.\<close>

definition Command808 :: "cstring \<Rightarrow> bool \<Rightarrow> bool \<Rightarrow> jt1078_service \<Rightarrow> json_obj option" where
  "Command808 strDeviceId bConnect bRealtime sv =
     (if strDeviceId = [] \<or> length strDeviceId \<noteq> 14 then None
      else
        (let strSim = take 12 strDeviceId;
             logic = take 2 (drop 12 strDeviceId);
             strLogicNumber = (if logic ! 0 = 48 then [logic ! 1] else logic);
             js = (if bRealtime then sv_jt1078_realtime sv else sv_jt1078_history sv);
             domain = js_server_domain js;
             port = dec_str (unat (js_listen_port js)) in
         if bRealtime then
           Some [(ascii ''port'', port), (ascii ''ip'', domain), (ascii ''iccid'', strSim),
             (ascii ''channelNo'', strLogicNumber), (ascii ''dataType'', ascii ''0''),
             (ascii ''codeStreamType'', ascii ''1''),
             (ascii ''commandId'', if bConnect then ascii ''9101'' else ascii ''9102'')]
         else if bConnect then None
         else Some [(ascii ''iccid'', strSim), (ascii ''channelNo'', strLogicNumber),
             (ascii ''commandId'', ascii ''9202'')]))"

definition SendCommandTo808 ::
  "(json_obj \<Rightarrow> cstring option) \<Rightarrow> cstring \<Rightarrow> bool \<Rightarrow> bool \<Rightarrow> jt1078_service \<Rightarrow> (cstring \<times> cstring) list"
where
  "SendCommandTo808 dump strDeviceId bConnect bRealtime sv =
     (case Command808 strDeviceId bConnect bRealtime sv of
        None \<Rightarrow> []
      | Some obj \<Rightarrow>
          (case dump obj of
             None \<Rightarrow> []
           | Some strJson \<Rightarrow> if strJson \<noteq> [] then [(sv_redis_808_list sv, strJson)] else []))"

definition NotifyNoSubscriber :: "cstring \<Rightarrow> bool \<Rightarrow> jt1078_service \<Rightarrow> jt1078_service" where
  "NotifyNoSubscriber strDeviceId bRealtime sv =
     (if bRealtime
      then sv\<lparr>sv_jt1078_realtime := DisconnectCar strDeviceId NoSubscriber (sv_jt1078_realtime sv)\<rparr>
      else sv\<lparr>sv_jt1078_history := DisconnectCar strDeviceId NoSubscriber (sv_jt1078_history sv)\<rparr>)"

text \<open>The calls a forward server makes, carried out: the service and the redis pushes.\<close>

fun do_calls ::
  "(json_obj \<Rightarrow> cstring option) \<Rightarrow> service_call list \<Rightarrow> jt1078_service \<Rightarrow>
    jt1078_service \<times> (cstring \<times> cstring) list" where
  "do_calls dump [] sv = (sv, [])"
| "do_calls dump (SendCommandTo808Call s v r # cs) sv =
     (case do_calls dump cs sv of (sv', out) \<Rightarrow> (sv', SendCommandTo808 dump s v r sv @ out))"
| "do_calls dump (NotifyNoSubscriberCall s r # cs) sv = do_calls dump cs (NotifyNoSubscriber s r sv)"

definition Service_forward_event ::
  "(json_obj \<Rightarrow> cstring option) \<Rightarrow> bool \<Rightarrow> session_id \<times> sub_event \<Rightarrow> jt1078_service \<Rightarrow>
    fault + (jt1078_service \<times> (cstring \<times> cstring) list)" where
  "Service_forward_event dump bRealtime ev sv =
     (if bRealtime then
        rbind (Forward_step ev (sv_forward_realtime sv)) (\<lambda>(fs, calls).
          Inr (do_calls dump calls (sv\<lparr>sv_forward_realtime := fs\<rparr>)))
      else
        rbind (Forward_step ev (sv_forward_history sv)) (\<lambda>(fs, calls).
          Inr (do_calls dump calls (sv\<lparr>sv_forward_history := fs\<rparr>))))"

section \<open>Lemmas\<close>

lemma DelCarByDeviceId_filter:
  "fst (DelCarByDeviceId did c m) = filter (\<lambda>(sid, car). car_device_id car \<noteq> did) m"
  by (induction did c m rule: DelCarByDeviceId.induct) (auto split: prod.splits)

lemma DelCarByDeviceId_gone:
  "snd (DelCarByDeviceId did c m) = map (SetDisconnectCause c \<circ> snd) (filter (\<lambda>(sid, car). car_device_id car = did) m)"
  by (induction did c m rule: DelCarByDeviceId.induct) (auto split: prod.splits)

text \<open>Which vehicles a list of calls disconnects.\<close>

lemma do_calls_realtime:
  "js_manager (sv_jt1078_realtime (fst (do_calls dump calls sv))) =
    filter (\<lambda>(sid, car). \<forall>s. NotifyNoSubscriberCall s True \<in> set calls \<longrightarrow> car_device_id car \<noteq> GenerateDeviceId s)
      (js_manager (sv_jt1078_realtime sv))"
proof (induction calls arbitrary: sv)
  case Nil
  then show ?case by simp
next
  case (Cons c calls)
  show ?case
  proof (cases c)
    case (SendCommandTo808Call s v r)
    with Cons show ?thesis by (simp split: prod.splits) (metis fst_conv)
  next
    case (NotifyNoSubscriberCall s r)
    have e: "(\<forall>t. t = s \<or> P t \<longrightarrow> Q t) \<longleftrightarrow> Q s \<and> (\<forall>t. P t \<longrightarrow> Q t)" for P Q by blast
    show ?thesis
      using Cons [of "NotifyNoSubscriber s r sv"]
      by (cases r) (auto simp: NotifyNoSubscriberCall NotifyNoSubscriber_def DisconnectCar_def
          DelCarByDeviceId_filter e intro!: filter_cong)
  qed
qed

lemma release_empty_notes:
  "\<forall>ch \<in> set (sm_keys cs). unat ch < 2 ^ 56 \<Longrightarrow> release_empty fs cs = Inr (cs', calls) \<Longrightarrow>
    NotifyNoSubscriberCall s r \<in> set calls \<longleftrightarrow>
      (\<exists>ch. (ch, []) \<in> set cs \<and> s = dev_text ch \<and> r = fs_is_realtime fs)"
proof (induction cs arbitrary: cs' calls)
  case (Cons p cs)
  obtain ch m where p: "p = (ch, m)" by (cases p)
  have ch: "unat ch < 2 ^ 56" using Cons.prems(1) by (simp add: p)
  show ?case
  proof (cases "m = []")
    case True
    with Cons.prems(2) obtain cs1 c1 where r: "release_empty fs cs = Inr (cs1, c1)"
      "calls = [SendCommandTo808Call (dev_text ch) False (fs_is_realtime fs),
        NotifyNoSubscriberCall (dev_text ch) (fs_is_realtime fs)] @ c1"
      by (auto simp: p rbind_eq_Inr NotifyCloseCarTerminal_def GenerateDeviceIdStrByDeviceId_eq [OF ch]
          simp del: hex_str.simps)
    with Cons.IH [OF _ r(1)] Cons.prems(1) True show ?thesis
      by (auto simp: p simp del: hex_str.simps)
  next
    case False
    with Cons.prems(2) obtain cs1 where "release_empty fs cs = Inr (cs1, calls)"
      by (auto simp: p rbind_eq_Inr)
    with Cons.IH Cons.prems(1) False show ?thesis by (auto simp: p simp del: hex_str.simps)
  qed
qed auto

lemma drop_empty_exists:
  assumes "sm_wf (fs_channels fs)"
  shows "Publisher_Exists did (drop_empty fs) \<longleftrightarrow> Publisher_Exists did fs \<and> (did, []) \<notin> set (fs_channels fs)"
proof (cases "sm_find (fs_channels fs) did")
  case None
  then have "(did, []) \<notin> set (fs_channels fs)" using sm_wf_in_find [OF assms, of did "[]"] by auto
  with None show ?thesis by (simp add: Publisher_Exists_def drop_empty_def sm_find_filter [OF assms])
next
  case (Some m)
  have "(did, []) \<in> set (fs_channels fs) \<longleftrightarrow> m = []"
    using sm_wf_in_find [OF assms, of did "[]"] sm_find_in [OF Some] Some by auto
  with Some show ?thesis by (simp add: Publisher_Exists_def drop_empty_def sm_find_filter [OF assms])
qed

lemma Release_notes:
  assumes "fs_inv fs" "ids_ok fs" "ReleaseChannelIfEmptySubscriber fs = Inr (fs', calls)"
  shows "NotifyNoSubscriberCall s r \<in> set calls \<longleftrightarrow>
    (\<exists>ch. unat ch < 2 ^ 56 \<and> s = dev_text ch \<and> r = fs_is_realtime fs \<and>
      Publisher_Exists ch fs \<and> \<not> Publisher_Exists ch fs')"
proof -
  have wf: "sm_wf (fs_channels fs)" using assms(1) by (simp add: fs_inv_def)
  obtain cs' where r: "release_empty fs (fs_channels fs) = Inr (cs', calls)"
    using assms(3) by (auto simp: ReleaseChannelIfEmptySubscriber_def rbind_eq_Inr)
  have x: "(ch, []) \<in> set (fs_channels fs) \<longleftrightarrow>
      unat ch < 2 ^ 56 \<and> Publisher_Exists ch fs \<and> \<not> Publisher_Exists ch (drop_empty fs)" for ch
    using drop_empty_exists [OF wf, of ch] sm_wf_in_find [OF wf, of ch "[]"] assms(2)
    by (auto simp: ids_ok_def sm_keys_def Publisher_Exists_def)
  show ?thesis
    using release_empty_notes [OF _ r] assms(2) Release_drop [OF assms(3)] x
    by (auto simp: ids_ok_def simp del: hex_str.simps)
qed

lemma Forward_step_notes:
  assumes "fs_ok fs" "small_ids ev" "Forward_step ev fs = Inr (fs', calls)"
  shows "NotifyNoSubscriberCall s r \<in> set calls \<longleftrightarrow>
    (\<exists>ch. unat ch < 2 ^ 56 \<and> s = dev_text ch \<and> r = fs_is_realtime fs \<and>
      Publisher_Exists ch fs \<and> \<not> Publisher_Exists ch fs')"
proof -
  obtain sid e where ev: "ev = (sid, e)" by (cases ev)
  have inv: "fs_inv fs" "ids_ok fs" using assms(1) by (simp_all add: fs_ok_def)
  show ?thesis
  proof (cases e)
    case (PacketError x)
    let ?fs = "Publisher_DelSubscriber sid (fs\<lparr>fs_subscribers := sm_erase sid (fs_subscribers fs)\<rparr>)"
    have i: "fs_inv ?fs" "ids_ok ?fs" "\<And>did. Publisher_Exists did ?fs = Publisher_Exists did fs"
      "fs_is_realtime ?fs = fs_is_realtime fs"
      using inv by (auto simp: fs_inv_ops fs_subscribers_irrelevant ids_ok_del)
        (simp_all add: ids_ok_def Publisher_Exists_def Publisher_DelSubscriber_def)
    with Release_notes [OF i(1,2)] assms(3) show ?thesis
      by (simp add: Forward_step_def ev PacketError Forward_OnPacketError_def del: hex_str.simps)
  next
    case (PacketCompleted p)
    let ?did = "GenerateDeviceIdByBuffer (m_data p)"
    let ?fs = "Publisher_DelSubscriber_from ?did sid fs"
    have i: "fs_inv ?fs" "ids_ok ?fs" "\<And>did. Publisher_Exists did ?fs = Publisher_Exists did fs"
      "fs_is_realtime ?fs = fs_is_realtime fs"
      using inv by (simp_all add: fs_inv_ops ids_ok_del)
        (simp add: Publisher_DelSubscriber_from_def split: option.split)
    have e: "Publisher_Exists ch (fwd_subscribe ?did sid fs) \<longleftrightarrow> Publisher_Exists ch fs \<or> ch = ?did" for ch
      by (auto simp: Publisher_Exists_def fwd_subscribe_channels)
    show ?thesis
    proof (cases "m_uPktType p AND IPC_PKT_TYPE_MASK = IPC_PKT_TYPE_UNSUBSCRIBE_DEVICE_ID")
      case True
      with Release_notes [OF i(1,2)] assms(3) i(3,4) show ?thesis
        by (simp add: Forward_step_def ev PacketCompleted Forward_OnPacketCompleted_def
            ProcessPacket_UnSubscriber_def ipc_consts Let_def del: hex_str.simps)
    next
      case False
      have "(\<forall>s r. NotifyNoSubscriberCall s r \<notin> set calls) \<and> (fs' = fs \<or> fs' = fwd_subscribe ?did sid fs)"
        using False assms(3)
        by (auto simp: Forward_step_def ev PacketCompleted Forward_OnPacketCompleted_def Let_def
            dest: Subscribe_state split: if_splits)
          (auto simp: ProcessPacket_Subscriber_def rbind_eq_Inr Let_def NotifyOpenCarTerminal_def split: if_splits)
      then show ?thesis using e by auto
    qed
  qed
qed

text \<open>The packets a session publishes carry the identifier of its first packet.\<close>

lemma UpdateDeviceId_known:
  "car_device_id car \<noteq> INVALID_DEVICE_ID \<Longrightarrow> car_str_device_id car \<noteq> [] \<Longrightarrow>
    UpdateDeviceIdIfEmpty sim ch car = car"
  by (simp add: UpdateDeviceIdIfEmpty_def)

lemma car_packets_known:
  "car_device_id car \<noteq> INVALID_DEVICE_ID \<Longrightarrow> car_str_device_id car \<noteq> [] \<Longrightarrow>
    snd (car_packets es car) = map (\<lambda>p. (car_device_id car, p)) (List.map_filter
      (\<lambda>e. case e of CarPacket p \<Rightarrow> Some p | CarError _ \<Rightarrow> None) es)"
  by (induction es car rule: car_packets.induct)
    (auto simp: map_filter_simps Car_OnPacketCompleted_def UpdateDeviceId_known Let_def split: prod.splits)

lemma GenerateDeviceIdStr_nonempty: "GenerateDeviceIdStr (Some sim) ch \<noteq> []"
proof -
  have "length (hex_str 2 (unat ch)) = 2" by simp
  then have "hex_str 2 (unat ch) \<noteq> []" by (metis length_0_conv zero_neq_numeral)
  then show ?thesis by (simp add: GenerateDeviceIdStr_def del: hex_str.simps)
qed

section \<open>Properties\<close>

text \<open>
  Vehicles nobody watches are disconnected, and only those. When an event of a realtime
  subscriber is handled, the sessions that leave the vehicle server are exactly those whose channel
  existed and is gone; every other session stays as it is.
\<close>

theorem unwatched_vehicles_disconnected:
  assumes "fs_ok (sv_forward_realtime sv)" "fs_is_realtime (sv_forward_realtime sv)" "small_ids ev"
    and "Service_forward_event dump True ev sv = Inr (sv', out)"
    and "\<forall>(sid, car) \<in> set (js_manager (sv_jt1078_realtime sv)). unat (car_device_id car) < 2 ^ 56"
  shows "js_manager (sv_jt1078_realtime sv') =
    filter (\<lambda>(sid, car). \<not> (Publisher_Exists (car_device_id car) (sv_forward_realtime sv) \<and>
      \<not> Publisher_Exists (car_device_id car) (sv_forward_realtime sv')))
      (js_manager (sv_jt1078_realtime sv))"
proof -
  obtain fs calls where st: "Forward_step ev (sv_forward_realtime sv) = Inr (fs, calls)"
    "(sv', out) = do_calls dump calls (sv\<lparr>sv_forward_realtime := fs\<rparr>)"
    using assms(4) by (auto simp: Service_forward_event_def rbind_eq_Inr)
  have keep: "sv_forward_realtime (fst (do_calls dump cs sv)) = sv_forward_realtime sv" for cs and sv
    by (induction dump cs sv rule: do_calls.induct)
      (auto simp: NotifyNoSubscriber_def split: prod.splits)
  have sv': "sv' = fst (do_calls dump calls (sv\<lparr>sv_forward_realtime := fs\<rparr>))" by (metis st(2) fst_conv)
  then have f: "sv_forward_realtime sv' = fs" by (simp add: keep)
  have m: "js_manager (sv_jt1078_realtime sv') =
      filter (\<lambda>(sid, car). \<forall>s. NotifyNoSubscriberCall s True \<in> set calls \<longrightarrow> car_device_id car \<noteq> GenerateDeviceId s)
        (js_manager (sv_jt1078_realtime sv))"
    unfolding sv' do_calls_realtime by simp
  have d: "(\<forall>s. NotifyNoSubscriberCall s True \<in> set calls \<longrightarrow> d \<noteq> GenerateDeviceId s) \<longleftrightarrow>
      \<not> (Publisher_Exists d (sv_forward_realtime sv) \<and> \<not> Publisher_Exists d fs)" if "unat d < 2 ^ 56" for d
    using Forward_step_notes [OF assms(1,3) st(1), of _ True] assms(2) that GenerateDeviceId_dev_text
    by (auto simp del: hex_str.simps)
  show ?thesis
    unfolding m f
  proof (rule filter_cong [OF refl])
    fix x assume x: "x \<in> set (js_manager (sv_jt1078_realtime sv))"
    obtain sid car where c: "x = (sid, car)" by (cases x)
    with x assms(5) have "unat (car_device_id car) < 2 ^ 56" by blast
    from d [OF this] show "(case x of (sid, car) \<Rightarrow>
        \<forall>s. NotifyNoSubscriberCall s True \<in> set calls \<longrightarrow> car_device_id car \<noteq> GenerateDeviceId s) =
      (case x of (sid, car) \<Rightarrow> \<not> (Publisher_Exists (car_device_id car) (sv_forward_realtime sv) \<and>
        \<not> Publisher_Exists (car_device_id car) fs))"
      unfolding c prod.case .
  qed
qed

definition sv_sample :: jt1078_service where
  "sv_sample = (let js = \<lparr>js_server_domain = ascii ''d'', js_listen_ip = [], js_listen_port = 1078,
       js_manager = [(9, (CarSession_new 9 0)\<lparr>car_device_id := 5\<rparr>)]\<rparr> in
     \<lparr>sv_jt1078_realtime = js, sv_jt1078_history = js, sv_forward_realtime = fs_one,
      sv_forward_history = fs_empty, sv_redis_808_list = ascii ''l''\<rparr>)"

theorem unwatched_vehicles_disconnected_witness:
  "\<exists>sv' out. Service_forward_event (\<lambda>_. Some (ascii ''j'')) True (8, PacketError TCP_ERROR_DISCONNECT) sv_sample
      = Inr (sv', out) \<and> js_manager (sv_jt1078_realtime sv') = []"
proof -
  let ?ev = "(8, PacketError TCP_ERROR_DISCONNECT) :: session_id \<times> sub_event"
  have ok: "fs_ok fs_one" "fs_is_realtime fs_one"
    using fs_ok_subscribe(1) [OF fs_empty_ok, of 5 8]
    by (simp_all add: fs_one_def) (simp add: fwd_subscribe_def Publisher_AddSubscriber_def
        Publisher_CreateChannel_def fs_empty_def Publisher_Exists_def)
  have sm: "small_ids ?ev" by (simp add: small_ids_def)
  obtain fs calls where st: "Forward_step ?ev fs_one = Inr (fs, calls)"
    using Forward_step_streams [OF ok(1) sm] by blast
  obtain sv' out where r: "Service_forward_event (\<lambda>_. Some (ascii ''j'')) True ?ev sv_sample = Inr (sv', out)"
    by (cases "do_calls (\<lambda>_. Some (ascii ''j'')) calls (sv_sample\<lparr>sv_forward_realtime := fs\<rparr>)")
      (auto simp: Service_forward_event_def sv_sample_def Let_def st res_simps)
  have ch: "fs_channels fs_one = [(5, [(8, ())])]"
    by (simp add: fs_one_def fwd_subscribe_channels fs_empty_def)
  have "fs = drop_empty (Publisher_DelSubscriber 8 (fs_one\<lparr>fs_subscribers := sm_erase 8 (fs_subscribers fs_one)\<rparr>))"
    using st by (auto simp: Forward_step_def Forward_OnPacketError_def dest: Release_drop)
  then have "\<not> Publisher_Exists 5 fs"
    by (simp add: Publisher_Exists_def drop_empty_def Publisher_DelSubscriber_def ch sm_erase_def)
  moreover have "sv_forward_realtime sv' = fs"
  proof -
    have keep: "sv_forward_realtime (fst (do_calls d cs sv)) = sv_forward_realtime sv" for d cs and sv
      by (induction d cs sv rule: do_calls.induct) (auto simp: NotifyNoSubscriber_def split: prod.splits)
    have "(sv', out) = do_calls (\<lambda>_. Some (ascii ''j'')) calls (sv_sample\<lparr>sv_forward_realtime := fs\<rparr>)"
      using r by (simp add: Service_forward_event_def sv_sample_def Let_def st res_simps)
    then show ?thesis using keep [of "\<lambda>_. Some (ascii ''j'')" calls "sv_sample\<lparr>sv_forward_realtime := fs\<rparr>"]
      by (metis fst_conv jt1078_service.select_convs(3) jt1078_service.surjective jt1078_service.update_convs(3))
  qed
  ultimately have "js_manager (sv_jt1078_realtime sv') = []"
    using unwatched_vehicles_disconnected [OF _ _ sm r] ok
    by (simp add: sv_sample_def Let_def Publisher_Exists_def ch CarSession_new_def tcp_session_new_def
        tcp_session.defs car_session.defs)
  with r show ?thesis by blast
qed

text \<open>
  The command for the 808 server names the vehicle it is about: for the identifier text of a SIM
  number and a channel, the command is built, its \<open>iccid\<close> is the SIM number's digits, its
  \<open>channelNo\<close> reads back as the channel, and its \<open>commandId\<close> opens or closes as asked.
\<close>

theorem command_names_vehicle:
  assumes "length sim = 6"
  shows "\<exists>obj s c. Command808 (GenerateDeviceIdStr (Some sim) ch) bConnect True sv = Some obj \<and>
    map_of obj (ascii ''iccid'') = Some s \<and> length s = 12 \<and> hex_acc 0 s = be_nat sim \<and>
    map_of obj (ascii ''channelNo'') = Some c \<and> c \<noteq> [] \<and> hex_acc 0 c = unat ch \<and>
    map_of obj (ascii ''commandId'') = Some (if bConnect then ascii ''9101'' else ascii ''9102'')"
proof -
  let ?t = "GenerateDeviceIdStr (Some sim) ch"
  define a b where "a = take 12 ?t" and "b = take 2 (drop 12 ?t)"
  note t = GenerateDeviceIdStr_acc [OF assms, of ch]
  have ab: "?t = a @ b" "length a = 12" "length b = 2"
    using t(2) append_take_drop_id [of 12 ?t] by (simp_all add: a_def b_def)
  have hx: "hexes a" "hexes b" using t(1) by (simp_all add: ab(1))
  then have v: "hex_acc 0 ?t = hex_acc 0 a * 256 + hex_acc 0 b" "hex_acc 0 b < 256"
    using hex_acc_append [OF hx(1), of 0 b] hex_str_acc [OF hx(2)] hex_acc_bound [OF hx(2)]
      hex_acc_str [of "hex_acc 0 a" 2 "hex_acc 0 b"] ab(3)
    by (simp_all add: ab(1))
  moreover have "be_nat (sim @ [ch]) = be_nat sim * 256 + unat ch"
    by (simp add: be_nat_def)
  ultimately have sum: "hex_acc 0 a * 256 + hex_acc 0 b = be_nat sim * 256 + unat ch"
    using t(3) by simp
  have e: "hex_acc 0 a = be_nat sim"
    using sum v(2) unat_byte_lt [of ch] by linarith
  with sum have eb: "hex_acc 0 b = unat ch" by simp
  obtain x y where xy: "b = [x, y]" using length2_cases [OF ab(3)] by blast
  let ?c = "if b ! 0 = 48 then [b ! 1] else b"
  have c: "hex_acc 0 ?c = unat ch" "?c \<noteq> []"
  proof -
    have z: "hex_value 48 = Some 0" by (simp add: hex_value_def)
    show "hex_acc 0 ?c = unat ch" using eb by (auto simp: xy z)
    show "?c \<noteq> []" by (simp add: xy)
  qed
  have "?t \<noteq> []" using t(2) by auto
  then have "Command808 ?t bConnect True sv = Some [(ascii ''port'', dec_str (unat (js_listen_port (sv_jt1078_realtime sv)))),
      (ascii ''ip'', js_server_domain (sv_jt1078_realtime sv)), (ascii ''iccid'', a),
      (ascii ''channelNo'', ?c), (ascii ''dataType'', ascii ''0''),
      (ascii ''codeStreamType'', ascii ''1''),
      (ascii ''commandId'', if bConnect then ascii ''9101'' else ascii ''9102'')]"
    using t(2) by (simp add: Command808_def Let_def a_def b_def)
  moreover have "ascii ''iccid'' \<noteq> ascii ''port''" "ascii ''iccid'' \<noteq> ascii ''ip''"
    "ascii ''channelNo'' \<notin> {ascii ''port'', ascii ''ip'', ascii ''iccid''}"
    "ascii ''commandId'' \<notin> {ascii ''port'', ascii ''ip'', ascii ''iccid'', ascii ''channelNo'',
       ascii ''dataType'', ascii ''codeStreamType''}"
    by (simp_all add: ascii_def of_char_def)
  ultimately show ?thesis
    using e ab(2) c by auto
qed

theorem command_names_vehicle_witness:
  "\<exists>obj c. Command808 (GenerateDeviceIdStr (Some [1, 0x38, 0, 0, 0x10, 2]) 3) True True sv_sample = Some obj \<and>
    map_of obj (ascii ''channelNo'') = Some c \<and> hex_acc 0 c = 3"
  using command_names_vehicle [of "[1, 0x38, 0, 0, 0x10, 2]" 3 True sv_sample] by auto

text \<open>
  A vehicle's packets are published under the identifier of its first packet, all of them, in
  order, whatever SIM number or channel later packets carry and whatever errors come between.
\<close>

theorem car_identifier_fixed:
  assumes "GenerateDeviceId_sim (Some (BCDSIMCardNumber (m_header p))) (Bt1LogicChannelNumber (m_header p)) = did"
    and "did \<noteq> INVALID_DEVICE_ID" "car_device_id car = INVALID_DEVICE_ID"
  shows "snd (car_packets (CarPacket p # es) car) =
    (did, p) # map (Pair did) (List.map_filter (\<lambda>e. case e of CarPacket q \<Rightarrow> Some q | CarError _ \<Rightarrow> None) es)"
proof -
  let ?str = "GenerateDeviceIdStr (Some (BCDSIMCardNumber (m_header p))) (Bt1LogicChannelNumber (m_header p))"
  define car' where "car' = car\<lparr>car_str_device_id := ?str, car_device_id := did\<rparr>"
  have "Car_OnPacketCompleted car p = (car', (did, p))"
    using assms by (simp add: Car_OnPacketCompleted_def UpdateDeviceIdIfEmpty_def Let_def car'_def
        GenerateDeviceId_sim_def)
  moreover have "snd (car_packets es car') = map (Pair did)
      (List.map_filter (\<lambda>e. case e of CarPacket q \<Rightarrow> Some q | CarError _ \<Rightarrow> None) es)"
    using car_packets_known [of car' es] assms(2) GenerateDeviceIdStr_nonempty
    by (simp add: car'_def)
  ultimately show ?thesis by (auto split: prod.splits)
qed

theorem car_identifier_fixed_witness:
  "snd (car_packets [CarPacket jt_sample, CarError TCP_ERROR_NET_ERROR, CarPacket jt_sample] (CarSession_new 9 0)) =
    [(0x01380000100203, jt_sample), (0x01380000100203, jt_sample)]"
proof -
  have "unat (GenerateDeviceId_sim (Some (BCDSIMCardNumber (m_header jt_sample))) (Bt1LogicChannelNumber (m_header jt_sample)))
      = 0x01380000100203"
    by (subst GenerateDeviceId_sim_eq) (simp_all add: jt_sample_def be_nat_def)
  then have "GenerateDeviceId_sim (Some (BCDSIMCardNumber (m_header jt_sample))) (Bt1LogicChannelNumber (m_header jt_sample))
      = 0x01380000100203"
    by (simp add: word_unat_eq_iff)
  moreover have "(0x01380000100203 :: u64) \<noteq> INVALID_DEVICE_ID" by (simp add: INVALID_DEVICE_ID_def)
  moreover have "car_device_id (CarSession_new 9 0) = INVALID_DEVICE_ID"
    by (simp add: CarSession_new_def tcp_session.defs car_session.defs)
  ultimately show ?thesis
    using car_identifier_fixed [of jt_sample "0x01380000100203" "CarSession_new 9 0"
        "[CarError TCP_ERROR_NET_ERROR, CarPacket jt_sample]"]
    by (simp add: map_filter_simps del: car_packets.simps)
qed

text \<open>
  The identifier 0 stands for "not known yet": closing the channel of a subscriber that asked for
  \<open>00000000000000\<close> disconnects every vehicle that has not sent its first packet.
\<close>

lemma zero_identifier_disconnects_new_vehicles:
  "car_device_id car = INVALID_DEVICE_ID \<Longrightarrow> (sid, car) \<in> set (js_manager js) \<Longrightarrow>
    (sid, car) \<notin> set (js_manager (DisconnectCar (dev_text 0) NoSubscriber js))"
  using GenerateDeviceId_dev_text [of 0]
  by (simp add: DisconnectCar_def DelCarByDeviceId_filter INVALID_DEVICE_ID_def del: hex_str.simps)

end
