(* ===== verification/Pc_Server.thy ===== *)
theory Pc_Server
  imports Forward_Server
begin

text \<open>
  The pc server (pc_server) and the client it reaches jt1078_server with (jt1078_client): a pc
  session watches at most one vehicle channel, the publisher relays the packets that come from
  jt1078_server to the sessions of their channel, and the server subscribes upstream when a channel
  gets its first session, unsubscribes when it loses the last one, and subscribes again after a
  reconnection. The requests handed to the client's \<open>SendPacket\<close> are returned as a list; what the
  kernel makes of one is \<open>Jt1078Client_SendPacket\<close>, which changes nothing the server looks at.
\<close>

definition INVALID_PORT :: u16 where "INVALID_PORT = - 1"

section \<open>The client\<close>

record jt1078_client = tcp_client +
  jc_decoder :: ipc_decoder
  jc_packet :: ipc_packet
  jc_last_receive :: u32
  jc_last_send :: u32

definition Jt1078Client_new :: "session_id \<Rightarrow> jt1078_client" where
  "Jt1078Client_new sid =
     tcp_client.extend (tcp_session.extend (tcp_session_new sid) (tcp_client.fields None False))
       (jt1078_client.fields ipc_decoder_new packet_new INVALID_PKT_SEQ_ID INVALID_PKT_SEQ_ID)"

definition client_base :: "jt1078_client \<Rightarrow> tcp_session" where
  "client_base c = tcp_session.truncate c"

definition client_set_base :: "tcp_session \<Rightarrow> jt1078_client \<Rightarrow> jt1078_client" where
  "client_set_base b c =
     tcp_client.extend (tcp_session.extend b (tcp_client.fields (tc_write_event c) (tc_connected c)))
       (jt1078_client.fields (jc_decoder c) (jc_packet c) (jc_last_receive c) (jc_last_send c))"

definition client_GetNewSendIpcPktSeqId :: "jt1078_client \<Rightarrow> u32 \<times> jt1078_client" where
  "client_GetNewSendIpcPktSeqId c =
     (let c = (if jc_last_send c = INVALID_PKT_SEQ_ID then c\<lparr>jc_last_send := 0\<rparr>
               else c\<lparr>jc_last_send := jc_last_send c + 1\<rparr>) in
      (jc_last_send c, c))"

text \<open>\<open>SendPacket\<close>: the return value, the bytes the kernel took, the client, the unused answers.\<close>

definition Jt1078Client_SendPacket ::
  "nat sys list \<Rightarrow> u32 \<Rightarrow> byte list \<Rightarrow> jt1078_client \<Rightarrow>
    (int \<times> byte list \<times> jt1078_client \<times> nat sys list) option" where
  "Jt1078Client_SendPacket rs msk data c =
     (let pkt = (packet_Clear (jc_packet c))\<lparr>m_uPktType := msk, m_uDataLength := of_nat (length data)\<rparr> in
      case client_GetNewSendIpcPktSeqId c of (seq, c) \<Rightarrow>
        (let pkt = pkt\<lparr>m_uPktSeqId := seq\<rparr>; c = c\<lparr>jc_packet := pkt\<rparr> in
         map_option (\<lambda>(ret, _, out, b, rs). (ret, out, client_set_base b c, rs))
           (SendBuffer_iov rs [packet_header_bytes pkt, data] (client_base c))))"

text \<open>
  \<open>OnConnected\<close> up to its callback; \<open>ev\<close> tells whether the read event can be made. When it cannot,
  \<open>Init\<close> calls the client's own \<open>Clear\<close>, and the client is not connected any more; the result of
  \<open>InitReadEvent\<close> is not looked at.
\<close>

definition Jt1078Client_OnConnected ::
  "bool \<Rightarrow> int \<Rightarrow> bool \<Rightarrow> jt1078_client \<Rightarrow> jt1078_client \<times> int list" where
  "Jt1078Client_OnConnected ev fd bOk c =
     (let c = c\<lparr>tc_connected := bOk\<rparr> in
      if bOk then (case InitReadEvent TcpClient_Clear ev fd c of (_, c, closed) \<Rightarrow> (c, closed))
      else (c, []))"

text \<open>
  The loop that the client's and the pc session's \<open>OnMessage\<close> share: the result of the push is not
  looked at, every packet is handed on, and any end but \<open>kNeedMoreData\<close> is an error.
\<close>

definition unchecked_events ::
  "byte list \<Rightarrow> ipc_decoder \<Rightarrow> (sub_event list \<times> (fault + ipc_decoder)) option" where
  "unchecked_events buffer d =
     map_option (\<lambda>(ps, out). case out of
         Inl f \<Rightarrow> (map PacketCompleted ps, Inl f)
       | Inr (e, d') \<Rightarrow>
           (map PacketCompleted ps @
              (if e \<noteq> ipcNeedMoreData then [PacketError TCP_ERROR_INVALID_PACKET] else []), Inr d'))
       (drain ipc_Decode ipcNoError ipc_GetPacket (snd (ipc_PushBuffer buffer d)))"

fun last_seq :: "u32 \<Rightarrow> sub_event list \<Rightarrow> u32" where
  "last_seq n [] = n"
| "last_seq n (PacketCompleted p # es) = last_seq (m_uPktSeqId p) es"
| "last_seq n (PacketError e # es) = last_seq n es"

definition Jt1078Client_OnMessage ::
  "byte list \<Rightarrow> jt1078_client \<Rightarrow> (sub_event list \<times> (fault + jt1078_client)) option" where
  "Jt1078Client_OnMessage buffer c =
     map_option (\<lambda>(es, out). (es, map_sum id
         (\<lambda>d. c\<lparr>jc_decoder := d, jc_last_receive := last_seq (jc_last_receive c) es\<rparr>) out))
       (unchecked_events buffer (jc_decoder c))"

definition Jt1078Client_OnError :: "tcp_error \<Rightarrow> jt1078_client \<Rightarrow> jt1078_client \<times> sub_event list" where
  "Jt1078Client_OnError e c = (c\<lparr>tc_connected := False\<rparr>, [PacketError e])"

section \<open>Pc sessions\<close>

record pc_session = tcp_session +
  pc_decoder :: ipc_decoder
  pc_last_receive :: u32
  pc_last_send :: u32
  pc_str_device_id :: cstring

definition PcSession_new :: "session_id \<Rightarrow> pc_session" where
  "PcSession_new sid = tcp_session.extend (tcp_session_new sid)
     (pc_session.fields ipc_decoder_new INVALID_PKT_SEQ_ID INVALID_PKT_SEQ_ID [])"

definition pc_base :: "pc_session \<Rightarrow> tcp_session" where
  "pc_base s = tcp_session.truncate s"

definition pc_set_base :: "tcp_session \<Rightarrow> pc_session \<Rightarrow> pc_session" where
  "pc_set_base b s = tcp_session.extend b
     (pc_session.fields (pc_decoder s) (pc_last_receive s) (pc_last_send s) (pc_str_device_id s))"

definition PcSession_OnMessage ::
  "byte list \<Rightarrow> pc_session \<Rightarrow> (sub_event list \<times> (fault + pc_session)) option" where
  "PcSession_OnMessage buffer s =
     map_option (\<lambda>(es, out). (es, map_sum id
         (\<lambda>d. s\<lparr>pc_decoder := d, pc_last_receive := last_seq (pc_last_receive s) es\<rparr>) out))
       (unchecked_events buffer (pc_decoder s))"

definition PcSession_OnError :: "tcp_error \<Rightarrow> sub_event list" where
  "PcSession_OnError e = [PacketError e]"

definition pc_GetNewSendIpcPktSeqId :: "pc_session \<Rightarrow> u32 \<times> pc_session" where
  "pc_GetNewSendIpcPktSeqId s =
     (let s = (if pc_last_send s = INVALID_PKT_SEQ_ID then s\<lparr>pc_last_send := 0\<rparr>
               else s\<lparr>pc_last_send := pc_last_send s + 1\<rparr>) in
      (pc_last_send s, s))"

text \<open>
  \<open>SendPacket\<close>: whether the packet was taken over, the bytes the kernel took, the session, the
  unused answers. The structure is contiguous in memory, its header before its data.
\<close>

definition PcSession_SendPacket ::
  "nat sys list \<Rightarrow> ipc_packet \<Rightarrow> pc_session \<Rightarrow> (bool \<times> byte list \<times> pc_session \<times> nat sys list) option" where
  "PcSession_SendPacket rs packet s =
     (let msg = ipc_encode packet in
      Option.bind (if EmptyPendingBuffer (pc_base s) then Some (True, [], pc_base s, rs)
                   else SendPendingBuffer rs (pc_base s))
       (\<lambda>(bOk, out, b, rs).
         if \<not> bOk then
           (if \<not> ts_can_write b then Some (False, out, pc_set_base b s, rs)
            else Some (True, out, pc_set_base (PushBackPendingBuffer msg b) s, rs))
         else
           Option.bind (SendBuffer rs msg b) (\<lambda>(ret, _, out', b, rs).
             if ret < 0 then
               (if ts_can_write b
                then Some (True, out @ out', pc_set_base (PushBackPendingBuffer msg b) s, rs)
                else Some (False, out @ out', pc_set_base b s, rs))
             else if ret < int (length msg) then
               Some (True, out @ out', pc_set_base (PushBackPendingBuffer (drop (nat ret) msg) b) s, rs)
             else Some (True, out @ out', pc_set_base b s, rs))))"

section \<open>Managers and publisher\<close>

definition PcManager_Size :: "channel \<Rightarrow> nat" where
  "PcManager_Size m = length m"

definition PcManager_AddPc :: "session_id \<Rightarrow> channel \<Rightarrow> channel" where
  "PcManager_AddPc sid m = sm_set sid () m"

definition PcManager_GetCar :: "session_id \<Rightarrow> channel \<Rightarrow> session_id option" where
  "PcManager_GetCar sid m = map_option (\<lambda>_. sid) (sm_find m sid)"

definition PcManager_DelPc :: "session_id \<Rightarrow> channel \<Rightarrow> channel" where
  "PcManager_DelPc sid m = sm_erase sid m"

type_synonym channels = "(u64, channel) smap"
type_synonym pc_heap = "session_id \<Rightarrow> pc_session"

text \<open>\<open>Publish\<close>: the loop over the channel, and what each connection's kernel took.\<close>

fun PcPublisher_loop ::
  "(session_id \<Rightarrow> nat sys list) \<Rightarrow> ipc_packet \<Rightarrow> channel \<Rightarrow> pc_heap \<Rightarrow>
    (channel \<times> pc_heap \<times> (session_id \<times> byte list) list) option" where
  "PcPublisher_loop ans packet [] h = Some ([], h, [])"
| "PcPublisher_loop ans packet (p # m) h =
     (let sid = fst p in
      Option.bind
       (if ts_can_write (h sid)
        then map_option (\<lambda>(_, out, s, _). (out, s)) (PcSession_SendPacket (ans sid) packet (h sid))
        else Some ([], h sid))
       (\<lambda>(out, s).
         map_option (\<lambda>(m', h', outs). (if \<not> ts_can_write s then m' else p # m', h', (sid, out) # outs))
           (PcPublisher_loop ans packet m (h(sid := s)))))"

definition PcPublisher_Publish ::
  "(session_id \<Rightarrow> nat sys list) \<Rightarrow> u64 \<Rightarrow> ipc_packet \<Rightarrow> channels \<Rightarrow> pc_heap \<Rightarrow>
    (channels \<times> pc_heap \<times> (session_id \<times> byte list) list) option" where
  "PcPublisher_Publish ans device_id packet chs h =
     (case sm_find chs device_id of
        None \<Rightarrow> Some (chs, h, [])
      | Some ch \<Rightarrow>
          map_option (\<lambda>(ch', h', outs). (sm_set device_id ch' chs, h', outs))
            (PcPublisher_loop ans packet ch h))"

definition PcPublisher_AddSubscriber :: "u64 \<Rightarrow> session_id \<Rightarrow> channels \<Rightarrow> channels" where
  "PcPublisher_AddSubscriber device_id sid chs =
     (let ch = (case sm_find chs device_id of None \<Rightarrow> [] | Some ch \<Rightarrow> ch) in
      sm_set device_id (sm_insert sid () ch) chs)"

definition PcPublisher_DelSubscriber_from :: "u64 \<Rightarrow> session_id \<Rightarrow> channels \<Rightarrow> channels" where
  "PcPublisher_DelSubscriber_from device_id sid chs =
     (case sm_find chs device_id of
        None \<Rightarrow> chs
      | Some ch \<Rightarrow> sm_set device_id (sm_erase sid ch) chs)"

definition PcPublisher_DelSubscriber :: "session_id \<Rightarrow> channels \<Rightarrow> channels" where
  "PcPublisher_DelSubscriber sid chs = map (\<lambda>(device_id, ch). (device_id, sm_erase sid ch)) chs"

definition SizeSubscriber :: "u64 \<Rightarrow> channels \<Rightarrow> nat" where
  "SizeSubscriber device_id chs = (case sm_find chs device_id of None \<Rightarrow> 0 | Some ch \<Rightarrow> length ch)"

definition IsEmptySubscriber :: "u64 \<Rightarrow> channels \<Rightarrow> bool" where
  "IsEmptySubscriber device_id chs = (SizeSubscriber device_id chs = 0)"

definition GetAllDeviceId :: "bool \<Rightarrow> channels \<Rightarrow> u64 list" where
  "GetAllDeviceId bFilterEmptySubscriber chs =
     map fst (filter (\<lambda>(device_id, ch). bFilterEmptySubscriber \<longrightarrow> ch \<noteq> []) chs)"

section \<open>The server\<close>

text \<open>\<open>ps_connect_timer\<close> and \<open>ps_heartbeat_timer\<close>: whether the one-shot timer is running.\<close>

record pc_server =
  ps_manager :: channel
  ps_channels :: channels
  ps_client :: "jt1078_client option"
  ps_connect_timer :: bool
  ps_heartbeat_timer :: bool

type_synonym request = "u32 \<times> byte list"

definition PcServer_new :: pc_server where
  "PcServer_new = \<lparr>ps_manager = [], ps_channels = [], ps_client = None, ps_connect_timer = False,
     ps_heartbeat_timer = False\<rparr>"

abbreviation sub_request :: u32 where
  "sub_request \<equiv> IPC_PKT_TYPE_SUBSCRIBE_DEVICE_ID OR IPC_PKT_FROM_PC_SERVER"

abbreviation unsub_request :: u32 where
  "unsub_request \<equiv> IPC_PKT_TYPE_UNSUBSCRIBE_DEVICE_ID OR IPC_PKT_FROM_PC_SERVER"

definition PcServer_OnNewConnection ::
  "bool \<Rightarrow> nat \<Rightarrow> session_id \<Rightarrow> int \<Rightarrow> cstring \<Rightarrow> u16 \<Rightarrow> pc_server \<Rightarrow> pc_heap \<Rightarrow>
    pc_server \<times> pc_heap \<times> int list" where
  "PcServer_OnNewConnection ev loop sid fd ip port st h =
     (case TcpSession_Init TcpSession_Clear ev (Some loop) fd ip port (pc_base (PcSession_new sid)) of (ok, b, closed) \<Rightarrow>
        if \<not> ok then (st, h, closed)
        else (st\<lparr>ps_manager := PcManager_AddPc sid (ps_manager st)\<rparr>,
              h(sid := pc_set_base b (PcSession_new sid)), closed))"

definition TryUnsubscriberOldDeviceId ::
  "session_id \<Rightarrow> cstring \<Rightarrow> pc_server \<Rightarrow> pc_heap \<Rightarrow> fault + (pc_server \<times> request list)" where
  "TryUnsubscriberOldDeviceId sid new st h =
     (let old = pc_str_device_id (h sid) in
      if old \<noteq> [] \<and> old \<noteq> new then
        (let old_id = GenerateDeviceId old;
             st = st\<lparr>ps_channels := PcPublisher_DelSubscriber_from old_id sid (ps_channels st)\<rparr> in
         case ps_client st of
           None \<Rightarrow> Inl NullDeref
         | Some c \<Rightarrow> Inr (st, if tc_connected c \<and> IsEmptySubscriber old_id (ps_channels st)
                             then [(unsub_request, old)] else []))
      else Inr (st, []))"

definition SubscribeDeviceId ::
  "session_id \<Rightarrow> cstring \<Rightarrow> pc_server \<Rightarrow> pc_heap \<Rightarrow> fault + (pc_server \<times> pc_heap \<times> request list)" where
  "SubscribeDeviceId sid str st h =
     rbind (TryUnsubscriberOldDeviceId sid str st h) (\<lambda>(st, reqs).
       (let h = h(sid := (h sid)\<lparr>pc_str_device_id := str\<rparr>) in
        if str \<noteq> [] then
          (let device_id = GenerateDeviceId str;
               st = st\<lparr>ps_channels := PcPublisher_AddSubscriber device_id sid (ps_channels st)\<rparr> in
           if SizeSubscriber device_id (ps_channels st) = 1 then
             (case ps_client st of
                None \<Rightarrow> Inl NullDeref
              | Some c \<Rightarrow> Inr (st, h, reqs @ [(sub_request, str)]))
           else Inr (st, h, reqs))
        else Inr (st, h, reqs)))"

definition UnSubscribeDeviceId ::
  "session_id \<Rightarrow> pc_server \<Rightarrow> pc_heap \<Rightarrow> fault + (pc_server \<times> pc_heap \<times> request list)" where
  "UnSubscribeDeviceId sid st h =
     (let str = pc_str_device_id (h sid); h' = h(sid := (h sid)\<lparr>pc_str_device_id := []\<rparr>) in
      if str \<noteq> [] then
        (let device_id = GenerateDeviceId str;
             st = st\<lparr>ps_channels := PcPublisher_DelSubscriber_from device_id sid (ps_channels st)\<rparr> in
         if IsEmptySubscriber device_id (ps_channels st) then
           (case ps_client st of
              None \<Rightarrow> Inl NullDeref
            | Some c \<Rightarrow> Inr (st, h', if tc_connected c then [(unsub_request, str)] else []))
         else Inr (st, h', []))
      else Inr (st, h', []))"

definition ProcessPcPacket_Subscribe ::
  "session_id \<Rightarrow> ipc_packet \<Rightarrow> pc_server \<Rightarrow> pc_heap \<Rightarrow> fault + (pc_server \<times> pc_heap \<times> request list)" where
  "ProcessPcPacket_Subscribe sid packet st h = SubscribeDeviceId sid (m_data packet) st h"

definition ProcessPcPacket_UnSubscribe ::
  "session_id \<Rightarrow> ipc_packet \<Rightarrow> pc_server \<Rightarrow> pc_heap \<Rightarrow> fault + (pc_server \<times> pc_heap \<times> request list)" where
  "ProcessPcPacket_UnSubscribe sid packet st h = UnSubscribeDeviceId sid st h"

definition client_connected :: "pc_server \<Rightarrow> bool" where
  "client_connected st = (case ps_client st of None \<Rightarrow> False | Some c \<Rightarrow> tc_connected c)"

definition PcServer_OnPacketCompleted ::
  "session_id \<Rightarrow> ipc_packet \<Rightarrow> pc_server \<Rightarrow> pc_heap \<Rightarrow> fault + (pc_server \<times> pc_heap \<times> request list)" where
  "PcServer_OnPacketCompleted sid packet st h =
     (if \<not> client_connected st then Inr (st, h, [])
      else
        (let t = m_uPktType packet AND IPC_PKT_TYPE_MASK in
         if t = IPC_PKT_TYPE_SUBSCRIBE_DEVICE_ID then ProcessPcPacket_Subscribe sid packet st h
         else if t = IPC_PKT_TYPE_UNSUBSCRIBE_DEVICE_ID then ProcessPcPacket_UnSubscribe sid packet st h
         else Inr (st, h, [])))"

definition ReleasePcSessionDeviceId ::
  "session_id \<Rightarrow> pc_server \<Rightarrow> pc_heap \<Rightarrow> fault + (pc_server \<times> pc_heap \<times> request list)" where
  "ReleasePcSessionDeviceId sid st h =
     rbind (UnSubscribeDeviceId sid st h) (\<lambda>(st, h, reqs).
       Inr (st\<lparr>ps_manager := PcManager_DelPc sid (ps_manager st)\<rparr>, h, reqs))"

definition PcServer_OnPacketError ::
  "session_id \<Rightarrow> tcp_error \<Rightarrow> pc_server \<Rightarrow> pc_heap \<Rightarrow> fault + (pc_server \<times> pc_heap \<times> request list)" where
  "PcServer_OnPacketError sid e st h = ReleasePcSessionDeviceId sid st h"

text \<open>The loop that subscribes again after a reconnection, over the non-empty channels.\<close>

fun resubscribe :: "jt1078_client option \<Rightarrow> u64 list \<Rightarrow> fault + request list" where
  "resubscribe client [] = Inr []"
| "resubscribe client (d # ds) =
     rbind (GenerateDeviceIdStrByDeviceId d) (\<lambda>str.
       if client = None then Inl NullDeref
       else rbind (resubscribe client ds) (\<lambda>reqs. Inr ((sub_request, str) # reqs)))"

definition PcServer_OnClientConnect :: "bool \<Rightarrow> pc_server \<Rightarrow> fault + (pc_server \<times> request list)" where
  "PcServer_OnClientConnect bOk st =
     (if \<not> bOk then Inr (st\<lparr>ps_client := None, ps_connect_timer := True\<rparr>, [])
      else rbind (resubscribe (ps_client st) (GetAllDeviceId True (ps_channels st)))
             (\<lambda>reqs. Inr (st, reqs)))"

text \<open>
  \<open>OnClientMessage\<close>: the eight bytes are copied whatever the length of the packet; \<open>stale\<close> is what
  the decoder's block holds behind the packet's data.
\<close>

definition PcServer_OnClientMessage ::
  "(session_id \<Rightarrow> nat sys list) \<Rightarrow> byte list \<Rightarrow> ipc_packet \<Rightarrow> pc_server \<Rightarrow> pc_heap \<Rightarrow>
    (pc_server \<times> pc_heap \<times> (session_id \<times> byte list) list) option" where
  "PcServer_OnClientMessage ans stale packet st h =
     (if m_uPktType packet AND IPC_PKT_TYPE_MASK = IPC_PKT_TYPE_JT1078_PACKET then
        (let device_id = of_nat (le_nat (take 8 (m_data packet @ stale))) in
         map_option (\<lambda>(chs, h, outs). (st\<lparr>ps_channels := chs\<rparr>, h, outs))
           (PcPublisher_Publish ans device_id packet (ps_channels st) h))
      else Some (st, h, []))"

definition PcServer_OnClientError :: "tcp_error \<Rightarrow> pc_server \<Rightarrow> fault + pc_server" where
  "PcServer_OnClientError e st =
     (case ps_client st of
        None \<Rightarrow> Inl NullDeref
      | Some c \<Rightarrow> Inr (st\<lparr>ps_client := None, ps_connect_timer := True\<rparr>))"

text \<open>
  \<open>AsyncConnectServer\<close>: the configuration, and what the system answers to the attempt. An attempt
  that is decided at once calls \<open>OnConnected\<close> and with it \<open>OnClientConnect\<close> before it returns.
\<close>

record connect_env =
  ce_ip :: cstring
  ce_port :: u16
  ce_session_id :: session_id
  ce_loop :: nat
  ce_new_fd :: int
  ce_nonblock :: bool
  ce_connect :: connect_result
  ce_write_event :: bool
  ce_read_event :: bool

definition PcServer_AsyncConnectServer ::
  "connect_env \<Rightarrow> pc_server \<Rightarrow> fault + (bool \<times> pc_server \<times> request list \<times> int list)" where
  "PcServer_AsyncConnectServer ce st =
     (let st = st\<lparr>ps_client := None\<rparr> in
      if ce_ip ce = [] \<or> ce_port ce = INVALID_PORT then Inr (False, st, [], [])
      else
        (case AsyncConnect (ce_loop ce) (ce_ip ce) (ce_port ce) (ce_new_fd ce) (ce_nonblock ce) (ce_connect ce)
            (ce_write_event ce) (Jt1078Client_new (ce_session_id ce)) of (ok, c, cb, closed) \<Rightarrow>
           (case cb of
              None \<Rightarrow> Inr (ok, st\<lparr>ps_client := Some c\<rparr>, [], closed)
            | Some (fd, bOk) \<Rightarrow>
                (case Jt1078Client_OnConnected (ce_read_event ce) fd bOk c of (c, closed') \<Rightarrow>
                   rbind (PcServer_OnClientConnect bOk (st\<lparr>ps_client := Some c\<rparr>)) (\<lambda>(st, reqs).
                     Inr (ok, st, reqs, closed @ closed'))))))"

definition PcServer_OnConnectTimer ::
  "connect_env \<Rightarrow> pc_server \<Rightarrow> fault + (pc_server \<times> request list \<times> int list)" where
  "PcServer_OnConnectTimer ce st =
     rbind (PcServer_AsyncConnectServer ce st) (\<lambda>(_, st, reqs, closed). Inr (st, reqs, closed))"

definition PcServer_OnHeartbeatTimer :: "pc_server \<Rightarrow> pc_server \<times> request list" where
  "PcServer_OnHeartbeatTimer st =
     (st\<lparr>ps_heartbeat_timer := True\<rparr>,
      if client_connected st then [(IPC_PKT_TYPE_HEARTBEAT OR IPC_PKT_FROM_PC_SERVER, [])] else [])"

definition PcServer_Init ::
  "bool \<Rightarrow> cstring \<Rightarrow> u16 \<Rightarrow> bool \<Rightarrow> connect_env \<Rightarrow> pc_server \<Rightarrow>
    fault + (bool \<times> pc_server \<times> request list \<times> int list)" where
  "PcServer_Init loop_ok ip port listen_ok ce st =
     (if \<not> loop_ok then Inr (False, st, [], [])
      else if ip = [] \<or> port = INVALID_PORT then Inr (False, st, [], [])
      else if \<not> listen_ok then Inr (False, st, [], [])
      else PcServer_AsyncConnectServer ce (st\<lparr>ps_heartbeat_timer := True\<rparr>))"

section \<open>Runs\<close>

text \<open>
  What the event loop delivers: new connections, a session's packets and errors, the packets that
  come from jt1078_server (with the answers of the sessions' kernels and what the decoder's block
  holds behind the packet), the write event of a pending connection attempt (which fires once; \<open>rd\<close>
  tells whether the read event can be made), an error of the connected client, and the two timers.
  A timer is no longer running when its handler is called (\<open>TimerEventWatcher::OnTimer\<close>). The
  identifier of a new connection is not in use (\<open>session_ids_unique\<close>). A kernel that answers
  \<open>EINTR\<close> for ever keeps the server in its loop.
\<close>

datatype pc_event =
    PcConnection bool nat session_id int cstring u16
  | PcPacket session_id ipc_packet
  | PcError session_id tcp_error
  | PcRelayed "session_id \<Rightarrow> nat sys list" "byte list" ipc_packet
  | ClientWritable write_event bool
  | ClientError tcp_error
  | ConnectTimer connect_env
  | HeartbeatTimer

fun pc_step :: "pc_event \<Rightarrow> pc_server \<times> pc_heap \<Rightarrow> fault + ((pc_server \<times> pc_heap) \<times> request list)" where
  "pc_step (PcConnection ok loop sid fd ip port) (st, h) =
     (if sm_find (ps_manager st) sid \<noteq> None \<or> pc_str_device_id (h sid) \<noteq> [] then Inr ((st, h), [])
      else (case PcServer_OnNewConnection ok loop sid fd ip port st h of (st, h, _) \<Rightarrow> Inr ((st, h), [])))"
| "pc_step (PcPacket sid p) (st, h) =
     rbind (PcServer_OnPacketCompleted sid p st h) (\<lambda>(st, h, reqs). Inr ((st, h), reqs))"
| "pc_step (PcError sid e) (st, h) =
     rbind (PcServer_OnPacketError sid e st h) (\<lambda>(st, h, reqs). Inr ((st, h), reqs))"
| "pc_step (PcRelayed ans stale packet) (st, h) =
     (if \<not> client_connected st then Inr ((st, h), [])
      else (case PcServer_OnClientMessage ans stale packet st h of
          None \<Rightarrow> Inl NoReturn
        | Some (st, h, _) \<Rightarrow> Inr ((st, h), [])))"
| "pc_step (ClientWritable ev rd) (st, h) =
     (case ps_client st of
        None \<Rightarrow> Inr ((st, h), [])
      | Some c \<Rightarrow>
          (case (if tc_connected c then None else tc_write_event c) of
             None \<Rightarrow> Inr ((st, h), [])
           | Some socket \<Rightarrow>
               (case tcp_session_write_cb socket ev c of (c, (fd, bOk), _) \<Rightarrow>
                (case Jt1078Client_OnConnected rd fd bOk c of (c, _) \<Rightarrow>
                   rbind (PcServer_OnClientConnect bOk (st\<lparr>ps_client := Some c\<rparr>)) (\<lambda>(st, reqs).
                     Inr ((st, h), reqs))))))"
| "pc_step (ClientError e) (st, h) =
     (case ps_client st of
        None \<Rightarrow> Inr ((st, h), [])
      | Some c \<Rightarrow>
          if \<not> tc_connected c then Inr ((st, h), [])
          else (case Jt1078Client_OnError e c of (c, _) \<Rightarrow>
             rbind (PcServer_OnClientError e (st\<lparr>ps_client := Some c\<rparr>)) (\<lambda>st. Inr ((st, h), []))))"
| "pc_step (ConnectTimer ce) (st, h) =
     (if \<not> ps_connect_timer st then Inr ((st, h), [])
      else rbind (PcServer_OnConnectTimer ce (st\<lparr>ps_connect_timer := False\<rparr>)) (\<lambda>(st, reqs, _).
             Inr ((st, h), reqs)))"
| "pc_step HeartbeatTimer (st, h) =
     (if \<not> ps_heartbeat_timer st then Inr ((st, h), [])
      else (case PcServer_OnHeartbeatTimer (st\<lparr>ps_heartbeat_timer := False\<rparr>) of (st, reqs) \<Rightarrow>
        Inr ((st, h), reqs)))"

fun pc_run :: "pc_event list \<Rightarrow> pc_server \<times> pc_heap \<Rightarrow> fault + ((pc_server \<times> pc_heap) \<times> request list)" where
  "pc_run [] s = Inr (s, [])"
| "pc_run (ev # evs) s =
     rbind (pc_step ev s) (\<lambda>(s, reqs). rbind (pc_run evs s) (\<lambda>(s, reqs'). Inr (s, reqs @ reqs')))"

section \<open>Lemmas on sending\<close>

lemma pc_base_set [simp]: "pc_base (pc_set_base b s) = b"
  by (simp add: pc_base_def pc_set_base_def tcp_session.defs pc_session.defs)

lemma pc_base_fields [simp]:
  "ts_can_write (pc_base s) = ts_can_write s" "ts_pending (pc_base s) = ts_pending s"
  "ts_session_id (pc_base s) = ts_session_id s"
  by (simp_all add: pc_base_def tcp_session.defs)

lemma pc_set_base_fields [simp]:
  "ts_can_write (pc_set_base b s) = ts_can_write b" "ts_pending (pc_set_base b s) = ts_pending b"
  "ts_session_id (pc_set_base b s) = ts_session_id b" "pc_str_device_id (pc_set_base b s) = pc_str_device_id s"
  by (simp_all add: pc_set_base_def tcp_session.defs pc_session.defs)

lemma client_set_base_fields [simp]:
  "tc_connected (client_set_base b c) = tc_connected c" "tc_write_event (client_set_base b c) = tc_write_event c"
  "jc_last_send (client_set_base b c) = jc_last_send c"
  by (simp_all add: client_set_base_def tcp_session.defs tcp_client.defs jt1078_client.defs)

lemma pc_seq_eq:
  "pc_GetNewSendIpcPktSeqId s = (pc_last_send s + 1, s\<lparr>pc_last_send := pc_last_send s + 1\<rparr>)"
  by (simp add: pc_GetNewSendIpcPktSeqId_def INVALID_PKT_SEQ_ID_def)

lemma client_seq_eq:
  "client_GetNewSendIpcPktSeqId c = (jc_last_send c + 1, c\<lparr>jc_last_send := jc_last_send c + 1\<rparr>)"
  by (simp add: client_GetNewSendIpcPktSeqId_def INVALID_PKT_SEQ_ID_def)

interpretation pc_seq: seq_counter pc_GetNewSendIpcPktSeqId pc_last_send
  by unfold_locales (simp_all add: pc_seq_eq)

interpretation client_seq: seq_counter client_GetNewSendIpcPktSeqId jc_last_send
  by unfold_locales (simp_all add: client_seq_eq)

lemma PcSession_SendPacket_conserves:
  assumes "PcSession_SendPacket rs packet s = Some (ok, out, s', rs')"
  shows "concat (ts_pending s) @ (if ok then ipc_encode packet else []) = out @ concat (ts_pending s')"
    "ts_can_write s \<Longrightarrow> ts_can_write s' \<longleftrightarrow> ok" "pc_str_device_id s' = pc_str_device_id s"
    "ts_can_write s' \<Longrightarrow> ts_can_write s"
proof -
  define msg where "msg = ipc_encode packet"
  obtain bOk o1 b rs1 where flush:
    "(if EmptyPendingBuffer (pc_base s) then Some (True, [], pc_base s, rs) else SendPendingBuffer rs (pc_base s))
      = Some (bOk, o1, b, rs1)"
    using assms by (auto simp: PcSession_SendPacket_def Let_def bind_eq_Some_conv)
  have f: "concat (ts_pending s) = o1 @ concat (ts_pending b)" "bOk \<longleftrightarrow> ts_pending b = []"
    "ts_can_write b \<longrightarrow> ts_can_write s" "bOk \<Longrightarrow> ts_can_write b = ts_can_write s"
    using flush SendPendingBuffer_conserves [of rs "pc_base s" bOk o1 b rs1]
      SendPendingBuffer_all_sent [of rs "pc_base s" o1 b rs1]
    by (auto simp: EmptyPendingBuffer_def pending_bytes_def split: if_splits)
  have "concat (ts_pending s) @ (if ok then msg else []) = out @ concat (ts_pending s') \<and>
    (ts_can_write s \<longrightarrow> (ts_can_write s' \<longleftrightarrow> ok)) \<and> pc_str_device_id s' = pc_str_device_id s \<and>
    (ts_can_write s' \<longrightarrow> ts_can_write s)"
  proof (cases bOk)
    case False
    with assms flush f show ?thesis
      by (auto simp: PcSession_SendPacket_def msg_def [symmetric] PushBackPendingBuffer_def split: if_splits)
  next
    case True
    with assms flush obtain w e o2 b2 rs2 where sb: "SendBuffer rs1 msg b = Some (w, e, o2, b2, rs2)"
      by (auto simp: PcSession_SendPacket_def msg_def [symmetric] bind_eq_Some_conv)
    from sb show ?thesis
      by (cases rule: SendBuffer_cases)
        (use assms flush f True sb in \<open>auto simp: PcSession_SendPacket_def msg_def [symmetric]
          PushBackPendingBuffer_def would_block_def split: if_splits\<close>)
  qed
  then show "concat (ts_pending s) @ (if ok then ipc_encode packet else []) = out @ concat (ts_pending s')"
    "ts_can_write s \<Longrightarrow> ts_can_write s' \<longleftrightarrow> ok" "pc_str_device_id s' = pc_str_device_id s"
    "ts_can_write s' \<Longrightarrow> ts_can_write s"
    unfolding msg_def by (simp_all split: if_splits)
qed

interpretation pc_sender: reliable_sender PcSession_SendPacket "\<lambda>s p. ipc_encode p"
  "\<lambda>s. concat (ts_pending s)"
  by unfold_locales (use PcSession_SendPacket_conserves(1) in fastforce)+

text \<open>The packets of a list that a session takes over, and the bytes that leave it meanwhile.\<close>

fun pc_send_list ::
  "nat sys list \<Rightarrow> ipc_packet list \<Rightarrow> pc_session \<Rightarrow>
    (ipc_packet list \<times> byte list \<times> pc_session \<times> nat sys list) option" where
  "pc_send_list rs [] s = Some ([], [], s, rs)"
| "pc_send_list rs (p # ps) s =
     Option.bind (PcSession_SendPacket rs p s) (\<lambda>(ok, out, s', rs').
       map_option (\<lambda>(qs, outs, r). (if ok then p # qs else qs, out @ outs, r)) (pc_send_list rs' ps s'))"

lemma pc_send_list_send_all:
  "pc_send_list rs ps s = Some (qs, outs, s', rs') \<Longrightarrow>
    pc_sender.send_all rs ps s = Some (concat (map ipc_encode qs), outs, s', rs') \<and> set qs \<subseteq> set ps \<and>
    (ts_can_write s' \<longrightarrow> ts_can_write s \<and> qs = ps)"
proof (induction ps arbitrary: rs s qs outs)
  case (Cons p ps)
  then obtain ok out s1 r1 qs1 os where st: "PcSession_SendPacket rs p s = Some (ok, out, s1, r1)"
    "pc_send_list r1 ps s1 = Some (qs1, os, s', rs')" "qs = (if ok then p # qs1 else qs1)" "outs = out @ os"
    by (auto simp: bind_eq_Some_conv)
  have "ts_can_write s1 \<Longrightarrow> ts_can_write s \<and> ok"
    using PcSession_SendPacket_conserves(2,4) [OF st(1)] by blast
  with Cons.IH [OF st(2)] st show ?case by auto
qed simp

text \<open>What has arrived of a stream of packets decodes to the first of them.\<close>

lemma ipc_prefix_decodes:
  assumes "concat (map ipc_encode ps) = s @ t" "\<And>p. p \<in> set ps \<Longrightarrow> ipc_pkt_wf p \<and> length (m_data p) \<le> 1008"
  shows "ipc_safe s \<and> (\<exists>k r. parse_all ipc_parse s = (take k ps, False, r))"
proof -
  have w: "ipc_safe (s @ t)" "parse_all ipc_parse (s @ t) = (ps, False, [])"
    using ipc_safe_concat [of ps] assms by simp_all
  obtain qs b r where q: "parse_all ipc_parse s = (qs, b, r)" by (cases "parse_all ipc_parse s")
  have nb: "\<not> b"
  proof
    assume b
    with q ipcp.parse_all_bad_append [of s qs r t] w(2) show False by simp
  qed
  then obtain qs' where "ps = qs @ qs'"
    using ipcp.parse_all_append [of s qs r t] q w(2) by (auto split: prod.splits)
  then have "qs = take (length qs) ps" by simp
  with q nb ipc_safe_prefix [OF w(1)] show ?thesis by metis
qed

section \<open>The publisher is a table of subscriptions\<close>

definition pubs_inv :: "channels \<Rightarrow> bool" where
  "pubs_inv chs \<longleftrightarrow> sm_wf chs \<and> (\<forall>(d, m) \<in> set chs. sm_wf m)"

definition pc_holds :: "channels \<Rightarrow> u64 \<Rightarrow> session_id \<Rightarrow> bool" where
  "pc_holds chs d sid = (\<exists>m. sm_find chs d = Some m \<and> sm_find m sid = Some ())"

lemma pubs_inv_set: "pubs_inv chs \<Longrightarrow> sm_wf m \<Longrightarrow> pubs_inv (sm_set d m chs)"
  using set_sm_set [of d m chs] by (fastforce simp: pubs_inv_def)

lemma pubs_inv_find: "pubs_inv chs \<Longrightarrow> sm_find chs d = Some m \<Longrightarrow> sm_wf m"
  by (auto simp: pubs_inv_def dest: sm_find_in)

interpretation pc_pub: subscription_table pc_holds PcPublisher_AddSubscriber PcPublisher_DelSubscriber_from
  PcPublisher_DelSubscriber pubs_inv
proof
  fix chs :: channels and t t' :: u64 and x x' :: session_id assume i: "pubs_inv chs"
  show "pc_holds (PcPublisher_AddSubscriber t x chs) t' x' \<longleftrightarrow> pc_holds chs t' x' \<or> t = t' \<and> x = x'"
    by (auto simp: pc_holds_def PcPublisher_AddSubscriber_def split: option.splits if_splits)
  show "pc_holds (PcPublisher_DelSubscriber_from t x chs) t' x' \<longleftrightarrow> pc_holds chs t' x' \<and> \<not> (t = t' \<and> x = x')"
    by (auto simp: pc_holds_def PcPublisher_DelSubscriber_from_def split: option.splits if_splits)
  show "pc_holds (PcPublisher_DelSubscriber x chs) t' x' \<longleftrightarrow> pc_holds chs t' x' \<and> x \<noteq> x'"
    by (auto simp: pc_holds_def PcPublisher_DelSubscriber_def split: if_splits)
  show "pubs_inv (PcPublisher_AddSubscriber t x chs)"
    using i pubs_inv_find [OF i] by (auto simp: PcPublisher_AddSubscriber_def intro!: pubs_inv_set split: option.split)
  show "pubs_inv (PcPublisher_DelSubscriber_from t x chs)"
    using i pubs_inv_find [OF i] by (auto simp: PcPublisher_DelSubscriber_from_def intro!: pubs_inv_set split: option.split)
  show "pubs_inv (PcPublisher_DelSubscriber x chs)"
    using i by (auto simp: pubs_inv_def PcPublisher_DelSubscriber_def)
qed

lemma IsEmptySubscriber_holds: "IsEmptySubscriber d chs \<longleftrightarrow> (\<forall>sid. \<not> pc_holds chs d sid)"
proof (cases "sm_find chs d")
  case (Some m)
  then show ?thesis
    by (cases m) (auto simp: IsEmptySubscriber_def SizeSubscriber_def pc_holds_def)
qed (simp add: IsEmptySubscriber_def SizeSubscriber_def pc_holds_def)

text \<open>More than one subscriber after an addition: somebody was there before.\<close>

lemma Size_after_add:
  assumes "SizeSubscriber d (PcPublisher_AddSubscriber d sid chs) \<noteq> 1"
  shows "\<not> IsEmptySubscriber d chs"
proof
  assume "IsEmptySubscriber d chs"
  then have "SizeSubscriber d (PcPublisher_AddSubscriber d sid chs) = 1"
    by (auto simp: IsEmptySubscriber_def SizeSubscriber_def PcPublisher_AddSubscriber_def sm_insert_def
        split: option.splits)
  with assms show False ..
qed

section \<open>Publishing\<close>

text \<open>Publishing visits the channel as the forward server's does.\<close>

lemma PcPublisher_loop_visit:
  "PcPublisher_loop ans packet m h = visit ts_can_write
    (\<lambda>sid s. map_option (\<lambda>(_, out, s, _). (out, s)) (PcSession_SendPacket (ans sid) packet s)) [] m h"
  by (induction m arbitrary: h) (auto simp: Let_def fun_eq_iff intro!: bind_option_cong map_option_cong)

lemma PcPublisher_Publish_keeps:
  assumes "pubs_inv chs" "PcPublisher_Publish ans d packet chs h = Some (chs', h', outs)" "pc_holds chs d sid"
    "ts_can_write (h' sid)"
  shows "pc_holds chs' d sid \<and> (\<exists>out. (sid, out) \<in> set outs \<and>
    concat (ts_pending (h sid)) @ ipc_encode packet = out @ concat (ts_pending (h' sid)))"
proof -
  obtain m where m: "sm_find chs d = Some m" "sm_find m sid = Some ()" using assms(3) by (auto simp: pc_holds_def)
  then obtain m' where m': "PcPublisher_loop ans packet m h = Some (m', h', outs)" "chs' = sm_set d m' chs"
    using assms(2) by (auto simp: PcPublisher_Publish_def)
  have wf: "sm_wf m" using pubs_inv_find [OF assms(1) m(1)] .
  have i: "(sid, ()) \<in> set m" using sm_find_in [OF m(2)] .
  have "distinct (map fst m)" using sm_wf_distinct [OF wf] by (simp add: sm_keys_def)
  note v = visit_spec [OF this m'(1) [unfolded PcPublisher_loop_visit]]
  then have f: "m' = filter (\<lambda>p. ts_can_write (h' (fst p))) m" by blast
  have "sm_find m' sid = Some ()" unfolding f sm_find_filter [OF wf] m(2) using assms(4) by simp
  moreover have w: "ts_can_write (h sid)" using v i assms(4) by (metis image_eqI fst_conv)
  with v i obtain ok out rs' where
    r: "PcSession_SendPacket (ans sid) packet (h sid) = Some (ok, out, h' sid, rs')" "(sid, out) \<in> set outs"
    by (fastforce simp: image_iff)
  with PcSession_SendPacket_conserves(1,2) [OF r(1)] w assms(4) have
    "concat (ts_pending (h sid)) @ ipc_encode packet = out @ concat (ts_pending (h' sid))" by simp
  ultimately show ?thesis using r(2) m'(2) by (auto simp: pc_holds_def)
qed

lemma PcPublisher_Publish_table:
  assumes "pubs_inv chs" "PcPublisher_Publish ans d packet chs h = Some (chs', h', outs)"
  shows "pubs_inv chs'" "pc_holds chs' x sid \<longleftrightarrow> pc_holds chs x sid \<and> (d = x \<longrightarrow> ts_can_write (h' sid))"
    "pc_str_device_id (h' sid) = pc_str_device_id (h sid)" "ts_can_write (h' sid) \<Longrightarrow> ts_can_write (h sid)"
proof -
  have "pubs_inv chs' \<and> (pc_holds chs' x sid \<longleftrightarrow> pc_holds chs x sid \<and> (d = x \<longrightarrow> ts_can_write (h' sid))) \<and>
    pc_str_device_id (h' sid) = pc_str_device_id (h sid) \<and> (ts_can_write (h' sid) \<longrightarrow> ts_can_write (h sid))"
  proof (cases "sm_find chs d")
    case None
    with assms show ?thesis by (auto simp: PcPublisher_Publish_def pc_holds_def)
  next
    case (Some m)
    then obtain m' where m': "PcPublisher_loop ans packet m h = Some (m', h', outs)" "chs' = sm_set d m' chs"
      using assms(2) by (auto simp: PcPublisher_Publish_def)
    have wf: "sm_wf m" using pubs_inv_find [OF assms(1) Some] .
    then have "distinct (map fst m)" using sm_wf_distinct by (simp add: sm_keys_def)
    note v = visit_spec [OF this m'(1) [unfolded PcPublisher_loop_visit]]
    then have f: "m' = filter (\<lambda>p. ts_can_write (h' (fst p))) m" by blast
    have "sm_wf m'" unfolding f by (rule sm_wf_filter [OF wf])
    moreover have "sm_find m' sid = Some () \<longleftrightarrow> sm_find m sid = Some () \<and> ts_can_write (h' sid)"
      unfolding f sm_find_filter [OF wf] by (auto split: option.split)
    moreover have "pc_str_device_id (h' sid) = pc_str_device_id (h sid) \<and>
        (ts_can_write (h' sid) \<longrightarrow> ts_can_write (h sid))"
    proof (cases "sid \<in> fst ` set m \<and> ts_can_write (h sid)")
      case True
      with v obtain ok out rs' where "PcSession_SendPacket (ans sid) packet (h sid) = Some (ok, out, h' sid, rs')"
        by fastforce
      from PcSession_SendPacket_conserves(3) [OF this] True show ?thesis by simp
    next
      case False
      have "h' sid = h sid"
      proof (cases "sid \<in> fst ` set m")
        case True
        with False bspec [OF conjunct2 [OF conjunct2 [OF v]] True] show ?thesis by simp
      qed (use v in blast)
      then show ?thesis by simp
    qed
    ultimately show ?thesis using m'(2) Some assms(1) by (auto simp: pc_holds_def intro!: pubs_inv_set)
  qed
  then show "pubs_inv chs'" "pc_holds chs' x sid \<longleftrightarrow> pc_holds chs x sid \<and> (d = x \<longrightarrow> ts_can_write (h' sid))"
    "pc_str_device_id (h' sid) = pc_str_device_id (h sid)" "ts_can_write (h' sid) \<Longrightarrow> ts_can_write (h sid)"
    by simp_all
qed

section \<open>One channel per session, and the requests sent upstream\<close>

text \<open>
  A session is in no channel but the one its text names, and it is in that one unless its connection
  can no longer be written.
\<close>

definition names :: "pc_session \<Rightarrow> u64 \<Rightarrow> bool" where
  "names s d \<longleftrightarrow> pc_str_device_id s \<noteq> [] \<and> d = GenerateDeviceId (pc_str_device_id s)"

definition pc_inv :: "pc_server \<Rightarrow> pc_heap \<Rightarrow> bool" where
  "pc_inv st h \<longleftrightarrow> pubs_inv (ps_channels st) \<and>
    (\<forall>d sid. pc_holds (ps_channels st) d sid \<longrightarrow> names (h sid) d) \<and>
    (\<forall>d sid. names (h sid) d \<longrightarrow> pc_holds (ps_channels st) d sid \<or> \<not> ts_can_write (h sid))"

text \<open>What jt1078_server makes of the requests: whether this server is subscribed to a channel.\<close>

fun upstream :: "request list \<Rightarrow> u64 \<Rightarrow> bool \<Rightarrow> bool" where
  "upstream [] d b = b"
| "upstream (r # rs) d b = upstream rs d
     (if GenerateDeviceIdByBuffer (snd r) \<noteq> d then b
      else if fst r AND IPC_PKT_TYPE_MASK = IPC_PKT_TYPE_SUBSCRIBE_DEVICE_ID then True
      else if fst r AND IPC_PKT_TYPE_MASK = IPC_PKT_TYPE_UNSUBSCRIBE_DEVICE_ID then False
      else b)"

lemma upstream_append: "upstream (rs @ rs') d b = upstream rs' d (upstream rs d b)"
  by (induction rs arbitrary: b) auto

lemma request_types [simp]:
  "sub_request AND IPC_PKT_TYPE_MASK = IPC_PKT_TYPE_SUBSCRIBE_DEVICE_ID"
  "unsub_request AND IPC_PKT_TYPE_MASK = IPC_PKT_TYPE_UNSUBSCRIBE_DEVICE_ID"
  "IPC_PKT_TYPE_UNSUBSCRIBE_DEVICE_ID \<noteq> IPC_PKT_TYPE_SUBSCRIBE_DEVICE_ID"
  "GenerateDeviceIdByBuffer = GenerateDeviceId"
  by (simp_all add: ipc_consts GenerateDeviceIdByBuffer_def GenerateDeviceId_def fun_eq_iff)

text \<open>
  jt1078_server's side of channel \<open>d\<close> agrees: it is subscribed if somebody is in the channel, and
  only if some session's text names the channel.
\<close>

definition agrees :: "pc_server \<Rightarrow> pc_heap \<Rightarrow> u64 \<Rightarrow> bool \<Rightarrow> bool" where
  "agrees st h d b \<longleftrightarrow> ((\<exists>sid. pc_holds (ps_channels st) d sid) \<longrightarrow> b) \<and> (b \<longrightarrow> (\<exists>sid. names (h sid) d))"

text \<open>
  One operation of a session, which names the channel of \<open>str\<close> afterwards: it is in exactly that
  channel, the others stay where they are, and the upstream side is kept in step.
\<close>

definition in_step ::
  "pc_server \<Rightarrow> pc_heap \<Rightarrow> cstring \<Rightarrow> session_id \<Rightarrow> fault + (pc_server \<times> pc_heap \<times> request list) \<Rightarrow> bool" where
  "in_step st h str sid r \<longleftrightarrow> (\<exists>st' h' reqs. r = Inr (st', h', reqs) \<and> pc_inv st' h' \<and>
     ps_client st' = ps_client st \<and> (\<forall>x. x \<noteq> sid \<longrightarrow> h' x = h x) \<and> pc_str_device_id (h' sid) = str \<and>
     (\<forall>d x. pc_holds (ps_channels st') d x \<longleftrightarrow>
       (if x = sid then str \<noteq> [] \<and> d = GenerateDeviceId str else pc_holds (ps_channels st) d x)) \<and>
     (\<forall>d b. agrees st h d b \<longrightarrow> agrees st' h' d (upstream reqs d b)))"

lemma pc_inv_set:
  assumes "pc_inv st h" "pubs_inv chs" "ts_can_write s = ts_can_write (h sid)" "pc_str_device_id s = str"
    "\<And>d x. pc_holds chs d x \<longleftrightarrow>
      (if x = sid then str \<noteq> [] \<and> d = GenerateDeviceId str else pc_holds (ps_channels st) d x)"
  shows "pc_inv (st\<lparr>ps_channels := chs\<rparr>) (h(sid := s))"
  using assms by (auto simp: pc_inv_def names_def)

lemma Unsub_in_step:
  assumes "pc_inv st h" "client_connected st"
  shows "in_step st h [] sid (UnSubscribeDeviceId sid st h)"
proof -
  define str where "str = pc_str_device_id (h sid)"
  define s where "s = (h sid)\<lparr>pc_str_device_id := []\<rparr>"
  have s: "ts_can_write s = ts_can_write (h sid)" "pc_str_device_id s = []" by (simp_all add: s_def)
  have i: "pubs_inv (ps_channels st)" using assms(1) by (simp add: pc_inv_def)
  have own: "pc_holds (ps_channels st) d sid \<Longrightarrow> str \<noteq> [] \<and> d = GenerateDeviceId str" for d
    using assms(1) by (auto simp: pc_inv_def names_def str_def)
  obtain c where c: "ps_client st = Some c" "tc_connected c"
    using assms(2) by (auto simp: client_connected_def split: option.splits)
  show ?thesis
  proof (cases "str = []")
    case True
    then have u: "UnSubscribeDeviceId sid st h = Inr (st, h(sid := s), [])"
      by (simp add: UnSubscribeDeviceId_def str_def s_def)
    have "pc_inv (st\<lparr>ps_channels := ps_channels st\<rparr>) (h(sid := s))"
      by (rule pc_inv_set [OF assms(1) i s]) (use own True in auto)
    moreover have "agrees st h d b \<Longrightarrow> agrees st (h(sid := s)) d b" for d b
      using True by (auto simp: agrees_def names_def str_def)
    ultimately show ?thesis using u s(2) own True by (auto simp: in_step_def)
  next
    case False
    define chs where "chs = PcPublisher_DelSubscriber_from (GenerateDeviceId str) sid (ps_channels st)"
    have u: "UnSubscribeDeviceId sid st h = Inr (st\<lparr>ps_channels := chs\<rparr>, h(sid := s),
        if IsEmptySubscriber (GenerateDeviceId str) chs then [(unsub_request, str)] else [])"
      using False c by (simp add: UnSubscribeDeviceId_def str_def [symmetric] s_def [symmetric] Let_def
          chs_def [symmetric])
    have hs: "pc_holds chs d x \<longleftrightarrow> (if x = sid then False else pc_holds (ps_channels st) d x)" for d x
      unfolding chs_def pc_pub.holds_del [OF i] using own by auto
    have "pc_inv (st\<lparr>ps_channels := chs\<rparr>) (h(sid := s))"
      by (rule pc_inv_set [OF assms(1) pc_pub.inv_del [OF i, of "GenerateDeviceId str" sid, folded chs_def] s]) (use hs in simp)
    moreover have "agrees (st\<lparr>ps_channels := chs\<rparr>) (h(sid := s)) d
        (upstream (if IsEmptySubscriber (GenerateDeviceId str) chs then [(unsub_request, str)] else []) d b)"
      if a: "agrees st h d b" for d b
    proof (cases "d = GenerateDeviceId str")
      case False
      then have "names ((h(sid := s)) x) d \<longleftrightarrow> names (h x) d" for x
        using s(2) by (auto simp: names_def str_def)
      moreover have "pc_holds chs d x \<longleftrightarrow> pc_holds (ps_channels st) d x" for x
        using hs [of d x] own False by auto
      ultimately show ?thesis using a False by (auto simp: agrees_def)
    next
      case True
      have n: "pc_holds chs d x \<Longrightarrow> pc_holds (ps_channels st) d x \<and> names ((h(sid := s)) x) d" for x
        using hs [of d x] assms(1) by (auto simp: pc_inv_def split: if_splits)
      show ?thesis
      proof (cases "IsEmptySubscriber d chs")
        case True
        then show ?thesis
          by (simp add: \<open>d = GenerateDeviceId str\<close> [symmetric] agrees_def)
            (simp add: \<open>d = GenerateDeviceId str\<close> IsEmptySubscriber_holds)
      next
        case False
        then obtain x where x: "pc_holds chs d x" by (auto simp: IsEmptySubscriber_holds)
        then have b using n [OF x] a by (auto simp: agrees_def)
        moreover have "\<exists>y. names ((h(sid := s)) y) d" using n [OF x] by blast
        ultimately show ?thesis using False True by (simp add: agrees_def del: fun_upd_apply)
      qed
    qed
    ultimately show ?thesis using u s(2) hs by (auto simp: in_step_def)
  qed
qed

text \<open>Giving up the old channel is what unsubscribing does, but for the text.\<close>

lemma TryUnsubscriber_as_Unsub:
  assumes "client_connected st" "pc_str_device_id (h sid) = [] \<or> pc_str_device_id (h sid) \<noteq> str"
    and "UnSubscribeDeviceId sid st h = Inr (st', h', reqs)"
  shows "TryUnsubscriberOldDeviceId sid str st h = Inr (st', reqs) \<and>
    h' = h(sid := (h sid)\<lparr>pc_str_device_id := []\<rparr>)"
  using assms by (auto simp: TryUnsubscriberOldDeviceId_def UnSubscribeDeviceId_def client_connected_def Let_def
      split: option.splits if_splits)

lemma Add_in_step:
  assumes "pc_inv st h" "str \<noteq> []" "pc_str_device_id (h sid) = [] \<or> pc_str_device_id (h sid) = str"
  defines "chs \<equiv> PcPublisher_AddSubscriber (GenerateDeviceId str) sid (ps_channels st)"
  shows "in_step st h str sid (Inr (st\<lparr>ps_channels := chs\<rparr>, h(sid := (h sid)\<lparr>pc_str_device_id := str\<rparr>),
    if SizeSubscriber (GenerateDeviceId str) chs = 1 then [(sub_request, str)] else []))"
proof -
  define s where "s = (h sid)\<lparr>pc_str_device_id := str\<rparr>"
  have s: "ts_can_write s = ts_can_write (h sid)" "pc_str_device_id s = str" by (simp_all add: s_def)
  have i: "pubs_inv (ps_channels st)" using assms(1) by (simp add: pc_inv_def)
  have own: "pc_holds (ps_channels st) d sid \<Longrightarrow> d = GenerateDeviceId str" for d
    using assms(1,3) by (auto simp: pc_inv_def names_def)
  have hs: "pc_holds chs d x \<longleftrightarrow>
      (if x = sid then str \<noteq> [] \<and> d = GenerateDeviceId str else pc_holds (ps_channels st) d x)" for d x
    unfolding chs_def pc_pub.holds_add [OF i] using own assms(2) by auto
  have "pc_inv (st\<lparr>ps_channels := chs\<rparr>) (h(sid := s))"
    by (rule pc_inv_set [OF assms(1) pc_pub.inv_add [OF i, of "GenerateDeviceId str" sid, folded chs_def] s hs])
  moreover have "agrees (st\<lparr>ps_channels := chs\<rparr>) (h(sid := s)) d
      (upstream (if SizeSubscriber (GenerateDeviceId str) chs = 1 then [(sub_request, str)] else []) d b)"
    if a: "agrees st h d b" for d b
  proof (cases "d = GenerateDeviceId str")
    case True
    have "SizeSubscriber (GenerateDeviceId str) chs \<noteq> 1 \<Longrightarrow> b"
      using a Size_after_add [of "GenerateDeviceId str" sid "ps_channels st"]
      by (auto simp: agrees_def chs_def IsEmptySubscriber_holds True)
    moreover have "names ((h(sid := s)) sid) d" using True assms(2) s(2) by (simp add: names_def)
    ultimately show ?thesis using True unfolding agrees_def by auto
  next
    case False
    then have "names ((h(sid := s)) x) d \<longleftrightarrow> names (h x) d" for x
      using assms(3) s(2) by (auto simp: names_def)
    moreover have "pc_holds chs d x \<longleftrightarrow> pc_holds (ps_channels st) d x" for x
      using hs [of d x] own False by auto
    ultimately show ?thesis using a False by (auto simp: agrees_def)
  qed
  ultimately show ?thesis using s(2) hs unfolding s_def [symmetric] in_step_def by auto
qed

lemma in_step_trans:
  assumes "in_step st h s1 sid (Inr (st1, h1, reqs1))" "in_step st1 h1 s2 sid (Inr (st2, h2, reqs2))"
  shows "in_step st h s2 sid (Inr (st2, h2, reqs1 @ reqs2))"
  using assms by (auto simp: in_step_def upstream_append)

lemma Subscribe_in_step:
  assumes "pc_inv st h" "client_connected st"
  shows "in_step st h str sid (SubscribeDeviceId sid str st h)"
proof (cases "pc_str_device_id (h sid) = [] \<or> pc_str_device_id (h sid) \<noteq> str")
  case True
  obtain st1 h1 reqs1 where u: "UnSubscribeDeviceId sid st h = Inr (st1, h1, reqs1)"
    "in_step st h [] sid (Inr (st1, h1, reqs1))"
    using Unsub_in_step [OF assms, of sid] by (auto simp: in_step_def)
  note t = TryUnsubscriber_as_Unsub [OF assms(2) True u(1)]
  have h1: "h1(sid := (h1 sid)\<lparr>pc_str_device_id := str\<rparr>) = h(sid := (h sid)\<lparr>pc_str_device_id := str\<rparr>)"
    "str = [] \<Longrightarrow> h1 = h(sid := (h sid)\<lparr>pc_str_device_id := str\<rparr>)" using t by auto
  have e: "pc_inv st1 h1" "pc_str_device_id (h1 sid) = []" "ps_client st1 = ps_client st"
    using u(2) by (auto simp: in_step_def)
  show ?thesis
  proof (cases "str = []")
    case True
    then have "SubscribeDeviceId sid str st h = Inr (st1, h1, reqs1)"
      using t h1(2) by (simp add: SubscribeDeviceId_def res_simps)
    with u(2) True show ?thesis by simp
  next
    case False
    define chs where "chs = PcPublisher_AddSubscriber (GenerateDeviceId str) sid (ps_channels st1)"
    have sub: "SubscribeDeviceId sid str st h = Inr (st1\<lparr>ps_channels := chs\<rparr>,
        h1(sid := (h1 sid)\<lparr>pc_str_device_id := str\<rparr>),
        reqs1 @ (if SizeSubscriber (GenerateDeviceId str) chs = 1 then [(sub_request, str)] else []))"
      using t False e(3) assms(2) unfolding h1(1)
      by (auto simp: SubscribeDeviceId_def res_simps Let_def chs_def client_connected_def split: option.splits)
    have "pc_str_device_id (h1 sid) = [] \<or> pc_str_device_id (h1 sid) = str" using e(2) by simp
    from in_step_trans [OF u(2) Add_in_step [OF e(1) False this, folded chs_def]] show ?thesis
      by (simp only: sub)
  qed
next
  case False
  then have str: "str \<noteq> []" "pc_str_device_id (h sid) = str" by auto
  define chs where "chs = PcPublisher_AddSubscriber (GenerateDeviceId str) sid (ps_channels st)"
  have sub: "SubscribeDeviceId sid str st h = Inr (st\<lparr>ps_channels := chs\<rparr>,
      h(sid := (h sid)\<lparr>pc_str_device_id := str\<rparr>),
      if SizeSubscriber (GenerateDeviceId str) chs = 1 then [(sub_request, str)] else [])"
    using str assms(2)
    by (auto simp: SubscribeDeviceId_def TryUnsubscriberOldDeviceId_def res_simps Let_def chs_def client_connected_def
        split: option.splits)
  have "pc_str_device_id (h sid) = [] \<or> pc_str_device_id (h sid) = str" using str(2) by simp
  from Add_in_step [OF assms(1) str(1) this, folded chs_def] show ?thesis by (simp only: sub)
qed

section \<open>Reconnecting\<close>

lemma resubscribe_upstream:
  assumes "\<forall>d \<in> set ds. unat d < 2 ^ 56"
  shows "\<exists>reqs. resubscribe (Some c) ds = Inr reqs \<and> (\<forall>d b. upstream reqs d b = (b \<or> d \<in> set ds))"
  using assms
proof (induction ds)
  case (Cons d ds)
  then obtain reqs where ih: "resubscribe (Some c) ds = Inr reqs" "\<And>d b. upstream reqs d b = (b \<or> d \<in> set ds)"
    by auto
  have d: "unat d < 2 ^ 56" using Cons.prems by simp
  have "resubscribe (Some c) (d # ds) = Inr ((sub_request, dev_text d) # reqs)"
    using ih(1) GenerateDeviceIdStrByDeviceId_eq [OF d] by (simp add: res_simps del: hex_str.simps)
  moreover have "upstream ((sub_request, dev_text d) # reqs) x b = (b \<or> x \<in> set (d # ds))" for x b
    using GenerateDeviceId_dev_text [OF d] by (auto simp: ih(2) simp del: hex_str.simps)
  ultimately show ?case by blast
qed simp

lemma GetAllDeviceId_holds:
  "pubs_inv chs \<Longrightarrow> d \<in> set (GetAllDeviceId True chs) \<longleftrightarrow> \<not> IsEmptySubscriber d chs"
proof -
  assume i: "pubs_inv chs"
  then have "(d, m) \<in> set chs \<longleftrightarrow> sm_find chs d = Some m" for m
    using sm_wf_in_find [of chs d m] sm_find_in [of chs d m] by (auto simp: pubs_inv_def)
  then show ?thesis
    by (auto simp: GetAllDeviceId_def IsEmptySubscriber_def SizeSubscriber_def image_iff split: option.splits)
qed

text \<open>
  The events that leave the connection to jt1078_server alone, and those of a run with the
  connections as they are after each.
\<close>

fun while_connected :: "pc_event \<Rightarrow> bool" where
  "while_connected (PcConnection _ _ _ _ _ _) = True"
| "while_connected (PcPacket _ _) = True"
| "while_connected (PcError _ _) = True"
| "while_connected (PcRelayed _ _ _) = True"
| "while_connected HeartbeatTimer = True"
| "while_connected _ = False"

fun pc_trace :: "pc_event list \<Rightarrow> pc_server \<times> pc_heap \<Rightarrow> (pc_event \<times> pc_heap) list" where
  "pc_trace [] s = []"
| "pc_trace (ev # evs) s =
     (case pc_step ev s of Inl _ \<Rightarrow> [] | Inr (s', _) \<Rightarrow> (ev, snd s') # pc_trace evs s')"

text \<open>
  Whether \<open>sid\<close> is in channel \<open>d\<close> after an event, given whether it was before: its own subscribe
  packets, unsubscribe packets and errors decide, and a packet relayed for the channel drops it when
  it cannot be written then.
\<close>

definition pc_routed :: "u64 \<Rightarrow> session_id \<Rightarrow> pc_event \<times> pc_heap \<Rightarrow> bool \<Rightarrow> bool" where
  "pc_routed d sid t b = (case fst t of
       PcPacket x p \<Rightarrow>
         if x \<noteq> sid then b
         else if m_uPktType p AND IPC_PKT_TYPE_MASK = IPC_PKT_TYPE_SUBSCRIBE_DEVICE_ID
           then m_data p \<noteq> [] \<and> d = GenerateDeviceId (m_data p)
         else b \<and> m_uPktType p AND IPC_PKT_TYPE_MASK \<noteq> IPC_PKT_TYPE_UNSUBSCRIBE_DEVICE_ID
     | PcError x _ \<Rightarrow> b \<and> x \<noteq> sid
     | PcRelayed _ stale p \<Rightarrow>
         b \<and> (m_uPktType p AND IPC_PKT_TYPE_MASK = IPC_PKT_TYPE_JT1078_PACKET \<and>
           of_nat (le_nat (take 8 (m_data p @ stale))) = d \<longrightarrow> ts_can_write (snd t sid))
     | _ \<Rightarrow> b)"

definition step_in_step :: "pc_event \<Rightarrow> pc_server \<times> pc_heap \<Rightarrow> (pc_server \<times> pc_heap) \<times> request list \<Rightarrow> bool" where
  "step_in_step ev s r \<longleftrightarrow> (case r of ((st', h'), reqs) \<Rightarrow> pc_inv st' h' \<and>
     client_connected st' = client_connected (fst s) \<and>
     (\<forall>d sid. pc_holds (ps_channels st') d sid \<longleftrightarrow> pc_routed d sid (ev, h') (pc_holds (ps_channels (fst s)) d sid)) \<and>
     (\<forall>d b. agrees (fst s) (snd s) d b \<longrightarrow> agrees st' h' d (upstream reqs d b)))"

lemma in_step_step:
  assumes "in_step st h str sid (Inr (st', h', reqs))"
    "\<And>d x. pc_routed d x (ev, h') (pc_holds (ps_channels st) d x) \<longleftrightarrow>
      (if x = sid then str \<noteq> [] \<and> d = GenerateDeviceId str else pc_holds (ps_channels st) d x)"
  shows "step_in_step ev (st, h) ((st', h'), reqs)"
  using assms by (simp add: in_step_def step_in_step_def client_connected_def)

lemma PcPacket_in_step:
  assumes "pc_inv st h" "client_connected st"
  shows "\<exists>r. pc_step (PcPacket sid p) (st, h) = Inr r \<and> step_in_step (PcPacket sid p) (st, h) r"
proof -
  define t where "t = m_uPktType p AND IPC_PKT_TYPE_MASK"
  consider (sub) "t = IPC_PKT_TYPE_SUBSCRIBE_DEVICE_ID" | (unsub) "t = IPC_PKT_TYPE_UNSUBSCRIBE_DEVICE_ID"
    | (other) "t \<noteq> IPC_PKT_TYPE_SUBSCRIBE_DEVICE_ID" "t \<noteq> IPC_PKT_TYPE_UNSUBSCRIBE_DEVICE_ID" by blast
  then show ?thesis
  proof cases
    case sub
    from Subscribe_in_step [OF assms, of "m_data p" sid] obtain st' h' reqs where
      r: "SubscribeDeviceId sid (m_data p) st h = Inr (st', h', reqs)"
      "in_step st h (m_data p) sid (Inr (st', h', reqs))" by (auto simp: in_step_def)
    have "step_in_step (PcPacket sid p) (st, h) ((st', h'), reqs)"
      by (rule in_step_step [OF r(2)]) (use sub in \<open>simp add: pc_routed_def t_def\<close>)
    with r(1) sub assms(2) show ?thesis
      by (auto simp: PcServer_OnPacketCompleted_def t_def ProcessPcPacket_Subscribe_def res_simps)
  next
    case unsub
    from Unsub_in_step [OF assms, of sid] obtain st' h' reqs where
      r: "UnSubscribeDeviceId sid st h = Inr (st', h', reqs)" "in_step st h [] sid (Inr (st', h', reqs))"
      by (auto simp: in_step_def)
    have "step_in_step (PcPacket sid p) (st, h) ((st', h'), reqs)"
      by (rule in_step_step [OF r(2)]) (use unsub in \<open>simp add: pc_routed_def t_def\<close>)
    with r(1) unsub assms(2) show ?thesis
      by (auto simp: PcServer_OnPacketCompleted_def t_def ProcessPcPacket_UnSubscribe_def res_simps)
  next
    case other
    with assms show ?thesis
      by (simp add: step_in_step_def PcServer_OnPacketCompleted_def t_def res_simps pc_routed_def)
  qed
qed

lemma PcManager_irrelevant:
  "pc_inv (st\<lparr>ps_manager := m\<rparr>) h = pc_inv st h" "agrees (st\<lparr>ps_manager := m\<rparr>) h d b = agrees st h d b"
  "client_connected (st\<lparr>ps_manager := m\<rparr>) = client_connected st"
  by (simp_all add: pc_inv_def agrees_def client_connected_def)

lemma PcError_in_step:
  assumes "pc_inv st h" "client_connected st"
  shows "\<exists>r. pc_step (PcError sid e) (st, h) = Inr r \<and> step_in_step (PcError sid e) (st, h) r"
proof -
  from Unsub_in_step [OF assms, of sid] obtain st' h' reqs where
    u: "UnSubscribeDeviceId sid st h = Inr (st', h', reqs)" "in_step st h [] sid (Inr (st', h', reqs))"
    by (auto simp: in_step_def)
  have "step_in_step (PcError sid e) (st, h) ((st', h'), reqs)"
    by (rule in_step_step [OF u(2)]) (simp add: pc_routed_def)
  then have "step_in_step (PcError sid e) (st, h) ((st'\<lparr>ps_manager := PcManager_DelPc sid (ps_manager st')\<rparr>, h'), reqs)"
    by (simp add: step_in_step_def PcManager_irrelevant)
  with u(1) show ?thesis
    by (auto simp: PcServer_OnPacketError_def ReleasePcSessionDeviceId_def res_simps)
qed

lemma PcRelayed_in_step:
  assumes "pc_inv st h" "client_connected st" "pc_step (PcRelayed ans stale p) (st, h) \<noteq> Inl NoReturn"
  shows "\<exists>r. pc_step (PcRelayed ans stale p) (st, h) = Inr r \<and> step_in_step (PcRelayed ans stale p) (st, h) r"
proof (cases "m_uPktType p AND IPC_PKT_TYPE_MASK = IPC_PKT_TYPE_JT1078_PACKET")
  case False
  with assms(1,2) show ?thesis by (auto simp: PcServer_OnClientMessage_def step_in_step_def pc_routed_def)
next
  case True
  define x where "x = (of_nat (le_nat (take 8 (m_data p @ stale))) :: u64)"
  obtain chs h' outs where pub: "PcPublisher_Publish ans x p (ps_channels st) h = Some (chs, h', outs)"
    using assms(2,3) True by (auto simp: PcServer_OnClientMessage_def x_def split: option.splits)
  have i: "pubs_inv (ps_channels st)" using assms(1) by (simp add: pc_inv_def)
  note t = PcPublisher_Publish_table [OF i pub]
  have n: "names (h' sid) d \<longleftrightarrow> names (h sid) d" for sid d by (simp add: names_def t(3))
  have "pc_inv (st\<lparr>ps_channels := chs\<rparr>) h'"
    using assms(1) by (simp add: pc_inv_def n t(1,2)) (blast dest: t(4))
  moreover have "agrees st h d b \<Longrightarrow> agrees (st\<lparr>ps_channels := chs\<rparr>) h' d b" for d b
    by (auto simp: agrees_def n t(2))
  ultimately have "step_in_step (PcRelayed ans stale p) (st, h) ((st\<lparr>ps_channels := chs\<rparr>, h'), [])"
    using True by (auto simp: step_in_step_def pc_routed_def t(2) x_def client_connected_def)
  with pub assms(2) True show ?thesis by (auto simp: PcServer_OnClientMessage_def x_def Let_def)
qed

lemma PcConnection_in_step:
  assumes "pc_inv st h"
  shows "\<exists>r. pc_step (PcConnection ok loop sid fd ip port) (st, h) = Inr r \<and>
    step_in_step (PcConnection ok loop sid fd ip port) (st, h) r"
proof -
  obtain ok' b closed where init:
    "TcpSession_Init TcpSession_Clear ok (Some loop) fd ip port (pc_base (PcSession_new sid)) = (ok', b, closed)"
    by (metis surj_pair)
  define s where "s = pc_set_base b (PcSession_new sid)"
  have s: "pc_str_device_id s = []"
    by (simp add: s_def) (simp add: PcSession_new_def tcp_session.defs pc_session.defs)
  show ?thesis
  proof (cases "sm_find (ps_manager st) sid \<noteq> None \<or> pc_str_device_id (h sid) \<noteq> [] \<or> \<not> ok'")
    case True
    then have "pc_step (PcConnection ok loop sid fd ip port) (st, h) = Inr ((st, h), [])"
      by (auto simp: PcServer_OnNewConnection_def init)
    with assms show ?thesis by (simp add: step_in_step_def pc_routed_def)
  next
    case False
    define st' where "st' = st\<lparr>ps_manager := PcManager_AddPc sid (ps_manager st)\<rparr>"
    have e: "ps_channels st' = ps_channels st" "ps_client st' = ps_client st" by (simp_all add: st'_def)
    have n: "names ((h(sid := s)) x) d \<longleftrightarrow> names (h x) d" for x d
      using False s by (auto simp: names_def)
    have "pc_inv st' (h(sid := s))"
      using assms s False unfolding pc_inv_def n e by (auto simp: names_def)
    moreover have "agrees st' (h(sid := s)) d b = agrees st h d b" for d b
      unfolding agrees_def n e ..
    ultimately have "step_in_step (PcConnection ok loop sid fd ip port) (st, h) ((st', h(sid := s)), [])"
      by (simp add: step_in_step_def pc_routed_def client_connected_def e)
    moreover have "pc_step (PcConnection ok loop sid fd ip port) (st, h) = Inr ((st', h(sid := s)), [])"
      using False by (simp add: PcServer_OnNewConnection_def init st'_def s_def)
    ultimately show ?thesis by blast
  qed
qed

lemma Heartbeat_in_step:
  assumes "pc_inv st h"
  shows "\<exists>r. pc_step HeartbeatTimer (st, h) = Inr r \<and> step_in_step HeartbeatTimer (st, h) r"
proof -
  have t: "(IPC_PKT_TYPE_HEARTBEAT OR IPC_PKT_FROM_PC_SERVER) AND IPC_PKT_TYPE_MASK = IPC_PKT_TYPE_HEARTBEAT"
    by (simp add: ipc_consts)
  have "pc_inv (st\<lparr>ps_heartbeat_timer := True\<rparr>) h" using assms by (simp add: pc_inv_def)
  then have "step_in_step HeartbeatTimer (st, h) ((st\<lparr>ps_heartbeat_timer := True\<rparr>, h),
      if client_connected st then [(IPC_PKT_TYPE_HEARTBEAT OR IPC_PKT_FROM_PC_SERVER, [])] else [])"
    by (simp add: step_in_step_def pc_routed_def client_connected_def agrees_def t ipc_consts)
  moreover have "step_in_step HeartbeatTimer (st, h) ((st, h), [])"
    using assms by (simp add: step_in_step_def pc_routed_def)
  ultimately show ?thesis
    by (cases "ps_heartbeat_timer st") (auto simp: PcServer_OnHeartbeatTimer_def client_connected_def)
qed

lemma pc_step_in_step:
  assumes "pc_inv st h" "client_connected st" "while_connected ev" "pc_step ev (st, h) \<noteq> Inl NoReturn"
  shows "\<exists>r. pc_step ev (st, h) = Inr r \<and> step_in_step ev (st, h) r"
  using assms PcConnection_in_step [OF assms(1)] PcPacket_in_step [OF assms(1,2)] PcError_in_step [OF assms(1,2)]
    PcRelayed_in_step [OF assms(1,2)] Heartbeat_in_step [OF assms(1)]
  by (cases ev) (simp_all del: pc_step.simps)

lemma pc_run_in_step:
  "\<lbrakk>pc_inv st h; client_connected st; \<forall>ev \<in> set evs. while_connected ev; pc_run evs (st, h) \<noteq> Inl NoReturn\<rbrakk> \<Longrightarrow>
    \<exists>st' h' reqs. pc_run evs (st, h) = Inr ((st', h'), reqs) \<and> pc_inv st' h' \<and>
      (\<forall>d sid. pc_holds (ps_channels st') d sid \<longleftrightarrow>
        fold (pc_routed d sid) (pc_trace evs (st, h)) (pc_holds (ps_channels st) d sid)) \<and>
      (\<forall>d b. agrees st h d b \<longrightarrow> agrees st' h' d (upstream reqs d b))"
proof (induction evs arbitrary: st h)
  case (Cons ev evs)
  have "pc_step ev (st, h) \<noteq> Inl NoReturn" "while_connected ev"
    using Cons.prems(3,4) by (auto simp: res_simps simp del: pc_step.simps)
  from pc_step_in_step [OF Cons.prems(1,2) this(2,1)] obtain st1 h1 r1 where
    s1: "pc_step ev (st, h) = Inr ((st1, h1), r1)" "step_in_step ev (st, h) ((st1, h1), r1)" by auto
  then have i: "pc_inv st1 h1" "client_connected st1" using Cons.prems(2) by (auto simp: step_in_step_def)
  have "pc_run evs (st1, h1) \<noteq> Inl NoReturn" "\<forall>ev \<in> set evs. while_connected ev"
    using Cons.prems(3,4) s1(1) by (auto simp: res_simps simp del: pc_step.simps)
  from Cons.IH [OF i this(2,1)] obtain st2 h2 r2 where
    s2: "pc_run evs (st1, h1) = Inr ((st2, h2), r2)" "pc_inv st2 h2"
    "\<And>d sid. pc_holds (ps_channels st2) d sid \<longleftrightarrow>
      fold (pc_routed d sid) (pc_trace evs (st1, h1)) (pc_holds (ps_channels st1) d sid)"
    "\<And>d b. agrees st1 h1 d b \<Longrightarrow> agrees st2 h2 d (upstream r2 d b)" by blast
  have "pc_run (ev # evs) (st, h) = Inr ((st2, h2), r1 @ r2)"
    using s1(1) s2(1) by (simp add: res_simps del: pc_step.simps)
  moreover have "pc_trace (ev # evs) (st, h) = (ev, h1) # pc_trace evs (st1, h1)"
    using s1(1) by (simp del: pc_step.simps)
  ultimately show ?case
    using s1(2) s2(2-4) by (simp add: step_in_step_def upstream_append)
qed simp

text \<open>A client counts as connected when it is told so and its read event could be made.\<close>

lemma OnConnected_connected:
  "tc_connected (fst (Jt1078Client_OnConnected ev fd bOk c)) \<longleftrightarrow>
    bOk \<and> (ev \<or> ts_eventloop c = None \<or> fd = INVALID_SOCKET)"
  by (auto simp: Jt1078Client_OnConnected_def InitReadEvent_def TcpSession_Init_def TcpClient_Clear_def
      TcpSession_Clear_def FreeWriteEvent_def Let_def)

lemma OnConnected_read_event_failed:
  assumes "ts_eventloop c \<noteq> None" "fd \<noteq> INVALID_SOCKET"
  shows "\<not> tc_connected (fst (Jt1078Client_OnConnected False fd bOk c))"
    "bOk \<Longrightarrow> tc_write_event (fst (Jt1078Client_OnConnected False fd bOk c)) = None"
  using assms by (auto simp: Jt1078Client_OnConnected_def InitReadEvent_def TcpSession_Init_def TcpClient_Clear_def
      TcpSession_Clear_def FreeWriteEvent_def Let_def)

lemma reconnect_upstream:
  assumes "pubs_inv (ps_channels st)" "ps_client st = Some c" "tc_write_event c = Some fd" "\<not> tc_connected c"
    "\<forall>d. \<not> IsEmptySubscriber d (ps_channels st) \<longrightarrow> unat d < 2 ^ 56"
  shows "\<exists>st' reqs. pc_step (ClientWritable (EvWrite False) True) (st, h) = Inr ((st', h), reqs) \<and>
    ps_channels st' = ps_channels st \<and> client_connected st' \<and>
    (\<forall>d. upstream reqs d False = (\<not> IsEmptySubscriber d (ps_channels st)))"
proof -
  obtain c' cl where c': "Jt1078Client_OnConnected True fd True (c\<lparr>tc_connected := True\<rparr>) = (c', cl)"
    "tc_connected c'"
    using OnConnected_connected [of True fd True] by (metis surj_pair fst_conv)
  have "\<forall>d \<in> set (GetAllDeviceId True (ps_channels st)). unat d < 2 ^ 56"
    using assms(1,5) by (simp add: GetAllDeviceId_holds)
  from resubscribe_upstream [OF this, of c'] obtain reqs where
    r: "resubscribe (Some c') (GetAllDeviceId True (ps_channels st)) = Inr reqs"
    "\<And>d. upstream reqs d False = (d \<in> set (GetAllDeviceId True (ps_channels st)))" by auto
  have "pc_step (ClientWritable (EvWrite False) True) (st, h) = Inr ((st\<lparr>ps_client := Some c'\<rparr>, h), reqs)"
    using assms(2-4) c'(1) r(1)
    by (simp add: tcp_session_write_cb_def PcServer_OnClientConnect_def res_simps)
  with c'(2) r(2) assms(1) show ?thesis by (simp add: client_connected_def GetAllDeviceId_holds)
qed

text \<open>Something is under way: a connection, an attempt, or the timer that starts one.\<close>

definition alive :: "pc_server \<Rightarrow> bool" where
  "alive st \<longleftrightarrow> ps_connect_timer st \<or>
    (\<exists>c. ps_client st = Some c \<and> (tc_connected c \<or> tc_write_event c \<noteq> None))"

definition attempt_ok :: "connect_env \<Rightarrow> bool" where
  "attempt_ok ce = (ce_ip ce \<noteq> [] \<and> ce_port ce \<noteq> INVALID_PORT \<and>
     fst (AsyncConnect (ce_loop ce) (ce_ip ce) (ce_port ce) (ce_new_fd ce) (ce_nonblock ce) (ce_connect ce)
       (ce_write_event ce) (Jt1078Client_new (ce_session_id ce))) \<and>
     (ce_connect ce = ConnNow \<longrightarrow> ce_read_event ce))"

definition event_ok :: "pc_event \<Rightarrow> bool" where
  "event_ok ev = (case ev of
       ConnectTimer ce \<Rightarrow> attempt_ok ce
     | ClientWritable (EvWrite False) rd \<Rightarrow> rd
     | _ \<Rightarrow> True)"

lemma OnClientConnect_client:
  "PcServer_OnClientConnect bOk st = Inr (st', reqs) \<Longrightarrow>
    st' = (if bOk then st else st\<lparr>ps_client := None, ps_connect_timer := True\<rparr>)"
  by (auto simp: PcServer_OnClientConnect_def rbind_eq_Inr split: if_splits)

lemma AsyncConnect_cb:
  assumes "AsyncConnect l ip port fd nb conn ev c = (ok, c', cb, closed)" "\<not> tc_connected c"
  shows "ok \<Longrightarrow> cb = None \<Longrightarrow> tc_write_event c' \<noteq> None"
    "\<not> ok \<Longrightarrow> cb = None \<and> tc_write_event c' = None \<and> \<not> tc_connected c'"
    "cb = Some (fd', True) \<Longrightarrow> ts_eventloop c' \<noteq> None \<and> fd' \<noteq> INVALID_SOCKET \<and> conn = ConnNow"
    "conn = ConnNow \<Longrightarrow> ok \<Longrightarrow> cb = Some (fd, True)"
  using assms
  by (auto simp: AsyncConnect_def Let_def FreeWriteEvent_def SocketConnect_def INVALID_SOCKET_def
      split: prod.splits if_splits connect_result.splits)

lemma AsyncConnectServer_alive:
  assumes "PcServer_AsyncConnectServer ce st = Inr (ok, st', reqs, closed)" "\<not> ps_connect_timer st"
  shows "alive st' \<longleftrightarrow> attempt_ok ce"
proof (cases "ce_ip ce = [] \<or> ce_port ce = INVALID_PORT")
  case True
  with assms show ?thesis by (auto simp: PcServer_AsyncConnectServer_def attempt_ok_def alive_def)
next
  case False
  obtain ok1 c cb cl where a: "AsyncConnect (ce_loop ce) (ce_ip ce) (ce_port ce) (ce_new_fd ce) (ce_nonblock ce)
      (ce_connect ce) (ce_write_event ce) (Jt1078Client_new (ce_session_id ce)) = (ok1, c, cb, cl)"
    by (metis surj_pair)
  have n: "\<not> tc_connected (Jt1078Client_new (ce_session_id ce))"
    by (simp add: Jt1078Client_new_def tcp_session.defs tcp_client.defs jt1078_client.defs)
  show ?thesis
  proof (cases cb)
    case None
    with assms(1) False a have "st' = st\<lparr>ps_client := Some c\<rparr>"
      by (simp add: PcServer_AsyncConnectServer_def Let_def)
    with AsyncConnect_cb [OF a n] None a False assms(2) show ?thesis
      by (cases ok1) (auto simp: alive_def attempt_ok_def)
  next
    case (Some p)
    obtain fd bOk where p: "p = (fd, bOk)" by (cases p)
    obtain c1 cl1 where c1: "Jt1078Client_OnConnected (ce_read_event ce) fd bOk c = (c1, cl1)"
      by (metis surj_pair)
    with assms(1) False a Some p have
      "PcServer_OnClientConnect bOk (st\<lparr>ps_client := Some c1\<rparr>) = Inr (st', reqs)"
      by (auto simp: PcServer_AsyncConnectServer_def Let_def rbind_eq_Inr)
    note st' = OnClientConnect_client [OF this]
    have ok: "ok1" using AsyncConnect_cb(2) [OF a n] Some by auto
    show ?thesis
    proof (cases bOk)
      case True
      note k = AsyncConnect_cb(3) [OF a n, of fd] Some p True
      have c2: "tc_connected c1 \<longleftrightarrow> ce_read_event ce"
        using OnConnected_connected [of "ce_read_event ce" fd True c] k c1 by auto
      have c3: "tc_write_event c1 = None" if "\<not> ce_read_event ce"
        using OnConnected_read_event_failed(2) [of c fd True] k c1 that by auto
      show ?thesis using c2 c3 k a ok False st' assms(2) by (auto simp: attempt_ok_def alive_def)
    next
      case False
      then have "alive st'" using st' by (simp add: alive_def)
      moreover have "ce_connect ce \<noteq> ConnNow" using AsyncConnect_cb(4) [OF a n] ok Some p False by auto
      ultimately show ?thesis using a ok \<open>\<not> (ce_ip ce = [] \<or> ce_port ce = INVALID_PORT)\<close>
        by (simp add: attempt_ok_def)
    qed
  qed
qed

text \<open>A session's events and the heartbeat do not touch the client and its timer.\<close>

lemma pc_step_client:
  assumes "pc_step ev (st, h) = Inr ((st', h'), reqs)" "while_connected ev"
  shows "ps_client st' = ps_client st \<and> ps_connect_timer st' = ps_connect_timer st"
proof (cases ev)
  case (PcConnection ok loop sid fd ip port)
  with assms(1) show ?thesis
    by (auto simp: PcServer_OnNewConnection_def split: if_splits prod.splits)
next
  case (PcPacket sid p)
  with assms(1) show ?thesis
    by (auto simp: rbind_eq_Inr PcServer_OnPacketCompleted_def Let_def
        ProcessPcPacket_Subscribe_def ProcessPcPacket_UnSubscribe_def SubscribeDeviceId_def
        TryUnsubscriberOldDeviceId_def UnSubscribeDeviceId_def split: if_splits option.splits)
next
  case (PcError sid e)
  with assms(1) show ?thesis
    by (auto simp: rbind_eq_Inr PcServer_OnPacketError_def Let_def
        ReleasePcSessionDeviceId_def UnSubscribeDeviceId_def split: if_splits option.splits)
next
  case (PcRelayed ans stale p)
  with assms(1) show ?thesis
    by (auto simp: PcServer_OnClientMessage_def Let_def split: if_splits option.splits)
next
  case HeartbeatTimer
  with assms(1) show ?thesis by (auto simp: PcServer_OnHeartbeatTimer_def split: if_splits)
qed (use assms(2) in simp_all)

text \<open>The write event of an attempt, and what is left when the read event cannot be made.\<close>

lemma ClientWritable_cases:
  assumes "pc_step (ClientWritable w rd) (st, h) = Inr ((st', h'), reqs)"
  obtains (ignored) "st' = st"
  | (answered) c socket c1 fd bOk cl c2 cl2 where "ps_client st = Some c" "\<not> tc_connected c"
    "tc_write_event c = Some socket" "tcp_session_write_cb socket w c = (c1, (fd, bOk), cl)"
    "Jt1078Client_OnConnected rd fd bOk c1 = (c2, cl2)"
    "st' = (if bOk then st\<lparr>ps_client := Some c2\<rparr> else st\<lparr>ps_client := None, ps_connect_timer := True\<rparr>)"
proof (cases "\<exists>c socket. ps_client st = Some c \<and> \<not> tc_connected c \<and> tc_write_event c = Some socket")
  case False
  with assms have "st' = st" by (auto split: option.splits if_splits)
  then show ?thesis by (rule ignored)
next
  case True
  then obtain c socket where c: "ps_client st = Some c" "\<not> tc_connected c" "tc_write_event c = Some socket"
    by blast
  obtain c1 fd bOk cl where w: "tcp_session_write_cb socket w c = (c1, (fd, bOk), cl)" by (metis surj_pair)
  obtain c2 cl2 where o: "Jt1078Client_OnConnected rd fd bOk c1 = (c2, cl2)" by (metis surj_pair)
  with assms c w have "PcServer_OnClientConnect bOk (st\<lparr>ps_client := Some c2\<rparr>) = Inr (st', reqs)"
    by (auto simp: rbind_eq_Inr)
  from OnClientConnect_client [OF this] show ?thesis using answered [OF c w o] by auto
qed

lemma pc_step_alive:
  assumes "pc_step ev (st, h) = Inr ((st', h'), reqs)"
  shows "alive st \<Longrightarrow> event_ok ev \<Longrightarrow> alive st'" "\<not> alive st \<Longrightarrow> \<not> alive st'"
proof -
  have "(alive st \<and> event_ok ev \<longrightarrow> alive st') \<and> (\<not> alive st \<longrightarrow> \<not> alive st')"
  proof (cases "while_connected ev")
    case True
    from pc_step_client [OF assms this] show ?thesis by (simp add: alive_def)
  next
    case False
    then consider (w) w rd where "ev = ClientWritable w rd" | (e) e where "ev = ClientError e"
      | (t) ce where "ev = ConnectTimer ce" by (cases ev) auto
    then show ?thesis
    proof cases
      case w
      from assms [unfolded w] show ?thesis
      proof (cases rule: ClientWritable_cases)
        case (answered c socket c1 fd bOk cl c2 cl2)
        have "alive st" using answered by (auto simp: alive_def)
        moreover have "tc_connected c2" if "bOk" "event_ok ev"
        proof -
          have "w = EvWrite False" using that(1) answered(4)
            by (auto simp: tcp_session_write_cb_def split: write_event.splits bool.splits)
          with that(2) have rd by (simp add: w event_ok_def)
          with that(1) answered(5) OnConnected_connected [of rd fd bOk c1] show ?thesis by simp
        qed
        ultimately show ?thesis using answered(6) by (auto simp: alive_def)
      qed simp
    next
      case e
      with assms show ?thesis
        by (auto simp: Jt1078Client_OnError_def PcServer_OnClientError_def rbind_eq_Inr alive_def
            split: option.splits if_splits)
    next
      case t
      show ?thesis
      proof (cases "ps_connect_timer st")
        case True
        with assms obtain ok closed where
          "PcServer_AsyncConnectServer ce (st\<lparr>ps_connect_timer := False\<rparr>) = Inr (ok, st', reqs, closed)"
          by (auto simp: t PcServer_OnConnectTimer_def rbind_eq_Inr)
        from AsyncConnectServer_alive [OF this] True show ?thesis by (simp add: t alive_def event_ok_def)
      qed (use assms in \<open>auto simp: t\<close>)
    qed
  qed
  then show "alive st \<Longrightarrow> event_ok ev \<Longrightarrow> alive st'" "\<not> alive st \<Longrightarrow> \<not> alive st'" by simp_all
qed

lemma pc_run_alive:
  "pc_run evs (st, h) = Inr ((st', h'), reqs) \<Longrightarrow>
    (alive st \<and> (\<forall>ev \<in> set evs. event_ok ev) \<longrightarrow> alive st') \<and> (\<not> alive st \<longrightarrow> \<not> alive st')"
proof (induction evs arbitrary: st h reqs)
  case (Cons ev evs)
  then obtain st1 h1 r1 r2 where st: "pc_step ev (st, h) = Inr ((st1, h1), r1)"
    "pc_run evs (st1, h1) = Inr ((st', h'), r2)"
    by (auto simp: rbind_eq_Inr)
  from Cons.IH [OF st(2)] pc_step_alive [OF st(1)] show ?case by auto
qed simp

text \<open>
  The two ways to lose the server: an attempt of the timer that does not get under way, and a
  connection whose read event cannot be made. Nothing tries again after either.
\<close>

lemma failed_attempt_is_final:
  assumes "ps_connect_timer st" "\<not> attempt_ok ce" "pc_run (ConnectTimer ce # evs) (st, h) = Inr ((st', h'), reqs)"
  shows "\<not> alive st'"
proof -
  from assms(3) obtain st1 h1 r1 r2 where st: "pc_step (ConnectTimer ce) (st, h) = Inr ((st1, h1), r1)"
    "pc_run evs (st1, h1) = Inr ((st', h'), r2)"
    by (auto simp: rbind_eq_Inr simp del: pc_step.simps)
  with assms(1) obtain ok closed where
    "PcServer_AsyncConnectServer ce (st\<lparr>ps_connect_timer := False\<rparr>) = Inr (ok, st1, r1, closed)"
    by (auto simp: PcServer_OnConnectTimer_def rbind_eq_Inr)
  from AsyncConnectServer_alive [OF this] assms(2) pc_run_alive [OF st(2)] show ?thesis by simp
qed

lemma failed_read_event_is_final:
  assumes "\<not> ps_connect_timer st" "ps_client st = Some c" "\<not> tc_connected c" "tc_write_event c = Some fd"
    "fd \<noteq> INVALID_SOCKET" "ts_eventloop c = Some loop"
    and "pc_run (ClientWritable (EvWrite False) False # evs) (st, h) = Inr ((st', h'), reqs)"
  shows "\<not> alive st'"
proof -
  from assms(7) obtain st1 h1 r1 r2 where st: "pc_step (ClientWritable (EvWrite False) False) (st, h) = Inr ((st1, h1), r1)"
    "pc_run evs (st1, h1) = Inr ((st', h'), r2)"
    by (auto simp: rbind_eq_Inr simp del: pc_step.simps)
  let ?c = "c\<lparr>tc_connected := True\<rparr>"
  obtain c2 cl where c2: "Jt1078Client_OnConnected False fd True ?c = (c2, cl)" by (metis surj_pair)
  have "\<not> tc_connected c2" "tc_write_event c2 = None"
    using OnConnected_read_event_failed [of ?c fd True] assms(5,6) c2 by auto
  moreover have "PcServer_OnClientConnect True (st\<lparr>ps_client := Some c2\<rparr>) = Inr (st1, r1)"
    using st(1) assms(2-4) c2 by (auto simp: tcp_session_write_cb_def rbind_eq_Inr)
  ultimately have "\<not> alive st1" using OnClientConnect_client assms(1) by (fastforce simp: alive_def)
  with pc_run_alive [OF st(2)] show ?thesis by simp
qed

section \<open>Properties\<close>

text \<open>
  C13. Relaying to a pc client. Whatever the kernel takes of a list of packets of at most 1008 data bytes
  given to a session with nothing pending, the client that decodes the bytes sent so far, cut anyhow
  into pieces of at most 510976 bytes, gets exactly the first of the packets the session took over,
  whole and in order and never an error; the rest is pending; and a session that can still be written
  has taken over all of them.
\<close>

theorem pc_stream_prefix:
  assumes "\<And>p. p \<in> set ps \<Longrightarrow> ipc_pkt_wf p \<and> length (m_data p) \<le> 1008"
    and "ts_pending s = []" "pc_send_list rs ps s = Some (qs, concat cs, s', rs')"
    and "\<And>c. c \<in> set cs \<Longrightarrow> length c \<le> 510976"
  shows "\<exists>k d'. feed_all ipc_PushBuffer ipc_Decode ipcNoError ipcNeedMoreData ipc_GetPacket cs ipc_decoder_new
      = Some (take k qs, Inr (ipcNeedMoreData, d')) \<and>
    concat cs @ concat (ts_pending s') = concat (map ipc_encode qs) \<and> (ts_can_write s' \<longrightarrow> qs = ps)"
proof -
  note sent = pc_send_list_send_all [OF assms(3)]
  have e: "concat (map ipc_encode qs) = concat cs @ concat (ts_pending s')"
    using pc_sender.send_all_conserves [OF conjunct1 [OF sent]] assms(2) by simp
  have "\<And>p. p \<in> set qs \<Longrightarrow> ipc_pkt_wf p \<and> length (m_data p) \<le> 1008" using sent assms(1) by blast
  from ipc_prefix_decodes [OF e this] obtain k r where
    k: "ipc_safe (concat cs)" "parse_all ipc_parse (concat cs) = (take k qs, False, r)" by blast
  obtain d' where "feed_all ipc_PushBuffer ipc_Decode ipcNoError ipcNeedMoreData ipc_GetPacket cs ipc_decoder_new
      = Some (take k qs, Inr (ipcNeedMoreData, d'))"
    using ipcd.feed_all_parse_all [OF ipc_rel_new _ k(1) _ k(2)] assms(4) by force
  with e sent show ?thesis by auto
qed

definition pc_sample :: pc_session where
  "pc_sample = (PcSession_new 1)\<lparr>ts_can_write := True\<rparr>"

lemma pc_sample_fields: "ts_pending pc_sample = []" "ts_can_write pc_sample"
  by (simp_all add: pc_sample_def PcSession_new_def tcp_session_new_def tcp_session.defs pc_session.defs)

theorem pc_stream_prefix_witness:
  "\<exists>k d'. feed_all ipc_PushBuffer ipc_Decode ipcNoError ipcNeedMoreData ipc_GetPacket
      [take 9 (ipc_encode ipc_sample)] ipc_decoder_new = Some (take k [ipc_sample], Inr (ipcNeedMoreData, d'))"
proof -
  have w: "ipc_pkt_wf ipc_sample \<and> length (m_data ipc_sample) \<le> 1008" "length (ipc_encode ipc_sample) = 19"
    by (simp_all add: ipc_pkt_wf_def ipc_sample_def ipc_encode_def)
  have "\<exists>s'. PcSession_SendPacket [SysOk 9] ipc_sample pc_sample = Some (True, take 9 (ipc_encode ipc_sample), s', [])"
    using w(2) pc_sample_fields by (simp add: PcSession_SendPacket_def EmptyPendingBuffer_def SendBuffer_def Let_def)
  then obtain s' where "pc_send_list [SysOk 9] [ipc_sample] pc_sample =
      Some ([ipc_sample], concat [take 9 (ipc_encode ipc_sample)], s', [])" by auto
  from pc_stream_prefix [OF _ pc_sample_fields(1) this] w(1) show ?thesis by auto
qed

text \<open>
  C14. One channel per session. While jt1078_server is connected and every kernel answers, no
  interleaving of new connections, the packets and errors of all sessions, the packets relayed from
  jt1078_server and the heartbeats faults; afterwards a session is in at most one channel, and it is
  in a channel exactly if that is the one its last subscribe packet named, it has neither
  unsubscribed nor had an error since, and no packet relayed for the channel since found its
  connection unwritable or left it so.
\<close>

theorem pc_one_channel:
  assumes "pc_inv st h" "client_connected st" "\<forall>ev \<in> set evs. while_connected ev"
    and "pc_run evs (st, h) \<noteq> Inl NoReturn"
  shows "\<exists>st' h' reqs. pc_run evs (st, h) = Inr ((st', h'), reqs) \<and>
    (\<forall>d sid. pc_holds (ps_channels st') d sid \<longleftrightarrow>
      fold (pc_routed d sid) (pc_trace evs (st, h)) (pc_holds (ps_channels st) d sid)) \<and>
    (\<forall>d d' sid. pc_holds (ps_channels st') d sid \<and> pc_holds (ps_channels st') d' sid \<longrightarrow> d = d')"
proof -
  obtain st' h' reqs where r: "pc_run evs (st, h) = Inr ((st', h'), reqs)" "pc_inv st' h'"
    "\<forall>d sid. pc_holds (ps_channels st') d sid \<longleftrightarrow>
      fold (pc_routed d sid) (pc_trace evs (st, h)) (pc_holds (ps_channels st) d sid)"
    using pc_run_in_step [OF assms] by blast
  have "pc_holds (ps_channels st') d sid \<Longrightarrow> d = GenerateDeviceId (pc_str_device_id (h' sid))" for d sid
    using r(2) by (auto simp: pc_inv_def names_def)
  with r(1,3) show ?thesis by blast
qed

definition pc_server_sample :: pc_server where
  "pc_server_sample = PcServer_new\<lparr>ps_client := Some ((Jt1078Client_new 1)\<lparr>tc_connected := True\<rparr>)\<rparr>"

definition pc_writable :: pc_heap where
  "pc_writable = (\<lambda>sid. (PcSession_new sid)\<lparr>ts_can_write := True\<rparr>)"

lemma new_session_text [simp]: "pc_str_device_id (PcSession_new sid) = []"
  by (simp add: PcSession_new_def tcp_session.defs pc_session.defs)

lemma pc_server_sample_ok: "pc_inv pc_server_sample pc_writable" "client_connected pc_server_sample"
  by (simp_all add: pc_inv_def pc_server_sample_def PcServer_new_def pubs_inv_def pc_holds_def client_connected_def
      names_def pc_writable_def)

lemma pc_send_one_answer:
  assumes "ts_pending s = []" "ts_can_write s"
  shows "\<exists>out s'. PcSession_SendPacket [SysErr EOther] p s = Some (False, out, s', []) \<and> \<not> ts_can_write s'"
    "\<exists>out s'. PcSession_SendPacket [SysOk n] p s = Some (True, out, s', []) \<and> ts_can_write s'"
  using assms
  by (auto simp: PcSession_SendPacket_def EmptyPendingBuffer_def SendBuffer_def Let_def would_block_def
      PushBackPendingBuffer_def)

text \<open>Two sessions watch vehicle 5; one has gone away when its next packet is relayed.\<close>

definition pc_events_sample :: "pc_event list" where
  "pc_events_sample = [PcPacket 7 (sub_packet sub_request (ascii ''5'')), PcPacket 8 (sub_packet sub_request (ascii ''5'')),
     PcRelayed (\<lambda>sid. if sid = 7 then [SysErr EOther] else [SysOk 9]) []
       (sub_packet IPC_PKT_TYPE_JT1078_PACKET (w_le 8 (5 :: u64)))]"

lemma pc_events_sample_result:
  "\<exists>st' h' reqs. pc_run pc_events_sample (pc_server_sample, pc_writable) = Inr ((st', h'), reqs) \<and>
    (\<exists>h1 h2. pc_trace pc_events_sample (pc_server_sample, pc_writable) =
      zip pc_events_sample [h1, h2, h']) \<and> \<not> ts_can_write (h' 7) \<and> ts_can_write (h' 8)"
proof -
  define nm where "nm = ascii ''5''"
  have id: "GenerateDeviceId nm = 5" "nm \<noteq> []" using sample_id by (simp_all add: nm_def) (simp add: ascii_def)
  have id': "of_nat (le_nat (take 8 (w_le 8 (5 :: u64)))) = (5 :: u64)" by (simp add: word_le_roundtrip)
  define c where "c = (Jt1078Client_new 1)\<lparr>tc_connected := True\<rparr>"
  define st where "st chs = \<lparr>ps_manager = [], ps_channels = chs, ps_client = Some c, ps_connect_timer = False,
     ps_heartbeat_timer = False\<rparr>" for chs
  have st0: "pc_server_sample = st []" by (simp add: st_def pc_server_sample_def PcServer_new_def c_def)
  have c: "tc_connected c" by (simp add: c_def)
  define h1 where "h1 = pc_writable(7 := (pc_writable 7)\<lparr>pc_str_device_id := nm\<rparr>)"
  define h2 where "h2 = h1(8 := (h1 8)\<lparr>pc_str_device_id := nm\<rparr>)"
  have p: "ts_pending (h2 sid) = []" "ts_can_write (h2 sid)" for sid
    by (simp_all add: h2_def h1_def pc_writable_def)
      (simp_all add: PcSession_new_def tcp_session_new_def tcp_session.defs pc_session.defs)
  have s1: "pc_step (PcPacket 7 (sub_packet sub_request nm)) (st [], pc_writable) =
      Inr ((st [(5, [(7, ())])], h1), [(sub_request, nm)])"
    using c id by (simp add: PcServer_OnPacketCompleted_def client_connected_def st_def sub_packet_def
        ProcessPcPacket_Subscribe_def SubscribeDeviceId_def TryUnsubscriberOldDeviceId_def pc_writable_def h1_def
        PcPublisher_AddSubscriber_def sm_insert_def SizeSubscriber_def res_simps Let_def)
  have s2: "pc_step (PcPacket 8 (sub_packet sub_request nm)) (st [(5, [(7, ())])], h1) =
      Inr ((st [(5, [(7, ()), (8, ())])], h2), [])"
    using c id by (simp add: PcServer_OnPacketCompleted_def client_connected_def st_def sub_packet_def
        ProcessPcPacket_Subscribe_def SubscribeDeviceId_def TryUnsubscriberOldDeviceId_def pc_writable_def h1_def h2_def
        PcPublisher_AddSubscriber_def sm_insert_def SizeSubscriber_def res_simps Let_def)
  let ?p = "sub_packet IPC_PKT_TYPE_JT1078_PACKET (w_le 8 (5 :: u64))"
  obtain o7 h7 where a7: "PcSession_SendPacket [SysErr EOther] ?p (h2 7) = Some (False, o7, h7, [])"
    "\<not> ts_can_write h7" using pc_send_one_answer(1) [OF p] by blast
  obtain o8 h8 where a8: "PcSession_SendPacket [SysOk 9] ?p (h2 8) = Some (True, o8, h8, [])"
    "ts_can_write h8" using pc_send_one_answer(2) [OF p] by blast
  have t: "m_uPktType ?p AND IPC_PKT_TYPE_MASK = IPC_PKT_TYPE_JT1078_PACKET" "m_data ?p = w_le 8 (5 :: u64)"
    by (simp_all add: sub_packet_def ipc_consts)
  have s3: "pc_step (PcRelayed (\<lambda>sid. if sid = 7 then [SysErr EOther] else [SysOk 9]) [] ?p)
      (st [(5, [(7, ()), (8, ())])], h2) = Inr ((st [(5, [(8, ())])], h2(7 := h7, 8 := h8)), [])"
    using c a7 a8 p(2) id' by (simp add: client_connected_def st_def PcServer_OnClientMessage_def t
        PcPublisher_Publish_def Let_def)
  show ?thesis
    unfolding st0 pc_events_sample_def nm_def [symmetric]
    using s1 s2 s3 a7(2) a8(2) by (simp add: res_simps del: pc_step.simps)
qed

theorem pc_one_channel_witness:
  "\<exists>st' h' reqs. pc_run pc_events_sample (pc_server_sample, pc_writable) = Inr ((st', h'), reqs) \<and>
    pc_holds (ps_channels st') 5 8 \<and> \<not> pc_holds (ps_channels st') 5 7"
proof -
  obtain st' h' reqs h1 h2 where r: "pc_run pc_events_sample (pc_server_sample, pc_writable) = Inr ((st', h'), reqs)"
    "pc_trace pc_events_sample (pc_server_sample, pc_writable) = zip pc_events_sample [h1, h2, h']"
    "\<not> ts_can_write (h' 7)" "ts_can_write (h' 8)"
    using pc_events_sample_result by blast
  have id: "GenerateDeviceId (ascii ''5'') = 5" "ascii ''5'' \<noteq> []" using sample_id by simp (simp add: ascii_def)
  have id': "of_nat (le_nat (take 8 (w_le 8 (5 :: u64)))) = (5 :: u64)" by (simp add: word_le_roundtrip)
  have "\<forall>ev \<in> set pc_events_sample. while_connected ev" by (simp add: pc_events_sample_def)
  from pc_one_channel [OF pc_server_sample_ok this] r(1) have
    "pc_holds (ps_channels st') d sid \<longleftrightarrow> fold (pc_routed d sid) (zip pc_events_sample [h1, h2, h'])
      (pc_holds (ps_channels pc_server_sample) d sid)" for d sid
    by (auto simp: r(2))
  then show ?thesis
    using r id id' by (auto simp: pc_events_sample_def pc_routed_def sub_packet_def ipc_consts)
qed

text \<open>
  C15. In step with jt1078_server. The connection is made again, its read event can be made, every
  watched channel has an identifier below 2^56 and every kernel answers. Then, from this moment on
  and through any interleaving of new connections, the sessions' packets and errors, relayed packets
  and heartbeats, nothing faults, and the requests handed to the new connection have subscribed
  jt1078_server's side - which starts with nothing - to every channel somebody is in, and to no
  other channel but one named by the last subscription of a session that has been dropped from it
  because its connection can no longer be written (its error will unsubscribe).
\<close>

theorem pc_upstream_in_step:
  assumes "pc_inv st h" "ps_client st = Some c" "tc_write_event c = Some fd" "\<not> tc_connected c"
    and "\<forall>d sid. pc_holds (ps_channels st) d sid \<longrightarrow> unat d < 2 ^ 56" "\<forall>ev \<in> set evs. while_connected ev"
    and "pc_run (ClientWritable (EvWrite False) True # evs) (st, h) \<noteq> Inl NoReturn"
  shows "\<exists>st' h' reqs. pc_run (ClientWritable (EvWrite False) True # evs) (st, h) = Inr ((st', h'), reqs) \<and>
    (\<forall>d. ((\<exists>sid. pc_holds (ps_channels st') d sid) \<longrightarrow> upstream reqs d False) \<and>
      (upstream reqs d False \<longrightarrow> (\<exists>sid. names (h' sid) d \<and>
        (pc_holds (ps_channels st') d sid \<or> \<not> ts_can_write (h' sid)))))"
proof -
  have "pubs_inv (ps_channels st)" using assms(1) by (simp add: pc_inv_def)
  from reconnect_upstream [OF this assms(2-4), of h] assms(5) obtain st1 reqs1 where
    s1: "pc_step (ClientWritable (EvWrite False) True) (st, h) = Inr ((st1, h), reqs1)"
    "ps_channels st1 = ps_channels st" "client_connected st1"
    "\<And>d. upstream reqs1 d False = (\<not> IsEmptySubscriber d (ps_channels st))"
    by (auto simp: IsEmptySubscriber_holds)
  have i: "pc_inv st1 h" using assms(1) s1(2) by (simp add: pc_inv_def)
  have run: "pc_run (ClientWritable (EvWrite False) True # evs) (st, h) =
      rbind (pc_run evs (st1, h)) (\<lambda>(s, reqs). Inr (s, reqs1 @ reqs))"
    using s1(1) by (simp add: res_simps del: pc_step.simps)
  then have "pc_run evs (st1, h) \<noteq> Inl NoReturn" using assms(7) by (auto simp: res_simps)
  from pc_run_in_step [OF i s1(3) assms(6) this] obtain st' h' reqs where
    s2: "pc_run evs (st1, h) = Inr ((st', h'), reqs)" "pc_inv st' h'"
    "\<And>d b. agrees st1 h d b \<Longrightarrow> agrees st' h' d (upstream reqs d b)" by blast
  have "agrees st1 h d (upstream reqs1 d False)" for d
    using i s1(2) by (auto simp: agrees_def s1(4) IsEmptySubscriber_holds pc_inv_def)
  then have a: "agrees st' h' d (upstream (reqs1 @ reqs) d False)" for d
    using s2(3) by (simp add: upstream_append)
  have "pc_run (ClientWritable (EvWrite False) True # evs) (st, h) = Inr ((st', h'), reqs1 @ reqs)"
    using run s2(1) by (simp add: res_simps)
  with a s2(2) show ?thesis unfolding agrees_def pc_inv_def by blast
qed

definition pc_waiting :: pc_server where
  "pc_waiting = PcServer_new\<lparr>ps_client := Some ((Jt1078Client_new 1)\<lparr>tc_write_event := Some 5\<rparr>),
     ps_channels := [(5, [(7, ())])]\<rparr>"

definition pc_watching :: pc_heap where
  "pc_watching = PcSession_new(7 := (PcSession_new 7)\<lparr>pc_str_device_id := ascii ''5''\<rparr>)"

lemma pc_waiting_inv: "pc_inv (pc_waiting\<lparr>ps_client := x\<rparr>) pc_watching"
proof -
  have "ascii ''5'' \<noteq> []" by (simp add: ascii_def)
  moreover have "GenerateDeviceId (ascii ''5'') = 5" using sample_id by simp
  ultimately show ?thesis
    by (auto simp: pc_inv_def pc_waiting_def PcServer_new_def pc_watching_def pubs_inv_def pc_holds_def names_def
        sm_wf_Cons split: if_splits)
qed

theorem pc_upstream_in_step_witness:
  "\<exists>st' h' reqs. pc_run (ClientWritable (EvWrite False) True # [PcError 7 TCP_ERROR_DISCONNECT])
      (pc_waiting, pc_watching) = Inr ((st', h'), reqs) \<and>
    (\<forall>d. ((\<exists>sid. pc_holds (ps_channels st') d sid) \<longrightarrow> upstream reqs d False) \<and>
      (upstream reqs d False \<longrightarrow> (\<exists>sid. names (h' sid) d \<and>
        (pc_holds (ps_channels st') d sid \<or> \<not> ts_can_write (h' sid)))))"
proof -
  have "pc_waiting = pc_waiting\<lparr>ps_client := ps_client pc_waiting\<rparr>" by simp
  then have i: "pc_inv pc_waiting pc_watching" using pc_waiting_inv by metis
  have c: "ps_client pc_waiting = Some ((Jt1078Client_new 1)\<lparr>tc_write_event := Some 5\<rparr>)"
    by (simp add: pc_waiting_def)
  have n: "\<not> tc_connected ((Jt1078Client_new 1)\<lparr>tc_write_event := Some 5\<rparr>)"
    by (simp add: Jt1078Client_new_def tcp_session.defs tcp_client.defs jt1078_client.defs)
  have d: "\<forall>d sid. pc_holds (ps_channels pc_waiting) d sid \<longrightarrow> unat d < 2 ^ 56"
    by (auto simp: pc_waiting_def pc_holds_def split: if_splits)
  have r: "pc_run (ClientWritable (EvWrite False) True # [PcError 7 TCP_ERROR_DISCONNECT]) (pc_waiting, pc_watching)
      \<noteq> Inl NoReturn"
  proof -
    have b: "rbind m k = Inl NoReturn \<Longrightarrow> m = Inl NoReturn \<or> (\<exists>x. m = Inr x \<and> k x = Inl NoReturn)" for m k
      by (cases m) auto
    have "pc_step (PcError 7 TCP_ERROR_DISCONNECT) s \<noteq> Inl NoReturn" for s
      by (cases s) (auto simp: PcServer_OnPacketError_def ReleasePcSessionDeviceId_def UnSubscribeDeviceId_def Let_def
          dest!: b split: if_splits option.splits)
    moreover have "pubs_inv (ps_channels pc_waiting)" using i by (simp add: pc_inv_def)
    ultimately show ?thesis
      using reconnect_upstream [OF _ c _ n, of 5 pc_watching] d
      by (fastforce simp: IsEmptySubscriber_holds res_simps simp del: pc_step.simps dest!: b)
  qed
  show ?thesis by (rule pc_upstream_in_step [OF i c _ n d _ r]) simp_all
qed

text \<open>
  C16. Leaving while jt1078_server is away. In a consistent state, when a session has an error and there is no client (after
  the connection was lost, until the timer makes the next attempt), the server dereferences a null
  pointer exactly if nobody else is in the channel the session had subscribed to last; nothing else
  can go wrong.
\<close>

theorem last_viewer_without_client:
  assumes "pc_inv st h"
  shows "((\<exists>f. pc_step (PcError sid e) (st, h) = Inl f) \<longleftrightarrow>
      ps_client st = None \<and> pc_str_device_id (h sid) \<noteq> [] \<and>
      (\<forall>x. pc_holds (ps_channels st) (GenerateDeviceId (pc_str_device_id (h sid))) x \<longrightarrow> x = sid)) \<and>
    (\<forall>f. pc_step (PcError sid e) (st, h) = Inl f \<longrightarrow> f = NullDeref)"
proof
  define str where "str = pc_str_device_id (h sid)"
  have i: "pubs_inv (ps_channels st)" using assms by (simp add: pc_inv_def)
  have e: "IsEmptySubscriber (GenerateDeviceId str)
      (PcPublisher_DelSubscriber_from (GenerateDeviceId str) sid (ps_channels st)) \<longleftrightarrow>
      (\<forall>x. pc_holds (ps_channels st) (GenerateDeviceId str) x \<longrightarrow> x = sid)"
    using pc_pub.holds_del [OF i] by (auto simp: IsEmptySubscriber_holds)
  show "(\<exists>f. pc_step (PcError sid e) (st, h) = Inl f) \<longleftrightarrow>
      ps_client st = None \<and> pc_str_device_id (h sid) \<noteq> [] \<and>
      (\<forall>x. pc_holds (ps_channels st) (GenerateDeviceId (pc_str_device_id (h sid))) x \<longrightarrow> x = sid)"
    unfolding str_def [symmetric] e [symmetric]
    by (auto simp: PcServer_OnPacketError_def ReleasePcSessionDeviceId_def UnSubscribeDeviceId_def res_simps
        Let_def str_def [symmetric] split: option.splits)
  show "\<forall>f. pc_step (PcError sid e) (st, h) = Inl f \<longrightarrow> f = NullDeref"
    by (auto simp: PcServer_OnPacketError_def ReleasePcSessionDeviceId_def UnSubscribeDeviceId_def res_simps
        Let_def split: option.splits if_splits)
qed

theorem last_viewer_without_client_witness:
  "\<exists>f. pc_step (PcError 7 TCP_ERROR_DISCONNECT) (pc_waiting\<lparr>ps_client := None\<rparr>, pc_watching) = Inl f"
proof -
  have "GenerateDeviceId (ascii ''5'') = 5" using sample_id by simp
  then show ?thesis
    unfolding conjunct1 [OF last_viewer_without_client [OF pc_waiting_inv]]
    by (auto simp: pc_watching_def pc_waiting_def pc_holds_def ascii_def split: if_splits)
qed

text \<open>
  C17. The pc server goes on trying to reach jt1078_server: after any run that does not fault there
  is a connection, an attempt that waits for its answer, or a timer that will start one - if there
  was before, every attempt the timer starts gets under way (it has an address, a socket and its
  write event), and the read event of every connection that is made, at once or later, can be made.
  If there was none before, there is none after the run either, whatever happens: what these
  conditions exclude is final (\<open>failed_attempt_is_final\<close>, \<open>failed_read_event_is_final\<close>).
\<close>

theorem pc_keeps_reconnecting:
  assumes "pc_run evs (st, h) = Inr ((st', h'), reqs)"
  shows "((ps_connect_timer st \<or> (\<exists>c. ps_client st = Some c \<and> (tc_connected c \<or> tc_write_event c \<noteq> None))) \<and>
      (\<forall>ev \<in> set evs. event_ok ev) \<longrightarrow>
      ps_connect_timer st' \<or> (\<exists>c. ps_client st' = Some c \<and> (tc_connected c \<or> tc_write_event c \<noteq> None))) \<and>
    (\<not> (ps_connect_timer st \<or> (\<exists>c. ps_client st = Some c \<and> (tc_connected c \<or> tc_write_event c \<noteq> None))) \<longrightarrow>
      \<not> (ps_connect_timer st' \<or> (\<exists>c. ps_client st' = Some c \<and> (tc_connected c \<or> tc_write_event c \<noteq> None))))"
  using pc_run_alive [OF assms] unfolding alive_def .

theorem pc_keeps_reconnecting_witness:
  "\<exists>st'. pc_run [ClientError TCP_ERROR_DISCONNECT, HeartbeatTimer] (pc_server_sample, PcSession_new)
      = Inr ((st', PcSession_new), []) \<and>
    (ps_connect_timer st' \<or> (\<exists>c. ps_client st' = Some c \<and> (tc_connected c \<or> tc_write_event c \<noteq> None)))"
proof -
  define st' where "st' = pc_server_sample\<lparr>ps_client := None, ps_connect_timer := True\<rparr>"
  have "pc_run [ClientError TCP_ERROR_DISCONNECT, HeartbeatTimer] (pc_server_sample, PcSession_new)
      = Inr ((st', PcSession_new), [])"
    by (simp add: pc_server_sample_def Jt1078Client_OnError_def PcServer_OnClientError_def res_simps
        st'_def PcServer_new_def)
  from pc_keeps_reconnecting [OF this] this show ?thesis by (auto simp: pc_server_sample_def event_ok_def)
qed

end
