(* ===== verification/G711.thy ===== *)
theory G711
  imports Prelude
begin

text \<open>
  The G.711 companding of the web server (web_server/audio/G711.cpp): A-law and u-law in both
  directions, and the loops over a buffer. C's \<open>int\<close> is \<open>int\<close>, since no intermediate value leaves
  the range of 32 bits (the samples are 16 bits wide); \<open>unsigned char\<close> is \<open>byte\<close>, a stored
  \<open>short\<close> is \<open>16 word\<close>.
\<close>

section \<open>Definitions\<close>

definition SIGN_BIT :: int where "SIGN_BIT = 0x80"
definition QUANT_MASK :: int where "QUANT_MASK = 0xf"
definition SEG_SHIFT :: nat where "SEG_SHIFT = 4"
definition SEG_MASK :: int where "SEG_MASK = 0x70"
definition BIAS :: int where "BIAS = 0x84"

definition seg_end :: "int list" where
  "seg_end = [0xFF, 0x1FF, 0x3FF, 0x7FF, 0xFFF, 0x1FFF, 0x3FFF, 0x7FFF]"

fun search :: "int \<Rightarrow> int list \<Rightarrow> nat" where
  "search val [] = 0"
| "search val (e # es) = (if val \<le> e then 0 else Suc (search val es))"

definition alaw2linear :: "byte \<Rightarrow> int" where
  "alaw2linear a_val =
     (let a = uint (a_val XOR 0x55);
          t = push_bit 4 (a AND QUANT_MASK);
          seg = nat (drop_bit SEG_SHIFT (a AND SEG_MASK));
          t = (if seg = 0 then t + 8 else if seg = 1 then t + 0x108 else push_bit (seg - 1) (t + 0x108)) in
      if a AND SIGN_BIT \<noteq> 0 then t else - t)"

definition ulaw2linear :: "byte \<Rightarrow> int" where
  "ulaw2linear u_val =
     (let u = uint (NOT u_val);
          t = push_bit 3 (u AND QUANT_MASK) + BIAS;
          t = push_bit (nat (drop_bit SEG_SHIFT (u AND SEG_MASK))) t in
      if u AND SIGN_BIT \<noteq> 0 then BIAS - t else t - BIAS)"

definition linear2alaw :: "int \<Rightarrow> byte" where
  "linear2alaw pcm_val =
     (let msk = (if 0 \<le> pcm_val then 0xD5 else 0x55 :: byte);
          v = (if 0 \<le> pcm_val then pcm_val else - pcm_val - 8);
          seg = search v seg_end in
      if 8 \<le> seg then 0x7F XOR msk
      else of_int (push_bit SEG_SHIFT (int seg) OR
             (if seg < 2 then drop_bit 4 v AND QUANT_MASK else drop_bit (seg + 3) v AND QUANT_MASK)) XOR msk)"

definition linear2ulaw :: "int \<Rightarrow> byte" where
  "linear2ulaw pcm_val =
     (let msk = (if pcm_val < 0 then 0x7F else 0xFF :: byte);
          v = (if pcm_val < 0 then BIAS - pcm_val else pcm_val + BIAS);
          seg = search v seg_end in
      if 8 \<le> seg then 0x7F XOR msk
      else of_int (push_bit 4 (int seg) OR (drop_bit (seg + 3) v AND 0xF)) XOR msk)"

text \<open>The loops: the samples (or bytes) written and the return value.\<close>

definition g711a_decode :: "byte list \<Rightarrow> 16 word list \<times> nat" where
  "g711a_decode bs = (map (\<lambda>c. of_int (alaw2linear c)) bs, 2 * length bs)"

definition g711u_decode :: "byte list \<Rightarrow> 16 word list \<times> nat" where
  "g711u_decode bs = (map (\<lambda>c. of_int (ulaw2linear c)) bs, 2 * length bs)"

definition g711a_encode :: "16 word list \<Rightarrow> byte list \<times> nat" where
  "g711a_encode amp = (map (\<lambda>s. linear2alaw (sint s)) amp, length amp)"

definition g711u_encode :: "16 word list \<Rightarrow> byte list \<times> nat" where
  "g711u_encode amp = (map (\<lambda>s. linear2ulaw (sint s)) amp, length amp)"

section \<open>Code words\<close>

lemma search_cases:
  assumes "search v seg_end = s" "s < 8"
  shows "s = 0 \<and> v \<le> 0xFF \<or> s > 0 \<and> 2 ^ (s + 7) \<le> v \<and> v < 2 ^ (s + 8)"
  using assms by (auto simp: seg_end_def split: if_splits)

lemma search_eight: "8 \<le> search v seg_end \<longleftrightarrow> 0x7FFF < v"
  by (simp add: seg_end_def)

text \<open>A code word is a sign, a segment and four quantization bits.\<close>

definition code_word :: "nat \<Rightarrow> nat \<Rightarrow> byte" where
  "code_word s q = of_nat (16 * s + q)"

lemma pack_code:
  assumes "s < 8"
  shows "of_int (push_bit 4 (int s) OR (x AND 0xF)) = code_word s (nat (x mod 16))"
proof -
  have k: "(0xF :: int) = mask 4" by (simp add: mask_eq_exp_minus_1)
  have d: "push_bit 4 (int s) AND (x AND 0xF) = 0"
    unfolding k by (rule bit_eqI) (auto simp: bit_simps)
  have m: "x AND 0xF = x mod 16"
    unfolding k take_bit_eq_mask [symmetric] by (simp add: take_bit_eq_mod)
  show ?thesis
    using disjunctive_add_eq_or [OF d, symmetric] unfolding code_word_def m
    by (simp add: push_bit_eq_mult algebra_simps)
qed

text \<open>What the decoders make of a code word, checked on all 128 of them.\<close>

definition alaw_level :: "nat \<Rightarrow> nat \<Rightarrow> int" where
  "alaw_level s q = (if s = 0 then 16 * int q + 8 else 2 ^ (s - 1) * (16 * int q + 0x108))"

definition ulaw_level :: "nat \<Rightarrow> nat \<Rightarrow> int" where
  "ulaw_level s q = 2 ^ s * (8 * int q + 0x84) - 0x84"

lemma decoded_levels:
  "\<forall>s \<in> set [0..<8]. \<forall>q \<in> set [0..<16].
    alaw2linear (code_word s q XOR 0xD5) = alaw_level s q \<and> alaw2linear (code_word s q XOR 0x55) = - alaw_level s q \<and>
    ulaw2linear (code_word s q XOR 0xFF) = ulaw_level s q \<and> ulaw2linear (code_word s q XOR 0x7F) = - ulaw_level s q"
  by code_simp

lemma high_half: "\<forall>n \<in> set [128..<256]. (of_nat n XOR 0x80 :: byte) = of_nat (n - 128)"
  by code_simp

lemma code_word_of_byte: "unat (e :: byte) < 128 \<Longrightarrow> e = code_word (unat e div 16) (unat e mod 16)"
  by (simp add: code_word_def)

lemma byte_code_word:
  obtains s q where "s < 8" "q < 16" "c = code_word s q XOR m \<or> c = code_word s q XOR (0x80 XOR m)"
proof -
  define e where "e = c XOR m"
  have c: "c = e XOR m" by (simp add: e_def xor.assoc)
  show ?thesis
  proof (cases "unat e < 128")
    case True
    with c code_word_of_byte [OF True] that [of "unat e div 16" "unat e mod 16"] show ?thesis by auto
  next
    case False
    define f where "f = e XOR 0x80"
    have "unat e \<in> set [128..<256]" using False unat_byte_lt [of e] by (simp only: set_upt atLeastLessThan_iff) simp
    from bspec [OF high_half this] have "f = of_nat (unat e - 128)"
      unfolding f_def by (simp only: of_nat_unat unsigned_ucast_eq ucast_id)
    moreover have "unat (of_nat (unat e - 128) :: byte) = unat e - 128"
      using unat_byte_lt [of e] by (intro unat_of_nat_eq) simp
    ultimately have l: "unat f < 128" using unat_byte_lt [of e] False by simp
    have "c = f XOR (0x80 XOR m)"
      unfolding f_def c by (rule bit_word_eqI) (auto simp: bit_xor_iff)
    with code_word_of_byte [OF l] that [of "unat f div 16" "unat f mod 16"] l show ?thesis by auto
  qed
qed

lemma unat_code_word: "s < 8 \<Longrightarrow> q < 16 \<Longrightarrow> unat (code_word s q) = 16 * s + q"
  unfolding code_word_def by (intro unat_of_nat_eq) simp

text \<open>The encoders as a segment and a quantization.\<close>

lemma linear2alaw_eq:
  assumes "v = (if 0 \<le> x then x else - x - 8)" "s = search v seg_end" "s < 8"
  shows "linear2alaw x = code_word s (nat ((if s < 2 then v div 16 else v div 2 ^ (s + 3)) mod 16)) XOR
    (if 0 \<le> x then 0xD5 else 0x55)"
proof -
  have "\<not> 8 \<le> s" using assms(3) by simp
  then show ?thesis
    unfolding linear2alaw_def Let_def assms(1) [symmetric] assms(2) [symmetric] QUANT_MASK_def SEG_SHIFT_def
    by (simp only: if_False pack_code [OF assms(3)] drop_bit_eq_div if_distrib [of "\<lambda>x. _ OR x"] if_distrib [of of_int])
      (simp add: pack_code [OF assms(3)])
qed

lemma linear2ulaw_eq:
  assumes "v = (if x < 0 then BIAS - x else x + BIAS)" "s = search v seg_end" "s < 8"
  shows "linear2ulaw x = code_word s (nat (v div 2 ^ (s + 3) mod 16)) XOR (if x < 0 then 0x7F else 0xFF)"
proof -
  have "\<not> 8 \<le> s" using assms(3) by simp
  then show ?thesis
    unfolding linear2ulaw_def Let_def assms(1) [symmetric] assms(2) [symmetric]
    by (simp only: if_False pack_code [OF assms(3)] drop_bit_eq_div)
qed

lemma levels_quantize:
  "\<forall>s \<in> set [0..<8]. \<forall>q \<in> set [0..<16].
    0 < alaw_level s q \<and> 8 \<le> alaw_level s q \<and> 0 \<le> ulaw_level s q \<and>
    search (alaw_level s q) seg_end = s \<and> search (alaw_level s q - 8) seg_end = s \<and>
    search (ulaw_level s q + 0x84) seg_end = s \<and>
    nat ((if s < 2 then alaw_level s q div 16 else alaw_level s q div 2 ^ (s + 3)) mod 16) = q \<and>
    nat ((if s < 2 then (alaw_level s q - 8) div 16 else (alaw_level s q - 8) div 2 ^ (s + 3)) mod 16) = q \<and>
    nat ((ulaw_level s q + 0x84) div 2 ^ (s + 3) mod 16) = q \<and>
    (ulaw_level s q = 0 \<longleftrightarrow> s = 0 \<and> q = 0) \<and> alaw_level s q \<le> 32256 \<and> ulaw_level s q \<le> 32124"
  by code_simp

section \<open>Quantization error\<close>

text \<open>A segment halves the range at a time, so the level in the middle of a step is near.\<close>

lemma step_middle:
  fixes v d :: int
  assumes "2 ^ (s + 7) \<le> v" "v < 2 ^ (s + 8)" and d: "d = v div 2 ^ (s + 3)"
  shows "d mod 16 = d - 16" "\<bar>2 ^ (s + 3) * d + 2 ^ (s + 2) - v\<bar> \<le> v div 32"
proof -
  define m :: int where "m = 2 ^ (s + 2)"
  have p: "(2 :: int) ^ (s + 3) = 2 * m" "(2 :: int) ^ (s + 7) = 32 * m" "(2 :: int) ^ (s + 8) = 64 * m"
    "0 < m"
    by (simp_all add: m_def power_add)
  have v: "32 * m \<le> v" "v < 64 * m" using assms(1,2) by (simp_all add: p)
  have dv: "v = 2 * m * d + v mod (2 * m)" "0 \<le> v mod (2 * m)" "v mod (2 * m) < 2 * m"
    using p(4) by (simp_all add: d p(1))
  have "16 \<le> d"
  proof (rule ccontr)
    assume "\<not> 16 \<le> d"
    then have "2 * m * d \<le> 2 * m * 15" using p(4) by (intro mult_left_mono) auto
    with dv v(1) show False by linarith
  qed
  moreover have "d < 32"
  proof (rule ccontr)
    assume "\<not> d < 32"
    then have "2 * m * 32 \<le> 2 * m * d" using p(4) by (intro mult_left_mono) auto
    with dv v(2) show False by linarith
  qed
  ultimately show "d mod 16 = d - 16" by presburger
  have "m \<le> v div 32" using v(1) by linarith
  then show "\<bar>2 ^ (s + 3) * d + 2 ^ (s + 2) - v\<bar> \<le> v div 32"
    using dv unfolding p(1) m_def [symmetric] by linarith
qed

lemma alaw_level_near:
  assumes "search v seg_end = s" "s < 8" "0 \<le> v"
  defines "q \<equiv> nat ((if s < 2 then v div 16 else v div 2 ^ (s + 3)) mod 16)"
  shows "\<bar>alaw_level s q - v\<bar> \<le> 8 + v div 32"
proof -
  consider "s = 0" | "s = 1" | t where "s = Suc (Suc t)" by (metis not0_implies_Suc One_nat_def)
  then show ?thesis
  proof cases
    case 1
    then have v: "v \<le> 0xFF" using search_cases [OF assms(1,2)] by simp
    have "v = 16 * (v div 16) + v mod 16" "0 \<le> v mod 16" "v mod 16 < 16" by simp_all
    moreover have "int q = v div 16" using v assms(3) 1 by (simp add: q_def)
    moreover have "0 \<le> v div 32" using assms(3) by simp
    ultimately show ?thesis unfolding alaw_level_def 1 by simp
  next
    case 2
    then have v: "256 \<le> v" "v < 512" using search_cases [OF assms(1,2)] by simp_all
    have "v = 16 * (v div 16) + v mod 16" "0 \<le> v mod 16" "v mod 16 < 16" by simp_all
    moreover have "16 \<le> v div 16" "v div 16 < 32" using v calculation by linarith+
    then have "v div 16 mod 16 = v div 16 - 16" by (smt (verit) mod_pos_pos_trivial minus_mod_self2)
    then have "int q = v div 16 - 16" using v 2 by (simp add: q_def)
    moreover have "0 \<le> v div 32" using v by simp
    ultimately show ?thesis unfolding alaw_level_def 2 by simp
  next
    case (3 t)
    define d where "d = v div 2 ^ (s + 3)"
    note b = search_cases [OF assms(1,2)]
    have m: "d mod 16 = d - 16" "\<bar>2 ^ (s + 3) * d + 2 ^ (s + 2) - v\<bar> \<le> v div 32"
      using step_middle [of s v d] b 3 by (simp_all add: d_def)
    have "0 \<le> d mod 16" by simp
    moreover have "\<not> s < 2" using 3 by simp
    ultimately have "int q = d - 16" using m(1) by (simp add: q_def d_def [symmetric])
    then have "d = int q + 16" by simp
    then have "alaw_level s q = 2 ^ (s + 3) * d + 2 ^ (s + 2)"
      using 3 by (simp add: alaw_level_def power_add algebra_simps)
    with m(2) show ?thesis by simp
  qed
qed

lemma ulaw_level_near:
  assumes "search v seg_end = s" "s < 8" "0x84 \<le> v"
  defines "q \<equiv> nat (v div 2 ^ (s + 3) mod 16)"
  shows "\<bar>ulaw_level s q + 0x84 - v\<bar> \<le> v div 32"
proof -
  have b: "2 ^ (s + 7) \<le> v" "v < 2 ^ (s + 8)" using search_cases [OF assms(1,2)] assms(3) by auto
  define d where "d = v div 2 ^ (s + 3)"
  note m = step_middle [OF b d_def]
  have "0 \<le> d mod 16" by simp
  then have "int q = d - 16" using m(1) by (simp add: q_def d_def [symmetric])
  then have "d = int q + 16" by simp
  then have "ulaw_level s q + 0x84 = 2 ^ (s + 3) * d + 2 ^ (s + 2)"
    by (simp add: ulaw_level_def power_add algebra_simps)
  with m(2) show ?thesis by simp
qed

lemma level_facts:
  assumes "s < 8" "q < 16"
  shows "alaw2linear (code_word s q XOR 0xD5) = alaw_level s q" "alaw2linear (code_word s q XOR 0x55) = - alaw_level s q"
    "ulaw2linear (code_word s q XOR 0xFF) = ulaw_level s q" "ulaw2linear (code_word s q XOR 0x7F) = - ulaw_level s q"
    "linear2alaw (alaw_level s q) = code_word s q XOR 0xD5" "linear2alaw (- alaw_level s q) = code_word s q XOR 0x55"
    "linear2ulaw (ulaw_level s q) = code_word s q XOR 0xFF"
    "0 < ulaw_level s q \<Longrightarrow> linear2ulaw (- ulaw_level s q) = code_word s q XOR 0x7F"
    "0 \<le> alaw_level s q" "alaw_level s q \<le> 32256" "0 \<le> ulaw_level s q" "ulaw_level s q \<le> 32124"
    "ulaw_level s q = 0 \<longleftrightarrow> s = 0 \<and> q = 0"
proof -
  have m: "s \<in> set [0..<8]" "q \<in> set [0..<16]" using assms by (simp_all only: set_upt atLeastLessThan_iff) simp_all
  note d = bspec [OF bspec [OF decoded_levels m(1)] m(2)] and l = bspec [OF bspec [OF levels_quantize m(1)] m(2)]
  from d show "alaw2linear (code_word s q XOR 0xD5) = alaw_level s q"
    "alaw2linear (code_word s q XOR 0x55) = - alaw_level s q"
    "ulaw2linear (code_word s q XOR 0xFF) = ulaw_level s q" "ulaw2linear (code_word s q XOR 0x7F) = - ulaw_level s q"
    by blast+
  from l show "0 \<le> alaw_level s q" "alaw_level s q \<le> 32256" "0 \<le> ulaw_level s q" "ulaw_level s q \<le> 32124"
    "ulaw_level s q = 0 \<longleftrightarrow> s = 0 \<and> q = 0" by simp_all
  show "linear2alaw (alaw_level s q) = code_word s q XOR 0xD5"
    using linear2alaw_eq [of "alaw_level s q" "alaw_level s q" s] l assms(1) by simp
  show "linear2alaw (- alaw_level s q) = code_word s q XOR 0x55"
    using linear2alaw_eq [of "alaw_level s q - 8" "- alaw_level s q" s] l assms(1) by simp
  show "linear2ulaw (ulaw_level s q) = code_word s q XOR 0xFF"
    using linear2ulaw_eq [of "ulaw_level s q + 0x84" "ulaw_level s q" s] l assms(1) by (simp add: BIAS_def)
  show "linear2ulaw (- ulaw_level s q) = code_word s q XOR 0x7F" if "0 < ulaw_level s q"
    using linear2ulaw_eq [of "ulaw_level s q + 0x84" "- ulaw_level s q" s] l assms(1) that
    by (simp add: BIAS_def add.commute)
qed

lemma sint_of_int16: "\<bar>x\<bar> \<le> 32767 \<Longrightarrow> sint (of_int x :: 16 word) = x"
  by (simp add: signed_of_int signed_take_bit_int_eq_self)

section \<open>Properties\<close>

text \<open>
  C18. The companding tables are consistent. Encoding what a code word decodes to gives the code word
  back, for all 256 of A-law and, but for the two codes of zero, all of u-law; and every decoded
  sample fits 16 bits, so that storing it in a \<open>short\<close> changes nothing.
\<close>

theorem g711_reencodes:
  "linear2alaw (alaw2linear c) = c \<and> linear2ulaw (ulaw2linear c) = (if c = 0x7F then 0xFF else c) \<and>
    sint (of_int (alaw2linear c) :: 16 word) = alaw2linear c \<and> sint (of_int (ulaw2linear c) :: 16 word) = ulaw2linear c"
proof (intro conjI)
  obtain s q where a: "s < 8" "q < 16" "c = code_word s q XOR 0xD5 \<or> c = code_word s q XOR 0x55"
    using byte_code_word [of c "0xD5"] by auto
  note f = level_facts [OF a(1,2)]
  show "linear2alaw (alaw2linear c) = c" using a(3) f by auto
  show "sint (of_int (alaw2linear c) :: 16 word) = alaw2linear c"
    using a(3) f by (intro sint_of_int16) auto
next
  obtain s q where u: "s < 8" "q < 16" "c = code_word s q XOR 0xFF \<or> c = code_word s q XOR 0x7F"
    using byte_code_word [of c "0xFF"] by auto
  note f = level_facts [OF u(1,2)]
  show "sint (of_int (ulaw2linear c) :: 16 word) = ulaw2linear c"
    using u(3) f by (intro sint_of_int16) auto
  show "linear2ulaw (ulaw2linear c) = (if c = 0x7F then 0xFF else c)"
    using u(3)
  proof
    assume c: "c = code_word s q XOR 0xFF"
    have "c \<noteq> 0x7F"
    proof
      assume "c = 0x7F"
      then have "code_word s q = 0x7F XOR 0xFF" using c by (metis xor.assoc xor_self_eq xor.right_neutral)
      with unat_code_word [OF u(1,2)] u(1,2) show False by simp
    qed
    with c f show ?thesis by simp
  next
    assume c: "c = code_word s q XOR 0x7F"
    show ?thesis
    proof (cases "ulaw_level s q = 0")
      case True
      then have "code_word s q = 0" using f(13) by (simp add: code_word_def)
      with True c f(3,4,7) show ?thesis by simp
    next
      case False
      then have "0 < 16 * s + q" using f(13) by simp
      then have "code_word s q \<noteq> 0" using unat_code_word [OF u(1,2)] by (metis less_irrefl unat_0)
      then have "c \<noteq> 0x7F" using c by (metis xor.assoc xor_self_eq xor.right_neutral)
      with False c f(4,8,11) show ?thesis by simp
    qed
  qed
qed

lemma alaw_decoded:
  assumes "v = (if 0 \<le> x then x else - x - 8)" "v \<le> 0x7FFF" "s = search v seg_end"
    "q = nat ((if s < 2 then v div 16 else v div 2 ^ (s + 3)) mod 16)"
  shows "s < 8" "alaw2linear (linear2alaw x) = (if 0 \<le> x then alaw_level s q else - alaw_level s q)"
proof -
  show s: "s < 8" using assms(2,3) search_eight [of v] by simp
  have "q < 16" by (simp add: assms(4))
  with level_facts(1,2) [OF s] linear2alaw_eq [OF assms(1,3) s, folded assms(4)]
  show "alaw2linear (linear2alaw x) = (if 0 \<le> x then alaw_level s q else - alaw_level s q)" by auto
qed

lemma ulaw_decoded:
  assumes "v = \<bar>x\<bar> + 0x84" "v \<le> 0x7FFF" "s = search v seg_end" "q = nat (v div 2 ^ (s + 3) mod 16)"
  shows "s < 8" "ulaw2linear (linear2ulaw x) = (if 0 \<le> x then ulaw_level s q else - ulaw_level s q)"
proof -
  show s: "s < 8" using assms(2,3) search_eight [of v] by simp
  have "q < 16" by (simp add: assms(4))
  moreover have "v = (if x < 0 then BIAS - x else x + BIAS)" by (simp add: assms(1) BIAS_def)
  note linear2ulaw_eq [OF this assms(3) s, folded assms(4)]
  ultimately show "ulaw2linear (linear2ulaw x) = (if 0 \<le> x then ulaw_level s q else - ulaw_level s q)"
    using level_facts(3,4) [OF s] by auto
qed

lemma ulaw_clipped:
  assumes "0x7FFF < \<bar>x\<bar> + 0x84"
  shows "ulaw2linear (linear2ulaw x) = (if 0 \<le> x then 32124 else - 32124)"
proof -
  have "linear2ulaw x = (if x < 0 then 0x7F XOR 0x7F else 0x7F XOR 0xFF)"
    using assms search_eight [of "if x < 0 then BIAS - x else x + BIAS"]
    by (auto simp: linear2ulaw_def Let_def BIAS_def)
  moreover have "ulaw2linear (0x7F XOR 0x7F) = - 32124" "ulaw2linear (0x7F XOR 0xFF) = 32124" by code_simp+
  ultimately show ?thesis by auto
qed

text \<open>
  C19. Quantization of 16-bit samples. A sample \<open>x\<close> comes back from u-law with an error of at most
  \<open>(\<bar>x\<bar> + 132) div 32\<close>, and from A-law with an error of at most \<open>16 + \<bar>x\<bar> div 32\<close> - but for the
  seven small negative samples -7 to -1, which all come back as -248.
\<close>

theorem g711_quantization:
  assumes "- 32768 \<le> x" "x < 32768"
  shows "(x < - 7 \<or> 0 \<le> x \<longrightarrow> \<bar>alaw2linear (linear2alaw x) - x\<bar> \<le> 16 + \<bar>x\<bar> div 32) \<and>
    (- 7 \<le> x \<and> x < 0 \<longrightarrow> alaw2linear (linear2alaw x) = - 248) \<and>
    \<bar>ulaw2linear (linear2ulaw x) - x\<bar> \<le> (\<bar>x\<bar> + 0x84) div 32"
proof (intro conjI impI)
  define v where "v = (if 0 \<le> x then x else - x - 8)"
  define s where "s = search v seg_end"
  define q where "q = nat ((if s < 2 then v div 16 else v div 2 ^ (s + 3)) mod 16)"
  have "v \<le> 0x7FFF" using assms by (simp add: v_def)
  note a = alaw_decoded [OF v_def this s_def q_def]
  show "\<bar>alaw2linear (linear2alaw x) - x\<bar> \<le> 16 + \<bar>x\<bar> div 32" if x: "x < - 7 \<or> 0 \<le> x"
  proof -
    have v: "0 \<le> v" "v \<le> \<bar>x\<bar>" "x = (if 0 \<le> x then v else - v - 8)" using x by (auto simp: v_def)
    have "\<bar>alaw_level s q - v\<bar> \<le> 8 + v div 32"
      using alaw_level_near [OF s_def [symmetric] a(1) v(1)] by (simp add: q_def)
    moreover have "v div 32 \<le> \<bar>x\<bar> div 32" using v(2) by (rule zdiv_mono1) simp
    ultimately show ?thesis unfolding a(2) using v(3) by (auto split: if_splits)
  qed
  show "alaw2linear (linear2alaw x) = - 248" if x: "- 7 \<le> x \<and> x < 0"
  proof -
    have v: "- 7 \<le> v" "v < 0" using x by (auto simp: v_def)
    then have "s = 0" by (simp add: s_def seg_end_def)
    moreover have "v div 16 = - 1" using v by linarith
    ultimately show ?thesis using x unfolding a(2) by (simp add: q_def alaw_level_def)
  qed
next
  define v where "v = \<bar>x\<bar> + 0x84"
  show "\<bar>ulaw2linear (linear2ulaw x) - x\<bar> \<le> (\<bar>x\<bar> + 0x84) div 32"
  proof (cases "v \<le> 0x7FFF")
    case True
    define s where "s = search v seg_end"
    define q where "q = nat (v div 2 ^ (s + 3) mod 16)"
    note u = ulaw_decoded [OF v_def True s_def q_def]
    have "\<bar>ulaw_level s q + 0x84 - v\<bar> \<le> v div 32"
      using ulaw_level_near [OF s_def [symmetric] u(1)] by (simp add: q_def v_def)
    then show ?thesis unfolding u(2) v_def by (auto split: if_splits)
  next
    case False
    then have "32636 \<le> \<bar>x\<bar>" by (simp add: v_def)
    moreover from this have "1024 \<le> (\<bar>x\<bar> + 0x84) div 32" by linarith
    ultimately show ?thesis using ulaw_clipped [of x] False assms by (auto simp: v_def)
  qed
qed

theorem g711_quantization_witness:
  "\<bar>alaw2linear (linear2alaw 1000) - 1000\<bar> \<le> 16 + 31 \<and> alaw2linear (linear2alaw (- 3)) = - 248"
  using g711_quantization [of 1000] g711_quantization [of "- 3"] by simp

end
