(* ===== verification/Adpcm.thy ===== *)
theory Adpcm
  imports Prelude
begin

text \<open>
  The IMA ADPCM coder and decoder of the web server (web_server/audio/Adpcm.cpp). All intermediate
  values stay far inside 32 bits, so C's \<open>int\<close> is \<open>int\<close>; the two tables are read at an index
  that the caller supplies, and a read outside them is a fault. The coder keeps the same state as a
  decoder of its output: that is the theorem of this file.
\<close>

section \<open>Definitions\<close>

record adpcm_state =
  ad_valprev :: int
  ad_index :: int

definition indexTable :: "int list" where
  "indexTable = [-1, -1, -1, -1, 2, 4, 6, 8, -1, -1, -1, -1, 2, 4, 6, 8]"

definition stepsizeTable :: "int list" where
  "stepsizeTable = [
     7, 8, 9, 10, 11, 12, 13, 14, 16, 17,
     19, 21, 23, 25, 28, 31, 34, 37, 41, 45,
     50, 55, 60, 66, 73, 80, 88, 97, 107, 118,
     130, 143, 157, 173, 190, 209, 230, 253, 279, 307,
     337, 371, 408, 449, 494, 544, 598, 658, 724, 796,
     876, 963, 1060, 1166, 1282, 1411, 1552, 1707, 1878, 2066,
     2272, 2499, 2749, 3024, 3327, 3660, 4026, 4428, 4871, 5358,
     5894, 6484, 7132, 7845, 8630, 9493, 10442, 11487, 12635, 13899,
     15289, 16818, 18500, 20350, 22385, 24623, 27086, 29794, 32767]"

text \<open>Clamping the prediction to 16 bits and the index to the table, as both loops do.\<close>

definition clamp16 :: "int \<Rightarrow> int" where
  "clamp16 v = (if v > 32767 then 32767 else if v < -32768 then -32768 else v)"

definition clamp_index :: "int \<Rightarrow> int" where
  "clamp_index i = (let i = (if i < 0 then 0 else i) in if i > 88 then 88 else i)"

text \<open>One iteration of the coder: the four-bit value and the new prediction and index.\<close>

definition adpcm_code :: "int \<Rightarrow> int \<times> int \<Rightarrow> int \<times> int \<times> int" where
  "adpcm_code val st =
     (case st of (valpred, index) \<Rightarrow>
       (let step = stepsizeTable ! nat index;
            diff = val - valpred;
            sign = (if diff < 0 then 8 else 0 :: int);
            diff = (if sign \<noteq> 0 then - diff else diff);
            vpdiff = drop_bit 3 step;
            (delta, diff, vpdiff) = (if diff \<ge> step then (4, diff - step, vpdiff + step) else (0, diff, vpdiff));
            step = drop_bit 1 step;
            (delta, diff, vpdiff) =
              (if diff \<ge> step then (delta OR 2, diff - step, vpdiff + step) else (delta, diff, vpdiff));
            step = drop_bit 1 step;
            (delta, vpdiff) = (if diff \<ge> step then (delta OR 1, vpdiff + step) else (delta, vpdiff));
            valpred = clamp16 (if sign \<noteq> 0 then valpred - vpdiff else valpred + vpdiff);
            delta = delta OR sign;
            index = clamp_index (index + indexTable ! nat delta) in
        (delta, valpred, index)))"

text \<open>The coder's loop: two values make a byte, a last single one is written out at the end.\<close>

fun adpcm_coder_loop :: "int list \<Rightarrow> bool \<Rightarrow> int \<Rightarrow> int \<times> int \<Rightarrow> byte list \<times> (int \<times> int)" where
  "adpcm_coder_loop [] bufferstep outputbuffer st = (if \<not> bufferstep then [of_int outputbuffer] else [], st)"
| "adpcm_coder_loop (val # vals) bufferstep outputbuffer st =
     (case adpcm_code val st of (delta, st') \<Rightarrow>
        if bufferstep then adpcm_coder_loop vals False (push_bit 4 delta AND 0xf0) st'
        else (case adpcm_coder_loop vals True outputbuffer st' of (out, st'') \<Rightarrow>
                (of_int ((delta AND 0x0f) OR outputbuffer) # out, st'')))"

definition table_index :: "int \<Rightarrow> bool" where
  "table_index i = (0 \<le> i \<and> i \<le> 88)"

definition adpcm_coder :: "int list \<Rightarrow> adpcm_state \<Rightarrow> fault + (byte list \<times> adpcm_state)" where
  "adpcm_coder indata state =
     (if \<not> table_index (ad_index state) then Inl OutOfBounds
      else (case adpcm_coder_loop indata True 0 (ad_valprev state, ad_index state) of (out, valpred, index) \<Rightarrow>
        Inr (out, \<lparr>ad_valprev = valpred, ad_index = index\<rparr>)))"

text \<open>One iteration of the decoder, given the four-bit value.\<close>

definition adpcm_decode :: "int \<Rightarrow> int \<times> int \<Rightarrow> int \<times> int" where
  "adpcm_decode delta st =
     (case st of (valpred, index) \<Rightarrow>
       (let step = stepsizeTable ! nat index;
            index = clamp_index (index + indexTable ! nat delta);
            sign = delta AND 8;
            delta = delta AND 7;
            vpdiff = drop_bit 3 step;
            vpdiff = (if delta AND 4 \<noteq> 0 then vpdiff + step else vpdiff);
            vpdiff = (if delta AND 2 \<noteq> 0 then vpdiff + drop_bit 1 step else vpdiff);
            vpdiff = (if delta AND 1 \<noteq> 0 then vpdiff + drop_bit 2 step else vpdiff);
            valpred = clamp16 (if sign \<noteq> 0 then valpred - vpdiff else valpred + vpdiff) in
        (valpred, index)))"

text \<open>The decoder's loop over \<open>n\<close> samples; running out of input is a read past its end.\<close>

fun adpcm_decoder_loop ::
  "nat \<Rightarrow> bool \<Rightarrow> int \<Rightarrow> byte list \<Rightarrow> int \<times> int \<Rightarrow> fault + (int list \<times> (int \<times> int))" where
  "adpcm_decoder_loop 0 bufferstep inputbuffer inp st = Inr ([], st)"
| "adpcm_decoder_loop (Suc n) True inputbuffer inp st =
     (let st' = adpcm_decode (inputbuffer AND 0xf) st in
      rbind (adpcm_decoder_loop n False inputbuffer inp st') (\<lambda>(out, r). Inr (fst st' # out, r)))"
| "adpcm_decoder_loop (Suc n) False inputbuffer [] st = Inl OutOfBounds"
| "adpcm_decoder_loop (Suc n) False inputbuffer (b # inp) st =
     (let st' = adpcm_decode (drop_bit 4 (sint b) AND 0xf) st in
      rbind (adpcm_decoder_loop n True (sint b) inp st') (\<lambda>(out, r). Inr (fst st' # out, r)))"

definition adpcm_decoder :: "byte list \<Rightarrow> nat \<Rightarrow> adpcm_state \<Rightarrow> fault + (int list \<times> adpcm_state)" where
  "adpcm_decoder indata len state =
     (if \<not> table_index (ad_index state) then Inl OutOfBounds
      else rbind (adpcm_decoder_loop len False 0 indata (ad_valprev state, ad_index state)) (\<lambda>(out, valpred, index).
        Inr (out, \<lparr>ad_valprev = valpred, ad_index = index\<rparr>)))"

section \<open>Coder and decoder in step\<close>

lemma clamp_index_range: "table_index (clamp_index i)"
  by (simp add: clamp_index_def table_index_def Let_def)

lemma clamp16_range: "-32768 \<le> clamp16 v \<and> clamp16 v \<le> 32767"
  by (simp add: clamp16_def)

text \<open>The value the coder emits makes the decoder take the coder's step.\<close>

lemma adpcm_code_decode:
  assumes "adpcm_code val st = (delta, st')"
  shows "adpcm_decode delta st = st'" "0 \<le> delta" "delta < 16" "table_index (snd st')"
proof -
  obtain valpred index where st: "st = (valpred, index)" by (cases st)
  define step where "step = stepsizeTable ! nat index"
  have d: "drop_bit (Suc (Suc 0)) step = drop_bit 2 step" by (simp add: numeral_2_eq_2)
  show "adpcm_decode delta st = st'" "0 \<le> delta" "delta < 16" "table_index (snd st')"
    using assms
    by (auto simp: adpcm_code_def adpcm_decode_def st step_def [symmetric] Let_def d clamp_index_range
        split: if_splits)
qed

text \<open>The two halves of a byte come out as they were put in.\<close>

lemma nibbles_list:
  "\<forall>d \<in> set [0..15]. \<forall>e \<in> set [0..15].
    (let b = of_int ((e AND 0x0f) OR (push_bit 4 d AND 0xf0)) :: byte in
     drop_bit 4 (sint b) AND 0xf = d \<and> sint b AND 0xf = e) \<and>
    (let b = of_int (push_bit 4 d AND 0xf0) :: byte in drop_bit 4 (sint b) AND 0xf = d)"
  by code_simp

lemma nibbles:
  fixes d e :: int
  assumes "0 \<le> d" "d < 16" "0 \<le> e" "e < 16"
  shows "drop_bit 4 (sint (of_int ((e AND 0x0f) OR (push_bit 4 d AND 0xf0)) :: byte)) AND 0xf = d"
    "sint (of_int ((e AND 0x0f) OR (push_bit 4 d AND 0xf0)) :: byte) AND 0xf = e"
    "drop_bit 4 (sint (of_int (push_bit 4 d AND 0xf0) :: byte)) AND 0xf = d"
proof -
  have m: "d \<in> set [0..15]" "e \<in> set [0..15]" using assms by (simp_all only: set_upto atLeastAtMost_iff) simp_all
  from bspec [OF bspec [OF nibbles_list m(1)] m(2)]
  show "drop_bit 4 (sint (of_int ((e AND 0x0f) OR (push_bit 4 d AND 0xf0)) :: byte)) AND 0xf = d"
    "sint (of_int ((e AND 0x0f) OR (push_bit 4 d AND 0xf0)) :: byte) AND 0xf = e"
    "drop_bit 4 (sint (of_int (push_bit 4 d AND 0xf0) :: byte)) AND 0xf = d"
    unfolding Let_def by blast+
qed

text \<open>The predictions the coder makes, one for each value.\<close>

fun adpcm_track :: "int list \<Rightarrow> int \<times> int \<Rightarrow> int list \<times> (int \<times> int)" where
  "adpcm_track [] st = ([], st)"
| "adpcm_track (v # vs) st =
     (let st' = snd (adpcm_code v st) in (fst st' # fst (adpcm_track vs st'), snd (adpcm_track vs st')))"

lemma length_adpcm_track: "length (fst (adpcm_track vs st)) = length vs"
  by (induction vs arbitrary: st) (simp_all add: Let_def)

lemma coder_loop_track: "snd (adpcm_coder_loop vs bs ob st) = snd (adpcm_track vs st)"
  by (induction vs arbitrary: bs ob st) (simp_all add: split_def Let_def)

text \<open>The second half of a byte is being held exactly when the coder holds the first one.\<close>

lemma adpcm_loops_in_step:
  "adpcm_coder_loop vs True ob st = (out, r) \<Longrightarrow>
    adpcm_decoder_loop (length vs) False ib (out @ rest) st = Inr (adpcm_track vs st)"
proof (induction vs arbitrary: ob ib st out rule: induct_list012)
  case 1
  then show ?case by simp
next
  case (2 v)
  obtain d st' where c: "adpcm_code v st = (d, st')" by (cases "adpcm_code v st")
  note cd = adpcm_code_decode [OF c]
  have "out = [of_int (push_bit 4 d AND 0xf0)]" using 2 c by simp
  then show ?case using nibbles(3) [OF cd(2,3) cd(2,3)] cd(1) c by (simp add: res_simps)
next
  case (3 v w vs)
  obtain d st1 where c: "adpcm_code v st = (d, st1)" by (cases "adpcm_code v st")
  obtain e st2 where c2: "adpcm_code w st1 = (e, st2)" by (cases "adpcm_code w st1")
  note cd = adpcm_code_decode [OF c] and cd2 = adpcm_code_decode [OF c2]
  obtain out' where o: "adpcm_coder_loop vs True (push_bit 4 d AND 0xf0) st2 = (out', r)"
    "out = of_int ((e AND 0x0f) OR (push_bit 4 d AND 0xf0)) # out'"
    using "3.prems" c c2 by (auto split: prod.splits)
  let ?b = "of_int ((e AND 0x0f) OR (push_bit 4 d AND 0xf0)) :: byte"
  note n = nibbles [OF cd(2,3) cd2(2,3)]
  have "adpcm_decoder_loop (length vs) False (sint ?b) (out' @ rest) st2 = Inr (adpcm_track vs st2)"
    by (rule "3.IH"(1) [OF o(1)])
  moreover have "adpcm_decoder_loop (length (v # w # vs)) False ib (out @ rest) st =
    rbind (adpcm_decoder_loop (length vs) False (sint ?b) (out' @ rest) st2)
      (\<lambda>(ps, r). Inr (fst st1 # fst st2 # ps, r))"
    unfolding o(2) using cd(1) cd2(1) n(1,2)
    by (cases "adpcm_decoder_loop (length vs) False (sint ?b) (out' @ rest) st2") (auto simp: Let_def res_simps)
  ultimately show ?case using c c2 by (simp add: res_simps split: prod.splits)
qed

lemma track_index: "table_index (snd st) \<Longrightarrow> table_index (snd (snd (adpcm_track vs st)))"
proof (induction vs arbitrary: st)
  case (Cons v vs)
  then show ?case using adpcm_code_decode(4) [of v st] by (cases "adpcm_code v st") (simp add: Let_def)
qed simp

text \<open>The prediction for a value is the one the coder ends with when it stops after that value.\<close>

lemma track_nth:
  "k < length vs \<Longrightarrow> fst (adpcm_track vs st) ! k = fst (snd (adpcm_track (take (Suc k) vs) st))"
proof (induction vs arbitrary: k st)
  case (Cons v vs)
  then show ?case by (cases k) (simp_all add: Let_def)
qed simp

lemma length_coder_out:
  "length (fst (adpcm_coder_loop vs bs ob st)) = (length vs + (if bs then 1 else 2)) div 2"
  by (induction vs arbitrary: bs ob st) (simp_all add: split_def)

lemma adpcm_coder_track:
  assumes "adpcm_coder vs state = Inr (out, state')"
  shows "snd (adpcm_track vs (ad_valprev state, ad_index state)) = (ad_valprev state', ad_index state')"
    "length out = (length vs + 1) div 2" "table_index (ad_index state)"
proof -
  show i: "table_index (ad_index state)" using assms by (simp add: adpcm_coder_def split: if_splits)
  then have o: "adpcm_coder_loop vs True 0 (ad_valprev state, ad_index state) = (out, ad_valprev state', ad_index state')"
    using assms by (auto simp: adpcm_coder_def split: prod.splits)
  show "snd (adpcm_track vs (ad_valprev state, ad_index state)) = (ad_valprev state', ad_index state')"
    using coder_loop_track [of vs True 0 "(ad_valprev state, ad_index state)"] o by simp
  show "length out = (length vs + 1) div 2"
    using length_coder_out [of vs True 0 "(ad_valprev state, ad_index state)"] o by simp
qed

lemmas adpcm_coder_length = adpcm_coder_track(2)

lemma adpcm_code_range: "adpcm_code v st = (d, st') \<Longrightarrow> - 32768 \<le> fst st' \<and> fst st' \<le> 32767"
  using clamp16_range by (auto simp: adpcm_code_def Let_def split: prod.splits)

lemma track_range:
  "- 32768 \<le> fst st \<and> fst st \<le> 32767 \<Longrightarrow>
    - 32768 \<le> fst (snd (adpcm_track vs st)) \<and> fst (snd (adpcm_track vs st)) \<le> 32767"
proof (induction vs arbitrary: st)
  case (Cons v vs)
  then show ?case using adpcm_code_range [of v st] by (cases "adpcm_code v st") (simp add: Let_def)
qed simp

lemma adpcm_coder_range:
  assumes "adpcm_coder vs state = Inr (out, state')"
  shows "table_index (ad_index state') \<and>
    (- 32768 \<le> ad_valprev state \<and> ad_valprev state \<le> 32767 \<longrightarrow> - 32768 \<le> ad_valprev state' \<and> ad_valprev state' \<le> 32767)"
  using track_range [of "(ad_valprev state, ad_index state)" vs] track_index [of "(ad_valprev state, ad_index state)" vs]
    adpcm_coder_track [OF assms] by simp

lemma adpcm_coder_returns: "table_index (ad_index state) \<Longrightarrow> \<exists>out state'. adpcm_coder vals state = Inr (out, state')"
  by (simp add: adpcm_coder_def split_def)

lemma decoder_loop_returns:
  "n \<le> 2 * length inp + (if bs then 1 else 0) \<Longrightarrow> \<exists>r. adpcm_decoder_loop n bs ib inp st = Inr r"
proof (induction n bs ib inp st rule: adpcm_decoder_loop.induct)
  case (2 n ib inp st)
  then show ?case by (fastforce simp: Let_def res_simps)
next
  case (4 n ib b inp st)
  then show ?case by (fastforce simp: Let_def res_simps)
qed simp_all

section \<open>Properties\<close>

text \<open>
  C20. The decoder follows the coder. From the same state, the decoder run on the coder's output (for
  any number of values, odd ones included, whatever follows the output) does not fault, and ends in
  the coder's state, again with an index of the table; for each value it produces the coder's
  prediction, the one the coder's state holds after the values up to this one.
\<close>

theorem adpcm_in_step:
  assumes "adpcm_coder vals state = Inr (out, state')"
  shows "\<exists>samples. adpcm_decoder (out @ rest) (length vals) state = Inr (samples, state') \<and>
    length samples = length vals \<and> length out = (length vals + 1) div 2 \<and>
    0 \<le> ad_index state' \<and> ad_index state' \<le> 88 \<and>
    (\<forall>k < length vals. \<exists>out_k state_k. adpcm_coder (take (Suc k) vals) state = Inr (out_k, state_k) \<and>
      samples ! k = ad_valprev state_k)"
proof -
  define st where "st = (ad_valprev state, ad_index state)"
  have i: "table_index (snd st)" using assms by (simp add: adpcm_coder_def st_def split: if_splits)
  then have o: "adpcm_coder_loop vals True 0 st = (out, ad_valprev state', ad_index state')"
    using assms by (auto simp: adpcm_coder_def st_def split: prod.splits)
  have r: "adpcm_track vals st = (fst (adpcm_track vals st), ad_valprev state', ad_index state')"
    using coder_loop_track [of vals True 0 st] o by (metis prod.collapse snd_conv)
  have "adpcm_decoder (out @ rest) (length vals) state = Inr (fst (adpcm_track vals st), state')"
    using i adpcm_loops_in_step [OF o, of 0 rest] r unfolding adpcm_decoder_def st_def
    by (metis (mono_tags, lifting) adpcm_state.surjective old.unit.exhaust prod.case rbind.simps(2) snd_conv)
  moreover have "table_index (ad_index state')" using track_index [OF i, of vals] r by (metis snd_conv)
  moreover have "length out = (length vals + 1) div 2" using length_coder_out [of vals True 0 st] o by simp
  moreover have "\<exists>out_k state_k. adpcm_coder (take (Suc k) vals) state = Inr (out_k, state_k) \<and>
      fst (adpcm_track vals st) ! k = ad_valprev state_k" if k: "k < length vals" for k
  proof -
    obtain o_k s_k where c: "adpcm_coder (take (Suc k) vals) state = Inr (o_k, s_k)"
      using adpcm_coder_returns [of state "take (Suc k) vals"] i unfolding st_def snd_conv by blast
    from adpcm_coder_track(1) [OF this] track_nth [OF k, of st] have "fst (adpcm_track vals st) ! k = ad_valprev s_k"
      by (simp add: st_def)
    with c show ?thesis by blast
  qed
  ultimately show ?thesis
    using length_adpcm_track [of vals st] by (auto simp: table_index_def)
qed

theorem adpcm_in_step_witness:
  "\<exists>out state' samples. adpcm_coder [100, -300, 5000] \<lparr>ad_valprev = 0, ad_index = 0\<rparr> = Inr (out, state') \<and>
    adpcm_decoder (out @ [7]) 3 \<lparr>ad_valprev = 0, ad_index = 0\<rparr> = Inr (samples, state') \<and> length samples = 3 \<and>
    (\<exists>out_1 state_1. adpcm_coder [100, -300] \<lparr>ad_valprev = 0, ad_index = 0\<rparr> = Inr (out_1, state_1) \<and>
      samples ! 1 = ad_valprev state_1)"
proof -
  obtain out state' where r: "adpcm_coder [100, -300, 5000] \<lparr>ad_valprev = 0, ad_index = 0\<rparr> = Inr (out, state')"
    using adpcm_coder_returns [of "\<lparr>ad_valprev = 0, ad_index = 0\<rparr>" "[100, -300, 5000]"]
    by (auto simp: table_index_def simp del: adpcm_coder_loop.simps)
  from adpcm_in_step [OF r, of "[7]"] obtain samples where
    s: "adpcm_decoder (out @ [7]) 3 \<lparr>ad_valprev = 0, ad_index = 0\<rparr> = Inr (samples, state')" "length samples = 3"
    "\<forall>k < 3. \<exists>out_k state_k. adpcm_coder (take (Suc k) [100, -300, 5000]) \<lparr>ad_valprev = 0, ad_index = 0\<rparr> = Inr (out_k, state_k) \<and>
      samples ! k = ad_valprev state_k"
    by (auto simp: numeral_3_eq_3 simp del: take_Suc_Cons)
  have "take (Suc 1) [100, -300, 5000 :: int] = [100, -300]" by simp
  then have "\<exists>out_1 state_1. adpcm_coder [100, -300] \<lparr>ad_valprev = 0, ad_index = 0\<rparr> = Inr (out_1, state_1) \<and>
      samples ! 1 = ad_valprev state_1"
    using spec [OF s(3), of 1] by (simp del: take_Suc_Cons)
  with r s(1,2) show ?thesis by blast
qed

text \<open>
  What can go wrong in the decoder: with enough input it faults exactly if the index it is given,
  in the web server a byte of the vehicle's packet, lies outside the table.
\<close>

theorem adpcm_decoder_faults:
  assumes "n \<le> 2 * length indata"
  shows "(\<exists>f. adpcm_decoder indata n state = Inl f) \<longleftrightarrow> ad_index state < 0 \<or> 88 < ad_index state"
proof (cases "table_index (ad_index state)")
  case True
  with decoder_loop_returns [of n indata False 0 "(ad_valprev state, ad_index state)"] assms
  have "\<exists>r. adpcm_decoder indata n state = Inr r" by (auto simp: adpcm_decoder_def res_simps)
  with True show ?thesis by (auto simp: table_index_def)
next
  case False
  then show ?thesis by (auto simp: adpcm_decoder_def table_index_def)
qed

theorem adpcm_decoder_faults_witness:
  "\<exists>f. adpcm_decoder [1, 2] 4 \<lparr>ad_valprev = 0, ad_index = 89\<rparr> = Inl f"
  using adpcm_decoder_faults [of 4 "[1, 2]" "\<lparr>ad_valprev = 0, ad_index = 89\<rparr>"] by simp

end
