(* ===== verification/Audio_Codec.thy ===== *)
theory Audio_Codec
  imports G711 Adpcm
begin

text \<open>
  The audio codec of the web server (web_server/audio/CCodec.cpp and the libav wrapper g726.cpp): the
  HiSilicon header in front of a frame, which kind of frame is decoded how, and the 2048-byte output
  buffers, beyond which a write is a fault. An input is the memory the pointer points into and the
  length that is passed with it. libav's decoders and coders are arguments, whose answer to a frame may
  depend on the rate and on everything they were given before.
\<close>

section \<open>State\<close>

datatype audio_coding_type = eG711A | eG711U | eAdpcm | eG726 | eUnSupport

definition OUT_BUF :: nat where "OUT_BUF = 2048"

text \<open>
  \<open>m_g726_coder_ctx\<close>, which the constructor does not set: what the allocator left there, if it is
  not by chance null, is no coder.
\<close>

datatype coder_ctx = CtxNull | CtxGarbage | CtxReady nat "byte list list"

text \<open>
  What a libav decoder was asked so far: the packets sent to it, each with whether a frame was then
  received. A decoder is a function from the rate it was opened with, this history and a new packet
  to the result of \<open>avcodec_send_packet\<close> and the frame it then hands out, if any; a coder likewise,
  from its rate, the frames it was given and a new one.
\<close>

type_synonym av_history = "(byte list \<times> bool) list"
type_synonym av_decoder = "nat \<Rightarrow> av_history \<Rightarrow> byte list \<Rightarrow> int \<times> byte list option"
type_synonym av_coder = "nat \<Rightarrow> byte list list \<Rightarrow> byte list \<Rightarrow> int \<times> int \<times> bool \<times> byte list"

record ccodec =
  cc_result_len :: int
  cc_result_type :: audio_coding_type
  cc_encode_len :: int
  cc_encode_type :: audio_coding_type
  cc_adpcm_state_encode :: adpcm_state
  cc_g726_decoder :: "(nat \<times> av_history) option"
  cc_g726_coder :: coder_ctx
  cc_g726_bit_rate :: nat
  cc_first_frame :: bool
  cc_haisi_header :: bool

definition CCodec_new :: "coder_ctx \<Rightarrow> ccodec" where
  "CCodec_new left = \<lparr>cc_result_len = int OUT_BUF, cc_result_type = eUnSupport, cc_encode_len = int OUT_BUF,
     cc_encode_type = eUnSupport, cc_adpcm_state_encode = \<lparr>ad_valprev = 0, ad_index = 0\<rparr>,
     cc_g726_decoder = None, cc_g726_coder = left, cc_g726_bit_rate = 16000, cc_first_frame = True, cc_haisi_header = False\<rparr>"

text \<open>Memory that is written only up to the size of its buffer.\<close>

definition written :: "nat \<Rightarrow> 'a \<Rightarrow> fault + 'a" where
  "written n x = (if n \<le> OUT_BUF then Inr x else Inl OutOfBounds)"

section \<open>The HiSilicon header\<close>

text \<open>\<open>char\<close> is signed: the third byte is widened with its sign into a \<open>uint16_t\<close>.\<close>

definition HaveHaiSiHeader :: "byte list \<Rightarrow> nat \<Rightarrow> bool" where
  "HaveHaiSiHeader pData nDataLen =
     (if nDataLen < 4 then False
      else if pData ! 0 \<noteq> 0 \<or> pData ! 1 \<noteq> 1 \<or> pData ! 3 \<noteq> 0 then False
      else (let nBodyLen = scast (pData ! 2) :: u16 in 2 * unat nBodyLen = nDataLen - 4))"

definition AddHaiSiHeader :: "nat \<Rightarrow> byte list" where
  "AddHaiSiHeader uBodyLen = [0, 1, of_nat (uBodyLen div 2), 0]"

text \<open>The beginning of all four decoding functions: the first frame tells whether frames have a header.\<close>

definition strip_header :: "byte list \<Rightarrow> nat \<Rightarrow> ccodec \<Rightarrow> byte list \<times> int \<times> ccodec" where
  "strip_header cInBuf nInBufLen c =
     (let c = (if cc_first_frame c
               then c\<lparr>cc_haisi_header := HaveHaiSiHeader cInBuf nInBufLen, cc_first_frame := False\<rparr> else c) in
      if cc_haisi_header c then (drop 4 cInBuf, int nInBufLen - 4, c) else (cInBuf, int nInBufLen, c))"

section \<open>Decoding\<close>

text \<open>\<open>decode\<close> of g726.cpp: what \<open>avcodec_send_packet\<close> returned, and the frame if one was received.\<close>

definition g726_decode :: "int \<times> byte list option \<Rightarrow> nat \<Rightarrow> int \<times> byte list" where
  "g726_decode av out_len =
     (case av of (len, frame) \<Rightarrow>
        if len < 0 then (len, [])
        else (case frame of None \<Rightarrow> (0, []) | Some pcm \<Rightarrow> (int (length pcm), take (min out_len (length pcm)) pcm)))"

definition g726_rate :: "int \<Rightarrow> nat" where
  "g726_rate nInBufLen = (if nInBufLen = 80 then 16000 else if nInBufLen = 120 then 24000
     else if nInBufLen = 160 then 32000 else 40000)"

text \<open>16-bit samples as they lie in memory.\<close>

definition pcm_bytes :: "16 word list \<Rightarrow> byte list" where
  "pcm_bytes xs = concat (map (w_le 2) xs)"

definition DecodeG711A2Pcm :: "byte list \<Rightarrow> nat \<Rightarrow> ccodec \<Rightarrow> fault + (ccodec \<times> byte list)" where
  "DecodeG711A2Pcm cInBuf nInBufLen c =
     (case strip_header cInBuf nInBufLen c of (cInBuf, n, c) \<Rightarrow>
      (case g711a_decode (take (nat n) cInBuf) of (amp, nRet) \<Rightarrow>
        if length cInBuf < nat n then Inl OutOfBounds
        else written nRet (c\<lparr>cc_result_len := int nRet, cc_result_type := eG711A\<rparr>, pcm_bytes amp)))"

definition DecodeG711U2Pcm :: "byte list \<Rightarrow> nat \<Rightarrow> ccodec \<Rightarrow> fault + (ccodec \<times> byte list)" where
  "DecodeG711U2Pcm cInBuf nInBufLen c =
     (case strip_header cInBuf nInBufLen c of (cInBuf, n, c) \<Rightarrow>
      (case g711u_decode (take (nat n) cInBuf) of (amp, nRet) \<Rightarrow>
        if length cInBuf < nat n then Inl OutOfBounds
        else written nRet (c\<lparr>cc_result_len := int nRet, cc_result_type := eG711U\<rparr>, pcm_bytes amp)))"

text \<open>An ADPCM frame begins with the state to decode it from.\<close>

definition frame_state :: "byte list \<Rightarrow> adpcm_state" where
  "frame_state m = \<lparr>ad_valprev = sint (of_int (push_bit 8 (sint (m ! 1)) OR (sint (m ! 0) AND 0xFF)) :: 16 word),
     ad_index = sint (m ! 2)\<rparr>"

definition DecodeAdpcm2Pcm :: "byte list \<Rightarrow> nat \<Rightarrow> ccodec \<Rightarrow> fault + (ccodec \<times> byte list)" where
  "DecodeAdpcm2Pcm cInBuf nInBufLen c =
     (case strip_header cInBuf nInBufLen c of (cInBuf, n, c) \<Rightarrow>
        if length cInBuf < 3 then Inl OutOfBounds
        else
          (let n = n - 4 in
           rbind (adpcm_decoder (drop 4 cInBuf) (nat (2 * n)) (frame_state cInBuf)) (\<lambda>(samples, _).
             written (2 * length samples)
               (c\<lparr>cc_result_len := 4 * n, cc_result_type := eAdpcm\<rparr>, pcm_bytes (map of_int samples)))))"

text \<open>The first frame makes the context, with the bit rate its length tells; all are decoded by it.\<close>

definition DecodeG7262Pcm ::
  "av_decoder \<Rightarrow> byte list \<Rightarrow> nat \<Rightarrow> ccodec \<Rightarrow> fault + (ccodec \<times> byte list)"
where
  "DecodeG7262Pcm av cInBuf nInBufLen c =
     (case strip_header cInBuf nInBufLen c of (cInBuf, n, c) \<Rightarrow>
      (let c = (case cc_g726_decoder c of
                  None \<Rightarrow> c\<lparr>cc_g726_decoder := Some (g726_rate n, []), cc_g726_bit_rate := g726_rate n\<rparr>
                | Some _ \<Rightarrow> c);
           (rate, hist) = the (cc_g726_decoder c);
           packet = take (nat n) cInBuf;
           answer = av rate hist packet in
       case g726_decode answer 2048 of (ret, pcm) \<Rightarrow>
         Inr (c\<lparr>cc_g726_decoder := Some (rate, hist @ [(packet, 0 \<le> fst answer)]),
                cc_result_len := ret, cc_result_type := eG726\<rparr>, pcm)))"

definition DecodeAudio ::
  "av_decoder \<Rightarrow> byte list \<Rightarrow> nat \<Rightarrow> audio_coding_type \<Rightarrow> ccodec \<Rightarrow>
    fault + (ccodec \<times> byte list)" where
  "DecodeAudio av pInBuf nInBufLen eType c =
     (case eType of
        eG711A \<Rightarrow> DecodeG711A2Pcm pInBuf nInBufLen c
      | eG711U \<Rightarrow> DecodeG711U2Pcm pInBuf nInBufLen c
      | eAdpcm \<Rightarrow> DecodeAdpcm2Pcm pInBuf nInBufLen c
      | eG726 \<Rightarrow> DecodeG7262Pcm av pInBuf nInBufLen c
      | eUnSupport \<Rightarrow> Inr (c\<lparr>cc_result_type := eUnSupport\<rparr>, []))"

section \<open>Encoding\<close>

text \<open>The input as an array of \<open>short\<close>; reading past its memory is a fault.\<close>

fun read_shorts :: "nat \<Rightarrow> byte list \<Rightarrow> fault + 16 word list" where
  "read_shorts 0 m = Inr []"
| "read_shorts (Suc n) (a # b # m) = rbind (read_shorts n m) (\<lambda>xs. Inr (of_nat (le_nat [a, b]) # xs))"
| "read_shorts (Suc n) m = Inl OutOfBounds"

definition EncodeG711A2Pcm :: "byte list \<Rightarrow> nat \<Rightarrow> ccodec \<Rightarrow> fault + (ccodec \<times> byte list)" where
  "EncodeG711A2Pcm pInBuf nInBufLen c =
     rbind (read_shorts nInBufLen pInBuf) (\<lambda>amp.
       (case g711a_encode amp of (out, nRet) \<Rightarrow>
          if cc_haisi_header c then
            written (4 + nRet) (c\<lparr>cc_encode_len := 4 + int nRet, cc_encode_type := eG711A\<rparr>, AddHaiSiHeader nRet @ out)
          else written nRet (c\<lparr>cc_encode_len := int nRet, cc_encode_type := eG711A\<rparr>, out)))"

definition EncodeG711U2Pcm :: "byte list \<Rightarrow> nat \<Rightarrow> ccodec \<Rightarrow> fault + (ccodec \<times> byte list)" where
  "EncodeG711U2Pcm pInBuf nInBufLen c =
     rbind (read_shorts nInBufLen pInBuf) (\<lambda>amp.
       (case g711u_encode amp of (out, nRet) \<Rightarrow>
          if cc_haisi_header c then
            written (4 + nRet) (c\<lparr>cc_encode_len := 4 + int nRet, cc_encode_type := eG711U\<rparr>, AddHaiSiHeader nRet @ out)
          else written nRet (c\<lparr>cc_encode_len := int nRet, cc_encode_type := eG711U\<rparr>, out)))"

definition EncodeAdpcm2Pcm :: "byte list \<Rightarrow> nat \<Rightarrow> ccodec \<Rightarrow> fault + (ccodec \<times> byte list)" where
  "EncodeAdpcm2Pcm pInBuf nInBufLen c =
     (let header = (if cc_haisi_header c then AddHaiSiHeader (4 + nInBufLen div 4) else []) in
      rbind (read_shorts (nInBufLen div 2) pInBuf) (\<lambda>amp.
        rbind (adpcm_coder (map sint amp) (cc_adpcm_state_encode c)) (\<lambda>(out, state).
          written (length header + 4 + length out)
            (c\<lparr>cc_adpcm_state_encode := state,
               cc_encode_len := 4 + int (nInBufLen div 4) + (if cc_haisi_header c then 4 else 0),
               cc_encode_type := eAdpcm\<rparr>,
             header @ w_le 2 (of_int (ad_valprev state) :: 16 word) @ [of_int (ad_index state), 0] @ out))))"

text \<open>
  \<open>encode\<close> of g726.cpp: the sizes and results libav reports, and what lies at the address that is
  copied (the frame's array of pointers).
\<close>

definition g726_encode :: "int \<times> int \<times> bool \<times> byte list \<Rightarrow> nat \<Rightarrow> int \<times> byte list" where
  "g726_encode av g726_len =
     (case av of (ret, enc, got_pkt, mem) \<Rightarrow>
        if ret < 0 then (- 1, [])
        else if enc < 0 then (- 2, [])
        else if got_pkt then (ret, take (min g726_len (nat ret)) mem)
        else (0, []))"

definition EncodeG7262Pcm ::
  "av_coder \<Rightarrow> byte list \<Rightarrow> nat \<Rightarrow> ccodec \<Rightarrow> fault + (ccodec \<times> byte list)"
where
  "EncodeG7262Pcm av pInBuf nInBufLen c =
     (let c = c\<lparr>cc_encode_type := eG726\<rparr>;
          c = (if cc_g726_coder c = CtxNull then c\<lparr>cc_g726_coder := CtxReady (cc_g726_bit_rate c) []\<rparr> else c) in
      case cc_g726_coder c of
        CtxReady rate hist \<Rightarrow>
          (case g726_encode (av rate hist (take nInBufLen pInBuf)) (2048 - 4) of (n, out) \<Rightarrow>
             let c = c\<lparr>cc_g726_coder := CtxReady rate (hist @ [take nInBufLen pInBuf]),
                        cc_encode_len := (if n \<le> 0 then 0 else n)\<rparr> in
             if cc_haisi_header c
             then Inr (c\<lparr>cc_encode_len := cc_encode_len c + 4\<rparr>, AddHaiSiHeader (nat (n mod 2 ^ 64)) @ out)
             else Inr (c, out))
      | _ \<Rightarrow> Inl UseAfterFree)"

definition EncodeAudio ::
  "av_coder \<Rightarrow> byte list \<Rightarrow> nat \<Rightarrow> audio_coding_type \<Rightarrow> ccodec \<Rightarrow>
    fault + (ccodec \<times> byte list)" where
  "EncodeAudio av pInBuf nInBufLen eType c =
     (case eType of
        eG711A \<Rightarrow> EncodeG711A2Pcm pInBuf nInBufLen c
      | eG711U \<Rightarrow> EncodeG711U2Pcm pInBuf nInBufLen c
      | eAdpcm \<Rightarrow> EncodeAdpcm2Pcm pInBuf nInBufLen c
      | eG726 \<Rightarrow> EncodeG7262Pcm av pInBuf nInBufLen c
      | eUnSupport \<Rightarrow> Inr (c\<lparr>cc_encode_type := eUnSupport\<rparr>, []))"

section \<open>Lemmas\<close>

text \<open>A signed byte in sixteen bits.\<close>

lemma uint_byte_range: "0 \<le> uint (b :: byte)" "uint (b :: byte) < 256"
  using uint_bounded [of b] by simp_all

lemma sint_byte: "sint (b :: byte) = (if uint b < 128 then uint b else uint b - 256)"
proof -
  define x where "x = uint b"
  have r: "0 \<le> x" "x < 256" using uint_byte_range [of b] by (simp_all only: x_def)
  have e: "sint b = (x + 128) mod 256 - 128"
    by (simp add: sint_uint signed_take_bit_eq_take_bit_shift take_bit_eq_mod x_def)
  show ?thesis
  proof (cases "x < 128")
    case True
    with r have "(x + 128) mod 256 = x + 128" by (intro mod_pos_pos_trivial) simp_all
    with True show ?thesis unfolding e x_def [symmetric] by simp
  next
    case False
    have "(x + 128) mod 256 = (x - 128) mod 256" using mod_add_self2 [of "x - 128" 256] by (simp add: add.commute)
    also have "\<dots> = x - 128" using r False by (intro mod_pos_pos_trivial) simp_all
    finally show ?thesis using False unfolding e x_def [symmetric] by simp
  qed
qed

lemma scast_byte16: "uint (scast (b :: byte) :: u16) = (if uint b < 128 then uint b else 65280 + uint b)"
proof -
  define x where "x = uint b"
  have r: "0 \<le> x" "x < 256" using uint_byte_range [of b] by (simp_all only: x_def)
  have e: "uint (scast b :: u16) = (if x < 128 then x else x - 256) mod 65536"
    by (simp add: scast_eq unsigned_of_int take_bit_eq_mod sint_byte x_def [symmetric])
  have "(x - 256) mod 65536 = (x + 65280) mod 65536" using mod_add_self2 [of "x - 256" 65536] by (simp add: add.commute)
  also have "\<dots> = x + 65280" if "\<not> x < 128" using r that by (intro mod_pos_pos_trivial) simp_all
  finally show ?thesis using r unfolding e x_def [symmetric] by (auto intro: mod_pos_pos_trivial)
qed

lemma length_pcm_bytes: "length (pcm_bytes xs) = 2 * length xs"
  by (induction xs) (simp_all add: pcm_bytes_def)

lemma strip_header_len: "strip_header m n c = (m', k, c') \<Longrightarrow> k \<le> int n \<and> int n \<le> k + 4 \<and>
    (n \<le> length m \<longrightarrow> nat k \<le> length m')"
  by (auto simp: strip_header_def Let_def split: if_splits)

lemma g711_decode_result:
  assumes "strip_header m n c = (m', k, c')" "n \<le> length m"
  shows "DecodeAudio av m n eG711A c =
      written (2 * nat k) (c'\<lparr>cc_result_len := 2 * int (nat k), cc_result_type := eG711A\<rparr>,
        pcm_bytes (map (\<lambda>b. of_int (alaw2linear b)) (take (nat k) m')))"
    "DecodeAudio av m n eG711U c =
      written (2 * nat k) (c'\<lparr>cc_result_len := 2 * int (nat k), cc_result_type := eG711U\<rparr>,
        pcm_bytes (map (\<lambda>b. of_int (ulaw2linear b)) (take (nat k) m')))"
proof -
  have "nat k \<le> length m'" using strip_header_len [OF assms(1)] assms(2) by simp
  then show "DecodeAudio av m n eG711A c =
      written (2 * nat k) (c'\<lparr>cc_result_len := 2 * int (nat k), cc_result_type := eG711A\<rparr>,
        pcm_bytes (map (\<lambda>b. of_int (alaw2linear b)) (take (nat k) m')))"
    "DecodeAudio av m n eG711U c =
      written (2 * nat k) (c'\<lparr>cc_result_len := 2 * int (nat k), cc_result_type := eG711U\<rparr>,
        pcm_bytes (map (\<lambda>b. of_int (ulaw2linear b)) (take (nat k) m')))"
    by (simp_all add: DecodeAudio_def DecodeG711A2Pcm_def DecodeG711U2Pcm_def assms(1) g711a_decode_def
        g711u_decode_def min_def del: int_nat_eq)
qed

lemma decoder_loop_length: "adpcm_decoder_loop n bs ib inp st = Inr (ps, r) \<Longrightarrow> length ps = n"
proof (induction n bs ib inp st arbitrary: ps r rule: adpcm_decoder_loop.induct)
  case (2 n ib inp st)
  from "2.prems" obtain qs where
    "adpcm_decoder_loop n False ib inp (adpcm_decode (ib AND 0xf) st) = Inr (qs, r)" "length ps = Suc (length qs)"
    by (auto simp: Let_def rbind_eq_Inr)
  with "2.IH" [OF refl] show ?case by simp
next
  case (4 n ib b inp st)
  from "4.prems" obtain qs where
    "adpcm_decoder_loop n True (sint b) inp (adpcm_decode (drop_bit 4 (sint b) AND 0xf) st) = Inr (qs, r)"
    "length ps = Suc (length qs)"
    by (auto simp: Let_def rbind_eq_Inr)
  with "4.IH" [OF refl] show ?case by simp
qed simp_all

lemma adpcm_decode_result:
  assumes "strip_header m n c = (m', k, c')" "n \<le> length m"
  shows "if length m' < 3 \<or> sint (m' ! 2) < 0 \<or> 88 < sint (m' ! 2)
    then DecodeAudio av m n eAdpcm c = Inl OutOfBounds
    else \<exists>samples. length samples = nat (2 * (k - 4)) \<and> DecodeAudio av m n eAdpcm c =
      written (2 * length samples) (c'\<lparr>cc_result_len := 4 * (k - 4), cc_result_type := eAdpcm\<rparr>,
        pcm_bytes (map of_int samples))"
proof (cases "length m' < 3 \<or> sint (m' ! 2) < 0 \<or> 88 < sint (m' ! 2)")
  case True
  then show ?thesis
    by (auto simp: DecodeAudio_def DecodeAdpcm2Pcm_def assms(1) Let_def adpcm_decoder_def frame_state_def
        table_index_def res_simps)
next
  case False
  have "nat k \<le> length m'" using strip_header_len [OF assms(1)] assms(2) by simp
  then have "nat (2 * (k - 4)) \<le> 2 * (length m' - 4)"
    by (cases "4 \<le> k") (simp_all add: nat_mult_distrib nat_diff_distrib)
  from decoder_loop_returns [of "nat (2 * (k - 4))" "drop 4 m'" False 0] this obtain samples v i where
    r: "adpcm_decoder_loop (nat (2 * (k - 4))) False 0 (drop 4 m') (ad_valprev (frame_state m'), ad_index (frame_state m'))
      = Inr (samples, v, i)" by fastforce
  then have "adpcm_decoder (drop 4 m') (nat (2 * (k - 4))) (frame_state m') =
      Inr (samples, \<lparr>ad_valprev = v, ad_index = i\<rparr>)"
    using False by (simp add: adpcm_decoder_def res_simps frame_state_def table_index_def)
  then have "DecodeAudio av m n eAdpcm c =
      written (2 * length samples) (c'\<lparr>cc_result_len := 4 * (k - 4), cc_result_type := eAdpcm\<rparr>,
        pcm_bytes (map of_int samples))"
    using False by (simp add: DecodeAudio_def DecodeAdpcm2Pcm_def assms(1) Let_def res_simps)
  with decoder_loop_length [OF r] False show ?thesis by auto
qed

section \<open>Properties\<close>

text \<open>
  A header that the codec writes in front of a frame of an even number of bytes, up to the size
  of its buffer, is recognised by the codec exactly if the frame is shorter than 256 bytes; from there
  on the length byte is read with its sign, or has wrapped.
\<close>

theorem haisi_header_recognised:
  assumes "even (length body)" "length body \<le> 2044"
  shows "HaveHaiSiHeader (AddHaiSiHeader (length body) @ body) (4 + length body) \<longleftrightarrow> length body < 256"
proof -
  define k where "k = length body div 2"
  have k: "length body = 2 * k" "k \<le> 1022" using assms by (auto simp: k_def)
  define u where "u = uint (of_nat k :: byte)"
  have u: "u = int k mod 256" unfolding u_def by (simp add: unsigned_of_nat take_bit_eq_mod zmod_int)
  have "HaveHaiSiHeader (AddHaiSiHeader (length body) @ body) (4 + length body) \<longleftrightarrow>
      unat (scast (of_nat k :: byte) :: u16) = k"
    by (simp add: HaveHaiSiHeader_def AddHaiSiHeader_def k_def [symmetric] k(1) Let_def)
  also have "\<dots> \<longleftrightarrow> uint (scast (of_nat k :: byte) :: u16) = int k"
    by (metis uint_nat of_nat_eq_iff)
  also have "\<dots> \<longleftrightarrow> int k < 128"
  proof -
    have "int k \<le> 1022" using k(2) by simp
    moreover have "0 \<le> u" "u < 256" "u \<le> int k" using zmod_le_nonneg_dividend [of "int k" 256] by (simp_all add: u)
    moreover have "u = int k" if "int k < 256" using that by (simp add: u)
    ultimately show ?thesis unfolding scast_byte16 u_def [symmetric] by auto
  qed
  finally show ?thesis using k(1) by simp
qed

theorem haisi_header_recognised_witness:
  "HaveHaiSiHeader (AddHaiSiHeader 160 @ replicate 160 7) 164 \<and>
    \<not> HaveHaiSiHeader (AddHaiSiHeader 320 @ replicate 320 7) 324"
  using haisi_header_recognised [of "replicate 160 7"] haisi_header_recognised [of "replicate 320 7"]
  by simp

text \<open>
  C21. The output buffer, for any frame within its memory and any length; \<open>k\<close> is its length without
  the HiSilicon header. Decoding G.711 leaves the 2048-byte buffer exactly if \<open>k\<close> exceeds 1024, which
  no vehicle packet of at most 950 bytes does; otherwise it writes, and reports, two bytes for each
  byte. Decoding ADPCM leaves its memory exactly if the frame's state is not there or its third byte,
  the step index, lies outside the table of 89 steps, or if \<open>k\<close> exceeds 516, which vehicle packets
  can; otherwise it writes, and reports, four bytes for each byte behind the state - but reports a
  negative length when \<open>k\<close> is less than the state's four bytes.
\<close>

theorem decode_buffer_bounds:
  assumes "strip_header m n c = (m', k, c')" "n \<le> length m"
  shows "(t = eG711A \<or> t = eG711U \<longrightarrow>
      (if 1024 < k then DecodeAudio av m n t c = Inl OutOfBounds
       else \<exists>c'' out. DecodeAudio av m n t c = Inr (c'', out) \<and> length out = 2 * nat k \<and>
         cc_result_len c'' = int (length out))) \<and>
    (if length m' < 3 \<or> sint (m' ! 2) < 0 \<or> 88 < sint (m' ! 2) \<or> 516 < k
     then DecodeAudio av m n eAdpcm c = Inl OutOfBounds
     else \<exists>c'' out. DecodeAudio av m n eAdpcm c = Inr (c'', out) \<and> length out = nat (4 * (k - 4)) \<and>
       cc_result_len c'' = 4 * (k - 4))"
proof
  have l: "min (length m') (nat k) = nat k" using strip_header_len [OF assms(1)] assms(2) by simp
  show "t = eG711A \<or> t = eG711U \<longrightarrow>
      (if 1024 < k then DecodeAudio av m n t c = Inl OutOfBounds
       else \<exists>c'' out. DecodeAudio av m n t c = Inr (c'', out) \<and> length out = 2 * nat k \<and>
         cc_result_len c'' = int (length out))"
    using g711_decode_result [OF assms, of av] l
    by (auto simp: written_def OUT_BUF_def length_pcm_bytes)
  show "if length m' < 3 \<or> sint (m' ! 2) < 0 \<or> 88 < sint (m' ! 2) \<or> 516 < k
     then DecodeAudio av m n eAdpcm c = Inl OutOfBounds
     else \<exists>c'' out. DecodeAudio av m n eAdpcm c = Inr (c'', out) \<and> length out = nat (4 * (k - 4)) \<and>
       cc_result_len c'' = 4 * (k - 4)"
  proof (cases "length m' < 3 \<or> sint (m' ! 2) < 0 \<or> 88 < sint (m' ! 2)")
    case True
    with adpcm_decode_result [OF assms, of av] show ?thesis by auto
  next
    case False
    with adpcm_decode_result [OF assms, of av] obtain samples where
      s: "length samples = nat (2 * (k - 4))" "DecodeAudio av m n eAdpcm c =
        written (2 * length samples) (c'\<lparr>cc_result_len := 4 * (k - 4), cc_result_type := eAdpcm\<rparr>,
          pcm_bytes (map of_int samples))" by (auto split: if_splits)
    have "2 * length samples = nat (4 * (k - 4))" unfolding s(1) by linarith
    moreover have "2 * length samples \<le> 2048 \<longleftrightarrow> k \<le> 516" 
    proof -
      have "nat (2 * (k - 4)) \<le> 1024 \<longleftrightarrow> k \<le> 516" by (auto simp: nat_le_iff)
      then show ?thesis unfolding s(1) by auto
    qed
    ultimately show ?thesis using s(2) False by (auto simp: written_def OUT_BUF_def length_pcm_bytes)
  qed
qed

theorem decode_buffer_bounds_witness:
  "DecodeAudio (\<lambda>_ _ _. (0, None)) (replicate 600 0) 600 eAdpcm (CCodec_new CtxNull) = Inl OutOfBounds \<and>
    DecodeAudio (\<lambda>_ _ _. (0, None)) [0, 0, 100, 0, 7] 5 eAdpcm (CCodec_new CtxNull) = Inl OutOfBounds \<and>
    (\<exists>c'' out. DecodeAudio (\<lambda>_ _ _. (0, None)) (replicate 600 0) 600 eG711A (CCodec_new CtxNull) = Inr (c'', out) \<and>
      length out = 1200 \<and> cc_result_len c'' = 1200)"
proof -
  let ?m = "replicate 600 (0 :: byte)" and ?f = "[0, 0, 100, 0, 7] :: byte list"
  let ?c = "(CCodec_new CtxNull)\<lparr>cc_haisi_header := False, cc_first_frame := False\<rparr>"
  have "strip_header ?m 600 (CCodec_new CtxNull) = (?m, 600, ?c)" "strip_header ?f 5 (CCodec_new CtxNull) = (?f, 5, ?c)"
    by (simp_all add: strip_header_def CCodec_new_def HaveHaiSiHeader_def Let_def)
  from decode_buffer_bounds [OF this(1), of eG711A "\<lambda>_ _ _. (0, None)"]
    decode_buffer_bounds [OF this(2), of eAdpcm "\<lambda>_ _ _. (0, None)"]
  show ?thesis by (simp, metis of_nat_numeral)
qed

lemma bytes_of_short:
  assumes "w_le 2 (x :: 16 word) = [a, b]"
  shows "of_int (push_bit 8 (sint b) OR (sint a AND 0xFF)) = x"
proof -
  have k: "(0xFF :: int) = mask 8" by (simp add: mask_eq_exp_minus_1)
  have low: "sint a AND 0xFF = uint a"
    unfolding k take_bit_eq_mask [symmetric] take_bit_eq_mod using uint_byte_range [of a]
    by (auto simp: sint_byte)
  have "push_bit 8 (sint b) AND (sint a AND 0xFF) = 0"
    unfolding k by (rule bit_eqI) (auto simp: bit_simps)
  from disjunctive_add_eq_or [OF this] have o: "push_bit 8 (sint b) OR (sint a AND 0xFF) = 256 * sint b + uint a"
    unfolding low by (simp add: push_bit_eq_mult)
  have z: "(of_int (2 ^ 16) :: 16 word) = 0" by code_simp
  have "(of_int (256 * (uint b - 256)) :: 16 word) = of_int (256 * uint b - 2 ^ 16)" by (simp only: right_diff_distrib) simp
  also have "\<dots> = of_int (256 * uint b)" unfolding of_int_diff z by (rule diff_zero)
  finally have "(of_int (256 * (uint b - 256)) :: 16 word) = of_int (256 * uint b)" .
  then have "(of_int (256 * sint b) :: 16 word) = of_int (256 * uint b)"
    unfolding sint_byte [of b] by (cases "uint b < 128") (simp_all only: if_True if_False)
  then have "(of_int (256 * sint b + uint a) :: 16 word) = of_int (256 * uint b + uint a)"
    by (simp only: of_int_add)
  also have "256 * uint b + uint a = int (le_nat [a, b])" by (simp only: uint_nat le_nat.simps) simp
  also have "of_int (int (le_nat [a, b])) = (of_nat (le_nat (w_le 2 x)) :: 16 word)" by (simp only: of_int_of_nat_eq assms)
  also have "\<dots> = x" by (rule word_le_roundtrip) simp
  finally show ?thesis unfolding o .
qed

lemma frame_state_written:
  assumes "- 32768 \<le> v" "v \<le> 32767" "table_index i"
  shows "frame_state (w_le 2 (of_int v :: 16 word) @ [of_int i, 0] @ out) = \<lparr>ad_valprev = v, ad_index = i\<rparr>"
proof -
  obtain a b where ab: "w_le 2 (of_int v :: 16 word) = [a, b]"
    by (metis (no_types) length_Suc_conv length_0_conv length_w_le numeral_2_eq_2)
  have "sint (of_int v :: 16 word) = v" using assms(1,2) by (simp add: signed_of_int signed_take_bit_int_eq_self)
  moreover have "sint (of_int i :: byte) = i"
    using assms(3) by (simp add: signed_of_int signed_take_bit_int_eq_self table_index_def)
  ultimately show ?thesis unfolding frame_state_def ab using bytes_of_short [OF ab] by simp
qed

text \<open>
  The state in an encoded ADPCM frame. The four bytes in front of the coded samples hold the
  state the coder has after them (the comment calls it that of the frame before), and a decoder of
  the frame starts from there; the coded samples themselves belong to the state before.
\<close>

theorem adpcm_frame_header:
  assumes "EncodeAudio av p n eAdpcm c = Inr (c', out)" "\<not> cc_haisi_header c"
    and "- 32768 \<le> ad_valprev (cc_adpcm_state_encode c)" "ad_valprev (cc_adpcm_state_encode c) \<le> 32767"
  shows "frame_state out = cc_adpcm_state_encode c' \<and>
    (\<exists>amp. read_shorts (n div 2) p = Inr amp \<and>
      adpcm_coder (map sint amp) (cc_adpcm_state_encode c) = Inr (drop 4 out, cc_adpcm_state_encode c'))"
proof -
  obtain amp where a: "read_shorts (n div 2) p = Inr amp" using assms(1)
    by (auto simp: EncodeAudio_def EncodeAdpcm2Pcm_def Let_def rbind_eq_Inr)
  obtain bytes st where e: "adpcm_coder (map sint amp) (cc_adpcm_state_encode c) = Inr (bytes, st)"
    using assms(1) a by (auto simp: EncodeAudio_def EncodeAdpcm2Pcm_def Let_def rbind_eq_Inr)
  have o: "cc_adpcm_state_encode c' = st"
    "out = w_le 2 (of_int (ad_valprev st) :: 16 word) @ [of_int (ad_index st), 0] @ bytes"
    using assms(1,2) a e
    by (auto simp: EncodeAudio_def EncodeAdpcm2Pcm_def res_simps written_def split: if_splits)
  have i: "table_index (ad_index (cc_adpcm_state_encode c))" using e by (simp add: adpcm_coder_def split: if_splits)
  have "table_index (ad_index st) \<and> - 32768 \<le> ad_valprev st \<and> ad_valprev st \<le> 32767"
    using adpcm_coder_range [OF e] assms(3,4) by simp
  with frame_state_written [of "ad_valprev st" "ad_index st" bytes] o have "frame_state out = st" by simp
  moreover have "drop 4 out = bytes" by (simp add: o(2))
  ultimately show ?thesis using a e o(1) by simp
qed

theorem adpcm_frame_header_witness:
  "\<exists>c' out. EncodeAudio (\<lambda>_ _ _. (0, 0, False, [])) (pcm_bytes [1000, 1000]) 4 eAdpcm (CCodec_new CtxNull) = Inr (c', out) \<and>
    frame_state out = cc_adpcm_state_encode c'"
proof -
  have s: "cc_adpcm_state_encode (CCodec_new CtxNull) = \<lparr>ad_valprev = 0, ad_index = 0\<rparr>"
    "\<not> cc_haisi_header (CCodec_new CtxNull)"
    by (simp_all add: CCodec_new_def)
  have r: "read_shorts 2 (pcm_bytes [1000, 1000]) = Inr [1000, 1000]" by code_simp
  obtain out st where e: "adpcm_coder (map sint [1000, 1000 :: 16 word]) \<lparr>ad_valprev = 0, ad_index = 0\<rparr> = Inr (out, st)"
    using adpcm_coder_returns [of "\<lparr>ad_valprev = 0, ad_index = 0\<rparr>" "map sint [1000, 1000 :: 16 word]"]
    by (auto simp: table_index_def simp del: adpcm_coder_loop.simps list.map)
  have "length out \<le> 1" using adpcm_coder_length [OF e] by simp
  then obtain c' o' where "EncodeAudio (\<lambda>_ _ _. (0, 0, False, [])) (pcm_bytes [1000, 1000]) 4 eAdpcm (CCodec_new CtxNull) = Inr (c', o')"
    using r e s by (simp add: EncodeAudio_def EncodeAdpcm2Pcm_def res_simps written_def OUT_BUF_def del: list.map)
  from adpcm_frame_header [OF this s(2)] this show ?thesis by (simp add: s(1))
qed

text \<open>So a frame is not decoded to what was coded: here to samples far from them.\<close>

lemma adpcm_frame_decodes_wrong:
  "(case adpcm_coder [1000, 1000] \<lparr>ad_valprev = 0, ad_index = 0\<rparr> of
      Inr (out, state') \<Rightarrow> adpcm_decoder out 2 state' \<noteq> adpcm_decoder out 2 \<lparr>ad_valprev = 0, ad_index = 0\<rparr>
    | Inl _ \<Rightarrow> False)"
  by code_simp

end
