(* ===== verification/Rtmp_Stream.thy ===== *)
theory Rtmp_Stream
  imports Prelude
begin

text \<open>
  The RTMP stream of the web server (web_server/rtmp/RtmpStream/RtmpStream.cpp): opening it, the
  buffer that cuts the PCM bytes of a vehicle into the encoder's frames, the time stamps of the
  written packets, and the search for a key frame. libav is not part of the program: what its calls
  answer is an argument of every operation, and what they are given is part of the result.
\<close>

section \<open>State\<close>

datatype av_media_type = AVMEDIA_TYPE_VIDEO | AVMEDIA_TYPE_AUDIO | AVMEDIA_TYPE_OTHER

text \<open>
  The codec context as far as the program sets it. \<open>av_format\<close> and \<open>av_codec_id\<close> are the
  names of libav's constants; a field the program does not set is the allocator's.
\<close>

record codec_context =
  av_codec_id :: string
  av_codec_type :: av_media_type
  av_format :: string
  av_bit_rate :: int
  av_sample_rate :: int
  av_channel_layout :: int
  av_channels :: int
  av_width :: int
  av_height :: int
  av_time_base :: "int \<times> int"
  av_codec_tag :: int
  av_global_header :: bool

record output_stream =
  os_st :: "(int \<times> (int \<times> int)) option"
  os_enc :: "codec_context option"
  os_next_pts :: int
  os_samples_count :: int
  os_frame :: "int option"
  os_tmp_frame :: "int option"
  os_swr_ctx :: bool

definition output_stream_zero :: output_stream where
  "output_stream_zero = \<lparr>os_st = None, os_enc = None, os_next_pts = 0, os_samples_count = 0,
     os_frame = None, os_tmp_frame = None, os_swr_ctx = False\<rparr>"

text \<open>
  \<open>rs_fmt\<close> tells of a known output format whether it has \<open>AVFMT_NOFILE\<close> set; \<open>rs_pcm\<close> is the
  array \<open>pcmencodebuf\<close>. \<open>ptsInc\<close> is an \<open>int\<close> that counts video frames; what is computed from it
  is overwritten before use.
\<close>

record rtmp_stream =
  rs_video_st :: output_stream
  rs_audio_st :: output_stream
  rs_fmt :: "bool option"
  rs_oc :: bool
  rs_have_video :: bool
  rs_have_audio :: bool
  rs_ptsInc :: int
  rs_iRawBuffSize :: nat
  rs_iConvertBuffSize :: nat
  rs_pcm :: "byte list"
  rs_pcmencodesize :: nat
  rs_bIsPushing :: bool
  rs_sUrl :: "byte list"
  rs_ts_audio_last :: u64
  rs_ts_audio_offset :: u32
  rs_ts_video_last :: u64
  rs_ts_video_offset :: u32
  rs_bConnectRtmpSucc :: bool

definition PCM_BUF :: nat where "PCM_BUF = 4096"

definition RtmpStream_new :: rtmp_stream where
  "RtmpStream_new = \<lparr>rs_video_st = output_stream_zero, rs_audio_st = output_stream_zero, rs_fmt = None,
     rs_oc = False, rs_have_video = False, rs_have_audio = False, rs_ptsInc = 0, rs_iRawBuffSize = 0,
     rs_iConvertBuffSize = 0, rs_pcm = replicate PCM_BUF 0, rs_pcmencodesize = 0, rs_bIsPushing = False,
     rs_sUrl = [], rs_ts_audio_last = 0, rs_ts_audio_offset = 0, rs_ts_video_last = 0,
     rs_ts_video_offset = 0, rs_bConnectRtmpSucc = False\<rparr>"

definition RtmpStream_IsInit :: "rtmp_stream \<Rightarrow> bool" where
  "RtmpStream_IsInit s = rs_bConnectRtmpSucc s"

definition SetPushState :: "bool \<Rightarrow> rtmp_stream \<Rightarrow> rtmp_stream" where
  "SetPushState b s = s\<lparr>rs_bIsPushing := b\<rparr>"

definition GetPushState :: "rtmp_stream \<Rightarrow> bool" where
  "GetPushState s = rs_bIsPushing s"

section \<open>Opening\<close>

text \<open>
  What libav answers to \<open>add_stream\<close>: an encoder was found (and its media type), a stream and a
  context could be made; the number of streams of the container then, the channels of layout 1, and
  whether the format wants a global header. The context is as allocated, its fields at libav's defaults.
\<close>

record add_env =
  ae_encoder :: "av_media_type option"
  ae_stream :: bool
  ae_context :: "codec_context option"
  ae_nb_streams :: int
  ae_channels :: int
  ae_global_header :: bool

definition add_stream :: "add_env \<Rightarrow> string \<Rightarrow> output_stream \<Rightarrow> int \<times> output_stream" where
  "add_stream ae codec_id ost =
     (case ae_encoder ae of
        None \<Rightarrow> (- 1, ost)
      | Some t \<Rightarrow>
          if \<not> ae_stream ae then (- 1, ost\<lparr>os_st := None\<rparr>)
          else
            (let ost = ost\<lparr>os_st := Some (ae_nb_streams ae - 1, (0, 0))\<rparr> in
             case ae_context ae of
               None \<Rightarrow> (- 1, ost)
             | Some c \<Rightarrow>
                 (let (c, base) =
                    (case t of
                       AVMEDIA_TYPE_AUDIO \<Rightarrow>
                         (c\<lparr>av_codec_id := codec_id, av_codec_type := AVMEDIA_TYPE_AUDIO,
                            av_format := ''FLTP'', av_bit_rate := 48000, av_sample_rate := 8000,
                            av_channel_layout := 1, av_channels := ae_channels ae\<rparr>, (1, 8000))
                     | AVMEDIA_TYPE_VIDEO \<Rightarrow>
                         (c\<lparr>av_codec_id := codec_id, av_codec_type := AVMEDIA_TYPE_VIDEO,
                            av_format := ''YUV420P'', av_width := 352, av_height := 288,
                            av_time_base := (1, 25), av_codec_tag := 0\<rparr>, (1, 25))
                     | AVMEDIA_TYPE_OTHER \<Rightarrow> (c, (0, 0)));
                    c = (if ae_global_header ae then c\<lparr>av_global_header := True\<rparr> else c) in
                  (0, ost\<lparr>os_st := Some (ae_nb_streams ae - 1, base), os_enc := Some c\<rparr>))))"

text \<open>What libav answers to \<open>open_audio\<close> and \<open>open_video\<close>.\<close>

record open_env =
  oe_open :: int
  oe_parameters :: int
  oe_frame_size :: int
  oe_raw_size :: nat
  oe_fill_raw :: int
  oe_convert_size :: nat
  oe_fill_convert :: int
  oe_swr_alloc :: bool
  oe_swr_init :: int

definition open_audio :: "open_env \<Rightarrow> rtmp_stream \<Rightarrow> int \<times> rtmp_stream" where
  "open_audio oe s =
     (if oe_open oe < 0 then (- 1, s)
      else if oe_parameters oe < 0 then (- 1, s)
      else
        (let nb_samples = oe_frame_size oe;
             s = s\<lparr>rs_iRawBuffSize := oe_raw_size oe,
               rs_audio_st := (rs_audio_st s)\<lparr>os_tmp_frame := Some nb_samples\<rparr>\<rparr> in
         if oe_fill_raw oe < 0 then (- 1, s)
         else
           (let s = s\<lparr>rs_iConvertBuffSize := oe_convert_size oe,
                  rs_audio_st := (rs_audio_st s)\<lparr>os_frame := Some nb_samples\<rparr>\<rparr> in
            if oe_fill_convert oe < 0 then (- 1, s)
            else
              (let s = s\<lparr>rs_audio_st := (rs_audio_st s)\<lparr>os_swr_ctx := oe_swr_alloc oe\<rparr>\<rparr> in
               if \<not> oe_swr_alloc oe then (- 1, s)
               else if oe_swr_init oe < 0 then (- 1, s)
               else (0, s)))))"

definition open_video :: "open_env \<Rightarrow> int" where
  "open_video oe = (if oe_open oe < 0 then - 1 else if oe_parameters oe < 0 then - 1 else 0)"

record init_env =
  ie_context :: bool
  ie_nofile :: bool
  ie_has_video :: bool
  ie_has_audio :: bool
  ie_add_video :: add_env
  ie_add_audio :: add_env
  ie_open_video :: open_env
  ie_open_audio :: open_env
  ie_avio_open :: int
  ie_write_header :: int

definition Init_open :: "init_env \<Rightarrow> rtmp_stream \<Rightarrow> int \<times> rtmp_stream" where
  "Init_open ie s =
     (let video = (if rs_have_video s then open_video (ie_open_video ie) else 0) in
      if video < 0 then (- 1, s)
      else
        (case (if rs_have_audio s then open_audio (ie_open_audio ie) s else (0, s)) of (ret, s) \<Rightarrow>
           if ret < 0 then (- 1, s)
           else if \<not> ie_nofile ie \<and> ie_avio_open ie < 0 then (- 1, s)
           else
             (let s = s\<lparr>rs_bConnectRtmpSucc := True\<rparr> in
              if ie_write_header ie < 0 then (- 1, s)
              else (0, s\<lparr>rs_bIsPushing := True\<rparr>))))"

definition RtmpStream_Init :: "init_env \<Rightarrow> byte list option \<Rightarrow> rtmp_stream \<Rightarrow> int \<times> rtmp_stream" where
  "RtmpStream_Init ie filename s =
     (case filename of
        None \<Rightarrow> (- 1, s)
      | Some url \<Rightarrow>
          (let s = s\<lparr>rs_sUrl := url, rs_oc := ie_context ie\<rparr> in
           if \<not> ie_context ie then (- 1, s)
           else
             (let s = s\<lparr>rs_fmt := Some (ie_nofile ie)\<rparr>;
                  (video, vst) = (if ie_has_video ie then add_stream (ie_add_video ie) ''H264'' (rs_video_st s)
                                  else (0, rs_video_st s));
                  s = s\<lparr>rs_video_st := vst\<rparr> in
              if video < 0 then (- 1, s)
              else
                (let s = (if ie_has_video ie then s\<lparr>rs_have_video := True\<rparr> else s);
                     (audio, ast) = (if ie_has_audio ie then add_stream (ie_add_audio ie) ''AAC'' (rs_audio_st s)
                                     else (0, rs_audio_st s));
                     s = s\<lparr>rs_audio_st := ast\<rparr> in
                 if audio < 0 then (- 1, s)
                 else Init_open ie (if ie_has_audio ie then s\<lparr>rs_have_audio := True\<rparr> else s)))))"

text \<open>What the destructor does to the container, in its order.\<close>

datatype close_action = WriteTrailer | CloseVideo | CloseAudio | CloseFile | FreeContext

definition RtmpStream_destroy :: "rtmp_stream \<Rightarrow> close_action list" where
  "RtmpStream_destroy s =
     (if rs_oc s \<and> rs_bConnectRtmpSucc s then [WriteTrailer] else []) @
     (if rs_have_video s then [CloseVideo] else []) @
     (if rs_have_audio s then [CloseAudio] else []) @
     (case rs_fmt s of None \<Rightarrow> [] | Some nofile \<Rightarrow> if \<not> nofile then [CloseFile] else []) @
     (if rs_oc s then [FreeContext] else [])"

section \<open>Time stamps\<close>

text \<open>\<open>GetAVPts\<close>: the result, and the two variables it updates.\<close>

definition GetAVPts :: "u64 \<Rightarrow> u32 \<Rightarrow> u64 \<Rightarrow> int \<times> u64 \<times> u32" where
  "GetAVPts ts_last uOffset timestamp =
     (let (ts_last, uOffset) =
        (if ts_last = 0 then (timestamp, 0)
         else if ts_last > timestamp then (ts_last, uOffset)
         else (let diff = ucast (timestamp - ts_last) :: 32 word in (timestamp, uOffset + diff))) in
      (sint uOffset, ts_last, uOffset))"

section \<open>Key frames\<close>

text \<open>
  The buffer is memory that may go on behind the \<open>len\<close> bytes that are searched; a read beyond the
  memory is a fault. \<open>pos\<close> (the source's \<open>last\<close>) is the position behind the last start code, 0 before the first.
\<close>

definition isIdrFrame2 :: "byte list \<Rightarrow> fault + bool" where
  "isIdrFrame2 buf =
     (case buf of
        [] \<Rightarrow> Inl OutOfBounds
      | b # _ \<Rightarrow> Inr (b AND 0x1f = 7 \<or> b AND 0x1f = 8 \<or> b AND 0x1f = 5))"

function idr_loop :: "byte list \<Rightarrow> nat \<Rightarrow> nat \<Rightarrow> nat \<Rightarrow> fault + bool" where
  "idr_loop buf len i pos =
     (if \<not> i \<le> len then Inr False
      else if i = len then (if pos \<noteq> 0 then isIdrFrame2 (drop pos buf) else Inr False)
      else if length buf \<le> i then Inl OutOfBounds
      else if buf ! (i - 2) = 0 \<and> buf ! (i - 1) = 0 \<and> buf ! i = 1 then
        (if pos \<noteq> 0
         then rbind (isIdrFrame2 (drop pos buf)) (\<lambda>ret.
                if ret then Inr True else idr_loop buf len (i + 1) (i + 1))
         else idr_loop buf len (i + 1) (i + 1))
      else idr_loop buf len (i + 1) pos)"
  by pat_completeness auto

termination idr_loop
  by (relation "measure (\<lambda>(buf, len, i, pos). len + 1 - i)") auto

declare idr_loop.simps [simp del]

definition isIdrFrame1 :: "byte list \<Rightarrow> nat \<Rightarrow> fault + bool" where
  "isIdrFrame1 buf len = idr_loop buf len 2 0"

section \<open>Writing\<close>

text \<open>
  What the operations hand to libav: a PCM frame with the two time stamps it gets, and a packet with
  its stamps, its duration, and the key frame flag.
\<close>

datatype av_out =
    PcmFrame "byte list" int int
  | AudioPacket int u64 "byte list"
  | VideoPacket int u64 bool "byte list"

text \<open>
  libav's answers while an audio frame is written: the results of resampling and encoding, the packet
  if the encoder gave one, the result of writing it.
\<close>

record audio_env =
  au_convert :: int
  au_encode :: int
  au_packet :: "byte list option"
  au_write :: int

definition write_encoded :: "audio_env \<Rightarrow> u64 \<Rightarrow> rtmp_stream \<Rightarrow> int \<times> rtmp_stream \<times> av_out list" where
  "write_encoded au timestamp s =
     (case au_packet au of
        None \<Rightarrow> (0, s, [])
      | Some pkt \<Rightarrow>
          (let last_ts = rs_ts_audio_last s;
               (ts, stored, off) = GetAVPts (rs_ts_audio_last s) (rs_ts_audio_offset s) timestamp;
               s = s\<lparr>rs_ts_audio_last := stored, rs_ts_audio_offset := off\<rparr> in
           if last_ts > timestamp then (0, s, [])
           else (if au_write au < 0 then - 1 else 0, s, [AudioPacket ts (timestamp - last_ts) pkt])))"

definition write_audio_frame ::
  "audio_env \<Rightarrow> byte list \<Rightarrow> u64 \<Rightarrow> rtmp_stream \<Rightarrow> fault + (int \<times> rtmp_stream \<times> av_out list)" where
  "write_audio_frame au data timestamp s =
     (if PCM_BUF < rs_pcmencodesize s + length data then Inl OutOfBounds
      else
        (let s = s\<lparr>rs_pcm := mem_write (rs_pcmencodesize s) data (rs_pcm s),
               rs_pcmencodesize := rs_pcmencodesize s + length data\<rparr>;
             raw = rs_iRawBuffSize s in
         if rs_pcmencodesize s < raw then Inr (0, s, [])
         else
           (let bytes = take raw (rs_pcm s); n = rs_pcmencodesize s - raw in
            if raw < n then Inl BadCall
            else
              (let s = s\<lparr>rs_pcmencodesize := n, rs_pcm := mem_write 0 (take n (drop raw (rs_pcm s))) (rs_pcm s)\<rparr>;
                   ost = rs_audio_st s in
               case os_tmp_frame ost of
                 None \<Rightarrow> Inl NullDeref
               | Some nb_samples \<Rightarrow>
                   (let raw_pts = os_next_pts ost;
                        s = s\<lparr>rs_audio_st := ost\<lparr>os_next_pts := os_next_pts ost + nb_samples\<rparr>\<rparr>;
                        frame = PcmFrame bytes raw_pts (os_samples_count ost) in
                    if au_convert au < 0 then Inr (- 1, s, [frame])
                    else
                      (let s = s\<lparr>rs_audio_st := (rs_audio_st s)\<lparr>os_samples_count := os_samples_count ost + nb_samples\<rparr>\<rparr> in
                       if au_encode au < 0 then Inr (- 1, s, [frame])
                       else
                         (case write_encoded au timestamp s of (ret, s, outs) \<Rightarrow>
                            Inr (ret, s, frame # outs))))))))"

text \<open>\<open>wr\<close> is the result of \<open>av_interleaved_write_frame\<close>; the data is memory of which \<open>datalen\<close> bytes are written.\<close>

definition write_video_frame ::
  "int \<Rightarrow> byte list \<Rightarrow> nat \<Rightarrow> u64 \<Rightarrow> rtmp_stream \<Rightarrow> fault + (int \<times> rtmp_stream \<times> av_out list)" where
  "write_video_frame wr data datalen timestamp s =
     rbind (isIdrFrame1 data datalen) (\<lambda>isI.
       let s = s\<lparr>rs_ptsInc := rs_ptsInc s + 1\<rparr>;
           last_ts = rs_ts_video_last s;
           (ts, stored, off) = GetAVPts (rs_ts_video_last s) (rs_ts_video_offset s) timestamp;
           s = s\<lparr>rs_ts_video_last := stored, rs_ts_video_offset := off\<rparr> in
       if last_ts > timestamp then Inr (0, s, [])
       else
         (let duration = (if last_ts < timestamp then timestamp - last_ts else 0) in
          Inr (if wr < 0 then - 1 else 0, s, [VideoPacket ts duration isI (take datalen data)])))"

record write_env =
  we_video :: int
  we_audio :: audio_env

definition WriteData ::
  "write_env \<Rightarrow> av_media_type \<Rightarrow> byte list \<Rightarrow> nat \<Rightarrow> u64 \<Rightarrow> rtmp_stream \<Rightarrow>
    fault + (int \<times> rtmp_stream \<times> av_out list)" where
  "WriteData we datatype data datalen timestamp s =
     (case datatype of
        AVMEDIA_TYPE_VIDEO \<Rightarrow> write_video_frame (we_video we) data datalen timestamp s
      | AVMEDIA_TYPE_AUDIO \<Rightarrow>
          if length data < datalen then Inl OutOfBounds
          else write_audio_frame (we_audio we) (take datalen data) timestamp s
      | AVMEDIA_TYPE_OTHER \<Rightarrow> Inr (0, s, []))"

section \<open>Lemmas on key frames\<close>

definition start_code :: "byte list \<Rightarrow> nat \<Rightarrow> bool" where
  "start_code buf p = (buf ! p = 0 \<and> buf ! (p + 1) = 0 \<and> buf ! (p + 2) = 1)"

definition key_unit :: "byte \<Rightarrow> bool" where
  "key_unit b = (b AND 0x1f \<in> {5, 7, 8})"

lemma isIdrFrame2_nth: "p < length buf \<Longrightarrow> isIdrFrame2 (drop p buf) = Inr (key_unit (buf ! p))"
  by (auto simp: isIdrFrame2_def key_unit_def Cons_nth_drop_Suc [symmetric])

lemma idr_loop_spec:
  "2 \<le> i \<Longrightarrow> i \<le> len \<Longrightarrow> pos \<le> i \<Longrightarrow> len < length buf \<Longrightarrow>
    idr_loop buf len i pos =
      Inr (pos \<noteq> 0 \<and> key_unit (buf ! pos) \<or>
        (\<exists>p. i \<le> p + 2 \<and> p + 3 \<le> len \<and> start_code buf p \<and> key_unit (buf ! (p + 3))))"
proof (induction "len - i" arbitrary: i pos rule: less_induct)
  case less
  note prems = less.prems
  have i: "\<not> \<not> i \<le> len" "\<not> length buf \<le> i" using prems by simp_all
  have pos: "isIdrFrame2 (drop pos buf) = Inr (key_unit (buf ! pos))"
    using prems by (intro isIdrFrame2_nth) simp
  define rest where "rest j \<longleftrightarrow> (\<exists>p. j \<le> p + 2 \<and> p + 3 \<le> len \<and> start_code buf p \<and> key_unit (buf ! (p + 3)))" for j
  show ?case
  proof (cases "i = len")
    case True
    then show ?thesis using i pos by (subst idr_loop.simps) auto
  next
    case False
    then have lt: "i + 1 \<le> len" "2 \<le> i + 1" using prems by simp_all
    have code: "buf ! (i - 2) = 0 \<and> buf ! (i - 1) = 0 \<and> buf ! i = 1 \<longleftrightarrow> start_code buf (i - 2)"
      using prems(1) by (simp add: start_code_def eval_nat_numeral Suc_diff_Suc)
    have next_rest: "rest i \<longleftrightarrow> rest (i + 1) \<or> start_code buf (i - 2) \<and> key_unit (buf ! (i + 1))"
    proof
      assume "rest i"
      then obtain p where p: "i \<le> p + 2" "p + 3 \<le> len" "start_code buf p" "key_unit (buf ! (p + 3))"
        unfolding rest_def by blast
      show "rest (i + 1) \<or> start_code buf (i - 2) \<and> key_unit (buf ! (i + 1))"
      proof (cases "p = i - 2")
        case True
        then have "p + 3 = i + 1" using prems(1) by simp
        with p True show ?thesis by metis
      next
        case False
        with p show ?thesis unfolding rest_def by (intro disjI1 exI [of _ p]) simp
      qed
    next
      assume "rest (i + 1) \<or> start_code buf (i - 2) \<and> key_unit (buf ! (i + 1))"
      then show "rest i"
      proof
        assume "rest (i + 1)"
        then show ?thesis unfolding rest_def by (metis add_leD1)
      next
        assume s: "start_code buf (i - 2) \<and> key_unit (buf ! (i + 1))"
        have "i - 2 + 3 = i + 1" "i \<le> i - 2 + 2" using prems(1) by simp_all
        with s lt show ?thesis unfolding rest_def by metis
      qed
    qed
    have IH: "idr_loop buf len (i + 1) q = Inr (q \<noteq> 0 \<and> key_unit (buf ! q) \<or> rest (i + 1))" if "q \<le> i + 1" for q
      unfolding rest_def by (rule less.hyps) (use that lt prems(4) in simp_all)
    show ?thesis
      unfolding rest_def [symmetric]
      using i False code pos IH [of pos] prems(3) IH [of "i + 1"] next_rest
      by (subst idr_loop.simps) (auto simp: res_simps)
  qed
qed

section \<open>Lemmas on time stamps\<close>

lemma ucast_u32_add: "(ucast (a :: u64) :: u32) + ucast b = ucast (a + b)"
proof (transfer, goal_cases)
  case (1 a b)
  show ?case
    using take_bit_add [of 32 "take_bit 64 a" "take_bit 64 b"] take_bit_add [of 32 a b] by (simp add: min_def)
qed

text \<open>The stamps at which a packet is written: those that no earlier stamp exceeds.\<close>

fun kept :: "u64 \<Rightarrow> u64 list \<Rightarrow> u64 list" where
  "kept m [] = []"
| "kept m (t # ts) = (if m \<le> t then t # kept t ts else kept m ts)"

definition pts_of :: "u64 \<Rightarrow> u64 \<Rightarrow> int" where
  "pts_of t0 t = sint (ucast (t - t0) :: u32)"

text \<open>A stream of video frames, each in a string with its terminator.\<close>

fun video_run :: "(int \<times> byte list \<times> u64) list \<Rightarrow> rtmp_stream \<Rightarrow> fault + (rtmp_stream \<times> av_out list)" where
  "video_run [] s = Inr (s, [])"
| "video_run ((wr, frame, t) # fs) s =
     rbind (write_video_frame wr (frame @ [0]) (length frame) t s) (\<lambda>(ret, s, out).
       rbind (video_run fs s) (\<lambda>(s, outs). Inr (s, out @ outs)))"

fun stamp :: "av_out \<Rightarrow> int \<times> u64" where
  "stamp (VideoPacket ts d k bs) = (ts, d)"
| "stamp (AudioPacket ts d bs) = (ts, d)"
| "stamp (PcmFrame bs a b) = (a, 0)"

definition stamps :: "u64 \<Rightarrow> u64 \<Rightarrow> u64 list \<Rightarrow> (int \<times> u64) list" where
  "stamps t0 prev ks = map2 (\<lambda>t p. (pts_of t0 t, t - p)) ks (prev # ks)"

lemma isIdrFrame1_string: "\<exists>k. isIdrFrame1 (frame @ [0]) (length frame) = Inr k"
proof (cases "2 \<le> length frame")
  case True
  with idr_loop_spec [of 2 "length frame" 0 "frame @ [0]"] show ?thesis by (simp add: isIdrFrame1_def)
next
  case False
  then have "isIdrFrame1 (frame @ [0]) (length frame) = Inr False"
    by (simp add: isIdrFrame1_def idr_loop.simps)
  then show ?thesis by blast
qed

lemma write_video_kept:
  assumes "rs_ts_video_last s = m" "m \<noteq> 0" "rs_ts_video_offset s = ucast (m - t0)"
  obtains k where "write_video_frame wr (frame @ [0]) (length frame) t s =
    (if m \<le> t then Inr (if wr < 0 then - 1 else 0, s\<lparr>rs_ptsInc := rs_ptsInc s + 1, rs_ts_video_last := t,
        rs_ts_video_offset := ucast (t - t0)\<rparr>, [VideoPacket (pts_of t0 t) (t - m) k frame])
     else Inr (0, s\<lparr>rs_ptsInc := rs_ptsInc s + 1\<rparr>, []))"
proof -
  obtain k where k: "isIdrFrame1 (frame @ [0]) (length frame) = Inr k" using isIdrFrame1_string by blast
  have o: "ucast (m - t0) + ucast (t - m) = (ucast (t - t0) :: u32)" by (simp add: ucast_u32_add)
  have d: "m < t \<or> t - m = 0" if "m \<le> t" using that by auto
  have "m \<le> t \<Longrightarrow> \<not> m < t \<Longrightarrow> t = m" by simp
  then show ?thesis
    using that [of k] k o assms d
    by (auto simp: write_video_frame_def GetAVPts_def pts_of_def Let_def res_simps not_le split: if_splits)
qed

lemma video_run_kept:
  "rs_ts_video_last s = m \<Longrightarrow> m \<noteq> 0 \<Longrightarrow> rs_ts_video_offset s = ucast (m - t0) \<Longrightarrow>
    \<exists>s' outs. video_run fs s = Inr (s', outs) \<and> map stamp outs = stamps t0 m (kept m (map (\<lambda>(_, _, t). t) fs))"
proof (induction fs arbitrary: s m)
  case (Cons f fs)
  obtain wr frame t where f: "f = (wr, frame, t)" by (cases f)
  obtain k where w: "write_video_frame wr (frame @ [0]) (length frame) t s =
    (if m \<le> t then Inr (if wr < 0 then - 1 else 0, s\<lparr>rs_ptsInc := rs_ptsInc s + 1, rs_ts_video_last := t,
        rs_ts_video_offset := ucast (t - t0)\<rparr>, [VideoPacket (pts_of t0 t) (t - m) k frame])
     else Inr (0, s\<lparr>rs_ptsInc := rs_ptsInc s + 1\<rparr>, []))"
    using write_video_kept [OF Cons.prems] .
  show ?case
  proof (cases "m \<le> t")
    case True
    with Cons.prems(2) have "t \<noteq> 0" by auto
    then obtain s' outs where "video_run fs (s\<lparr>rs_ptsInc := rs_ptsInc s + 1, rs_ts_video_last := t,
        rs_ts_video_offset := ucast (t - t0)\<rparr>) = Inr (s', outs)"
      "map stamp outs = stamps t0 t (kept t (map (\<lambda>(_, _, t). t) fs))"
      using Cons.IH [of "s\<lparr>rs_ptsInc := rs_ptsInc s + 1, rs_ts_video_last := t,
        rs_ts_video_offset := ucast (t - t0)\<rparr>" t] by auto
    with w True show ?thesis by (simp add: f res_simps stamps_def)
  next
    case False
    obtain s' outs where "video_run fs (s\<lparr>rs_ptsInc := rs_ptsInc s + 1\<rparr>) = Inr (s', outs)"
      "map stamp outs = stamps t0 m (kept m (map (\<lambda>(_, _, t). t) fs))"
      using Cons.IH [of "s\<lparr>rs_ptsInc := rs_ptsInc s + 1\<rparr>" m] Cons.prems by auto
    with w False show ?thesis by (simp add: f res_simps)
  qed
qed (simp add: stamps_def)

lemma kept_index: "kept m ts = map ((!) ts) (filter (\<lambda>i. m \<le> ts ! i \<and> (\<forall>j < i. ts ! j \<le> ts ! i)) [0..<length ts])"
proof (induction ts arbitrary: m)
  case (Cons t ts)
  have u: "[0..<length (t # ts)] = 0 # map Suc [0..<length ts]" by (simp add: upt_conv_Cons map_Suc_upt del: upt_Suc)
  have e: "map ((!) (t # ts)) (filter P (map Suc is)) = map ((!) ts) (filter (P \<circ> Suc) is)" for P "is"
    by (induction "is") simp_all
  define P where "P = (\<lambda>i. m \<le> (t # ts) ! i \<and> (\<forall>j < i. (t # ts) ! j \<le> (t # ts) ! i))"
  have p: "P \<circ> Suc = (\<lambda>i. max m t \<le> ts ! i \<and> (\<forall>j < i. ts ! j \<le> ts ! i))" "P 0 \<longleftrightarrow> m \<le> t"
    by (auto simp: P_def fun_eq_iff All_less_Suc2)
  have "map ((!) (t # ts)) (filter P [0..<length (t # ts)]) =
      (if m \<le> t then [t] else []) @ kept (max m t) ts"
    unfolding u Cons.IH [of "max m t"] p(1) [symmetric] by (simp add: e p(2))
  then show ?case unfolding P_def by (simp add: max_def split: if_splits)
qed simp

lemma stamps_pts: "map fst (stamps t0 prev ks) = map (pts_of t0) ks"
  "map snd (stamps t0 prev ks) = map2 (-) ks (prev # ks)"
  by (rule nth_equalityI; simp add: stamps_def)+

lemma kept_sorted: "sorted (kept m ts) \<and> (\<forall>t \<in> set (kept m ts). m \<le> t \<and> t \<in> set ts)"
proof (induction ts arbitrary: m)
  case (Cons t ts)
  from Cons.IH [of t] Cons.IH [of m] show ?case by auto
qed simp

lemma pts_of_small: "t0 \<le> t \<Longrightarrow> uint t - uint t0 < 2 ^ 31 \<Longrightarrow> pts_of t0 t = uint t - uint t0"
proof -
  assume a: "t0 \<le> t" "uint t - uint t0 < 2 ^ 31"
  have u: "uint (t - t0) = uint t - uint t0" using a(1) by (simp add: uint_minus_simple_alt [symmetric])
  then have r: "0 \<le> uint (t - t0)" "uint (t - t0) < 2147483648" using a by (simp_all add: word_le_def)
  have "uint (ucast (t - t0) :: u32) = uint (t - t0)"
    using r by (simp add: unsigned_ucast_eq take_bit_eq_mod)
  then show ?thesis
    using r u unfolding pts_of_def
    by (simp add: sint_uint signed_take_bit_eq_take_bit_shift take_bit_eq_mod)
qed

text \<open>
  Stamps are counted from the first one that is not 0: a stored stamp of 0 means that there was no
  frame yet, so that the frame after those with stamp 0 counts as the first once more.
\<close>

definition first_stamp :: "u64 list \<Rightarrow> u64" where
  "first_stamp ts = (case find (\<lambda>t. t \<noteq> 0) ts of None \<Rightarrow> 0 | Some t \<Rightarrow> t)"

definition frame_pts :: "u64 \<Rightarrow> u64 \<Rightarrow> int" where
  "frame_pts t0 t = (if t = 0 then 0 else pts_of t0 t)"

lemma write_video_first:
  assumes "rs_ts_video_last s = 0"
  obtains k where "write_video_frame wr (frame @ [0]) (length frame) t s =
    Inr (if wr < 0 then - 1 else 0,
      s\<lparr>rs_ptsInc := rs_ptsInc s + 1, rs_ts_video_last := t, rs_ts_video_offset := 0\<rparr>, [VideoPacket 0 t k frame])"
proof -
  obtain k where "isIdrFrame1 (frame @ [0]) (length frame) = Inr k" using isIdrFrame1_string by blast
  then show ?thesis
    using that [of k] assms by (cases "t = 0") (auto simp: write_video_frame_def GetAVPts_def Let_def res_simps word_neq_0_conv)
qed

lemma kept_after_first: "t \<in> set (kept 0 ts) \<Longrightarrow> t \<noteq> 0 \<Longrightarrow> first_stamp ts \<le> t"
proof (induction ts)
  case (Cons x xs)
  show ?case
  proof (cases "x = 0")
    case True
    with Cons show ?thesis by (auto simp: first_stamp_def)
  next
    case False
    with Cons.prems(1) kept_sorted [of x xs] show ?thesis by (auto simp: first_stamp_def)
  qed
qed simp

lemma video_run_fresh:
  "rs_ts_video_last s = 0 \<Longrightarrow> ts = map (\<lambda>(_, _, t). t) fs \<Longrightarrow>
    \<exists>s' outs. video_run fs s = Inr (s', outs) \<and>
      map fst (map stamp outs) = map (frame_pts (first_stamp ts)) (kept 0 ts) \<and>
      map snd (map stamp outs) = map2 (-) (kept 0 ts) (0 # kept 0 ts)"
proof (induction fs arbitrary: s ts)
  case (Cons f fs)
  obtain wr frame t where f: "f = (wr, frame, t)" by (cases f)
  define ts' where "ts' = map (\<lambda>(_, _, t). t) fs"
  have ts: "ts = t # ts'" using Cons.prems(2) by (simp add: f ts'_def)
  let ?s = "s\<lparr>rs_ptsInc := rs_ptsInc s + 1, rs_ts_video_last := t, rs_ts_video_offset := 0\<rparr>"
  obtain k where w: "write_video_frame wr (frame @ [0]) (length frame) t s =
      Inr (if wr < 0 then - 1 else 0, ?s, [VideoPacket 0 t k frame])"
    using write_video_first [OF Cons.prems(1)] by blast
  show ?case
  proof (cases "t = 0")
    case True
    with Cons.IH [of ?s ts'] obtain s' outs where r: "video_run fs ?s = Inr (s', outs)"
      "map fst (map stamp outs) = map (frame_pts (first_stamp ts')) (kept 0 ts')"
      "map snd (map stamp outs) = map2 (-) (kept 0 ts') (0 # kept 0 ts')" by (auto simp: ts'_def)
    moreover have "first_stamp ts = first_stamp ts'" using True by (simp add: ts first_stamp_def)
    ultimately show ?thesis using w True by (simp add: f ts res_simps frame_pts_def)
  next
    case False
    obtain s' outs where r: "video_run fs ?s = Inr (s', outs)" "map stamp outs = stamps t t (kept t ts')"
      using video_run_kept [of ?s t t fs] False by (auto simp: ts'_def)
    have "x \<noteq> 0" if "x \<in> set (kept t ts')" for x
      using kept_sorted [of t ts'] that False by (metis word_le_0_iff)
    then have "map (pts_of t) (kept t ts') = map (frame_pts t) (kept t ts')"
      by (intro map_cong) (simp_all add: frame_pts_def)
    moreover have "first_stamp ts = t" using False by (simp add: ts first_stamp_def)
    moreover have "frame_pts t t = 0" by (simp add: frame_pts_def pts_of_def)
    moreover have "map fst (map stamp outs) = map (pts_of t) (kept t ts')"
      "map snd (map stamp outs) = map2 (-) (kept t ts') (t # kept t ts')"
      unfolding r(2) by (rule stamps_pts)+
    ultimately show ?thesis
      using w r(1) by (simp add: f ts res_simps)
  qed
qed simp

section \<open>Lemmas on the PCM buffer\<close>

definition pcm_pending :: "rtmp_stream \<Rightarrow> byte list" where
  "pcm_pending s = take (rs_pcmencodesize s) (rs_pcm s)"

fun pcm_frames :: "av_out list \<Rightarrow> byte list list" where
  "pcm_frames [] = []"
| "pcm_frames (PcmFrame bs a b # outs) = bs # pcm_frames outs"
| "pcm_frames (AudioPacket ts d bs # outs) = pcm_frames outs"
| "pcm_frames (VideoPacket ts d k bs # outs) = pcm_frames outs"

lemma pcm_frames_append [simp]: "pcm_frames (xs @ ys) = pcm_frames xs @ pcm_frames ys"
  by (induction xs rule: pcm_frames.induct) simp_all

text \<open>An opened stream between two writes: less than one frame is waiting.\<close>

definition pcm_inv :: "rtmp_stream \<Rightarrow> bool" where
  "pcm_inv s \<longleftrightarrow> length (rs_pcm s) = PCM_BUF \<and> rs_pcmencodesize s < rs_iRawBuffSize s \<and>
     rs_iRawBuffSize s \<le> 2048 \<and> os_tmp_frame (rs_audio_st s) \<noteq> None"

lemma write_encoded_result:
  "write_encoded au timestamp s = (ret, s', outs) \<Longrightarrow>
    pcm_frames outs = [] \<and> rs_pcm s' = rs_pcm s \<and> rs_pcmencodesize s' = rs_pcmencodesize s \<and>
    rs_iRawBuffSize s' = rs_iRawBuffSize s \<and> rs_audio_st s' = rs_audio_st s"
  by (auto simp: write_encoded_def Let_def split: option.splits if_splits prod.splits)

lemma write_audio_inv:
  assumes "pcm_inv s" "length data \<le> rs_iRawBuffSize s"
  obtains ret s' outs where "write_audio_frame au data timestamp s = Inr (ret, s', outs)" "pcm_inv s'"
    "rs_iRawBuffSize s' = rs_iRawBuffSize s"
    "pcm_pending s @ data = concat (pcm_frames outs) @ pcm_pending s'"
    "\<forall>f \<in> set (pcm_frames outs). length f = rs_iRawBuffSize s"
proof -
  define n where "n = rs_pcmencodesize s"
  define raw where "raw = rs_iRawBuffSize s"
  define buf where "buf = mem_write n data (rs_pcm s)"
  have inv: "length (rs_pcm s) = 4096" "n < raw" "raw \<le> 2048" "length data \<le> raw"
    "os_tmp_frame (rs_audio_st s) \<noteq> None"
    using assms by (simp_all add: pcm_inv_def PCM_BUF_def n_def raw_def)
  then obtain nb where nb: "os_tmp_frame (rs_audio_st s) = Some nb" by auto
  have fits: "\<not> PCM_BUF < n + length data" using inv by (simp add: PCM_BUF_def)
  have buf: "length buf = 4096" "take (n + length data) buf = pcm_pending s @ data"
    using inv by (simp_all add: buf_def mem_write_def pcm_pending_def n_def [symmetric])
  note w = write_audio_frame_def fits n_def [symmetric] raw_def [symmetric] buf_def [symmetric] Let_def
  show ?thesis
  proof (cases "n + length data < raw")
    case True
    have "write_audio_frame au data timestamp s = Inr (0, s\<lparr>rs_pcm := buf, rs_pcmencodesize := n + length data\<rparr>, [])"
      using True by (simp add: w)
    from this show ?thesis
      by (rule that) (use True inv buf nb in \<open>simp_all add: pcm_inv_def PCM_BUF_def raw_def [symmetric] pcm_pending_def\<close>)
  next
    case False
    define k where "k = n + length data - raw"
    have k: "\<not> raw < k" "k < raw" "raw + k = n + length data" "raw + k \<le> length buf"
      using False inv buf by (simp_all add: k_def)
    define buf' where "buf' = mem_write 0 (take k (drop raw buf)) buf"
    have t: "take k buf' = take k (drop raw buf)" "length buf' = 4096"
      using k(4) buf(1) by (simp_all add: buf'_def mem_write_def)
    have c: "pcm_pending s @ data = take raw buf @ take k buf'"
      unfolding t(1) buf(2) [symmetric] k(3) [symmetric] by (simp add: take_add)
    obtain ret s' outs where r: "write_audio_frame au data timestamp s = Inr (ret, s', outs)"
      and s': "pcm_frames outs = [take raw buf]" "rs_pcm s' = buf'" "rs_pcmencodesize s' = k"
        "rs_iRawBuffSize s' = raw" "os_tmp_frame (rs_audio_st s') = Some nb"
    proof (cases "au_convert au < 0 \<or> au_encode au < 0")
      case True
      let ?f = "PcmFrame (take raw buf) (os_next_pts (rs_audio_st s)) (os_samples_count (rs_audio_st s))"
      let ?s = "s\<lparr>rs_pcm := buf', rs_pcmencodesize := k, rs_audio_st := (rs_audio_st s)\<lparr>
        os_next_pts := os_next_pts (rs_audio_st s) + nb, os_samples_count := os_samples_count (rs_audio_st s) +
          (if au_convert au < 0 then 0 else nb)\<rparr>\<rparr>"
      from True have "write_audio_frame au data timestamp s = Inr (- 1, ?s, [?f])"
        using False k(1) nb by (auto simp: w k_def [symmetric] buf'_def [symmetric])
      then show ?thesis by (rule that) (use nb in \<open>simp_all add: raw_def\<close>)
    next
      case no_error: False
      let ?s = "s\<lparr>rs_pcmencodesize := k, rs_pcm := buf', rs_audio_st := (rs_audio_st s)\<lparr>
        os_next_pts := os_next_pts (rs_audio_st s) + nb, os_samples_count := os_samples_count (rs_audio_st s) + nb\<rparr>\<rparr>"
      obtain ret s' outs where e: "write_encoded au timestamp ?s = (ret, s', outs)" by (metis prod_cases3)
      have "write_audio_frame au data timestamp s =
        Inr (ret, s', PcmFrame (take raw buf) (os_next_pts (rs_audio_st s)) (os_samples_count (rs_audio_st s)) # outs)"
        using no_error False k(1) nb e by (simp add: w k_def [symmetric] buf'_def [symmetric])
      then show ?thesis
        by (rule that) (use write_encoded_result [OF e] nb in \<open>simp_all add: raw_def\<close>)
    qed
    from r show ?thesis
      by (rule that) (use s' t k inv buf c in \<open>simp_all add: pcm_inv_def PCM_BUF_def pcm_pending_def raw_def [symmetric]\<close>)
  qed
qed

text \<open>What a write may be at most: two frames of the encoder, with what is waiting.\<close>

lemma write_audio_faults:
  assumes "pcm_inv s"
  shows "(\<exists>f. write_audio_frame au data t s = Inl f) \<longleftrightarrow>
    2 * rs_iRawBuffSize s < length (pcm_pending s) + length data"
proof -
  have inv: "length (rs_pcm s) = 4096" "rs_pcmencodesize s < rs_iRawBuffSize s" "rs_iRawBuffSize s \<le> 2048"
    "os_tmp_frame (rs_audio_st s) \<noteq> None"
    using assms by (simp_all add: pcm_inv_def PCM_BUF_def)
  then have p: "length (pcm_pending s) = rs_pcmencodesize s" by (simp add: pcm_pending_def)
  show ?thesis
  proof (cases "2 * rs_iRawBuffSize s < rs_pcmencodesize s + length data")
    case True
    then have "rs_iRawBuffSize s < rs_pcmencodesize s + length data - rs_iRawBuffSize s" by simp
    with True inv show ?thesis unfolding p by (auto simp: write_audio_frame_def Let_def)
  next
    case False
    moreover from inv obtain nb where "os_tmp_frame (rs_audio_st s) = Some nb" by auto
    ultimately show ?thesis
      using inv unfolding p by (auto simp: write_audio_frame_def Let_def PCM_BUF_def split_def)
  qed
qed

text \<open>A stream of audio data: every result is passed over, as \<open>RtmpClient\<close> does.\<close>

fun audio_run :: "(audio_env \<times> byte list \<times> u64) list \<Rightarrow> rtmp_stream \<Rightarrow> fault + (rtmp_stream \<times> av_out list)" where
  "audio_run [] s = Inr (s, [])"
| "audio_run ((au, data, t) # ws) s =
     rbind (write_audio_frame au data t s) (\<lambda>(ret, s, out).
       rbind (audio_run ws s) (\<lambda>(s, outs). Inr (s, out @ outs)))"

lemma audio_run_fifo:
  assumes "pcm_inv s" "\<forall>(au, data, t) \<in> set ws. length data \<le> rs_iRawBuffSize s"
  shows "\<exists>s' outs. audio_run ws s = Inr (s', outs) \<and> pcm_inv s' \<and>
    (\<forall>f \<in> set (pcm_frames outs). length f = rs_iRawBuffSize s) \<and>
    pcm_pending s @ concat (map (\<lambda>(_, data, _). data) ws) = concat (pcm_frames outs) @ pcm_pending s'"
  using assms
proof (induction ws arbitrary: s)
  case (Cons w ws)
  obtain au data t where w: "w = (au, data, t)" by (cases w)
  obtain ret s1 out where a: "write_audio_frame au data t s = Inr (ret, s1, out)" "pcm_inv s1"
    "rs_iRawBuffSize s1 = rs_iRawBuffSize s" "pcm_pending s @ data = concat (pcm_frames out) @ pcm_pending s1"
    "\<forall>f \<in> set (pcm_frames out). length f = rs_iRawBuffSize s"
    using write_audio_inv [of s data au t] Cons.prems w by auto
  from Cons.IH [OF a(2)] Cons.prems(2) a(3) obtain s' outs where
    "audio_run ws s1 = Inr (s', outs)" "pcm_inv s'" "\<forall>f \<in> set (pcm_frames outs). length f = rs_iRawBuffSize s"
    "pcm_pending s1 @ concat (map (\<lambda>(_, data, _). data) ws) = concat (pcm_frames outs) @ pcm_pending s'"
    by auto
  moreover from this(4) a(4) have
    "pcm_pending s @ data @ concat (map (\<lambda>(_, data, _). data) ws) =
      concat (pcm_frames out) @ concat (pcm_frames outs) @ pcm_pending s'"
    by (metis append_assoc)
  ultimately show ?case using a by (auto simp: w res_simps)
qed simp

section \<open>Properties\<close>

text \<open>
  C23. The search for a key frame is equivalent to its specification: in a buffer followed by at
  least one byte it answers whether some start code 00 00 01 lies in the buffer and is followed by a
  unit of type 5, 7 or 8, where the byte behind the buffer counts as the unit of a start code at the
  very end.
\<close>

theorem key_frame_search:
  assumes "n < length buf"
  shows "isIdrFrame1 buf n = Inr (\<exists>p < n. p + 3 \<le> n \<and> start_code buf p \<and> key_unit (buf ! (p + 3)))"
proof (cases "2 \<le> n")
  case True
  have "p + 3 \<le> n \<Longrightarrow> p < n" for p by simp
  then have "(\<exists>p < n. p + 3 \<le> n \<and> Q p) \<longleftrightarrow> (\<exists>p. 2 \<le> p + 2 \<and> p + 3 \<le> n \<and> Q p)" for Q
    by (metis le_add2)
  then show ?thesis
    using idr_loop_spec [of 2 n 0 buf] True assms unfolding isIdrFrame1_def by simp
next
  case False
  then show ?thesis by (simp add: isIdrFrame1_def idr_loop.simps)
qed

theorem key_frame_search_witness:
  "isIdrFrame1 [0, 0, 0, 1, 0x67, 0] 5 = Inr True \<and> isIdrFrame1 [0, 0, 1, 0x41, 0] 4 = Inr False"
proof -
  have e: "(\<exists>p < (5 :: nat). P p) \<longleftrightarrow> P 0 \<or> P 1 \<or> P 2 \<or> P 3 \<or> P 4" for P
    by (auto simp: less_Suc_eq eval_nat_numeral)
  have e4: "(\<exists>p < (4 :: nat). P p) \<longleftrightarrow> P 0 \<or> P 1 \<or> P 2 \<or> P 3" for P
    by (auto simp: less_Suc_eq eval_nat_numeral)
  show ?thesis
    using key_frame_search [of 5 "[0, 0, 0, 1, 0x67, 0]"] key_frame_search [of 4 "[0, 0, 1, 0x41, 0]"]
    unfolding e e4 by (simp add: start_code_def key_unit_def)
qed

text \<open>
  C24. The time stamps of a video stream from its beginning: whatever libav answers, every frame is
  processed, and exactly the frames are written that no earlier stamp exceeds. Each is stamped with
  its distance modulo 2 ^ 32, read as a signed number, from the first frame whose stamp is not 0
  (frames with stamp 0, which can only come before it, are stamped 0 as well), and its duration is the
  distance from the frame written before it - but that of the very first frame is its own absolute
  stamp. As long as no stamp lies 2 ^ 31 milliseconds behind the first that is not 0 the stamps are
  the true distances and ascend.
\<close>

theorem video_timestamps:
  assumes "rs_ts_video_last s = 0" "ts = map (\<lambda>(_, _, t). t) fs"
  shows "\<exists>s' outs. video_run fs s = Inr (s', outs) \<and>
    (let ks = map ((!) ts) (filter (\<lambda>i. \<forall>j < i. ts ! j \<le> ts ! i) [0..<length ts]); t0 = first_stamp ts in
      map fst (map stamp outs) = map (\<lambda>t. if t = 0 then 0 else pts_of t0 t) ks \<and>
      map snd (map stamp outs) = map2 (-) ks (0 # ks) \<and>
      ((\<forall>t \<in> set ts. uint t - uint t0 < 2 ^ 31) \<longrightarrow>
        map fst (map stamp outs) = map (\<lambda>t. if t = 0 then 0 else uint t - uint t0) ks \<and>
        sorted (map fst (map stamp outs))))"
proof -
  obtain s' outs where r: "video_run fs s = Inr (s', outs)"
    "map fst (map stamp outs) = map (frame_pts (first_stamp ts)) (kept 0 ts)"
    "map snd (map stamp outs) = map2 (-) (kept 0 ts) (0 # kept 0 ts)"
    using video_run_fresh [OF assms] by blast
  have idx: "kept 0 ts = map ((!) ts) (filter (\<lambda>i. \<forall>j < i. ts ! j \<le> ts ! i) [0..<length ts])"
    by (simp add: kept_index [of 0 ts])
  define t0 where "t0 = first_stamp ts"
  define true_pts where "true_pts = (\<lambda>t :: u64. if t = 0 then 0 else uint t - uint t0)"
  have small: "map (frame_pts t0) (kept 0 ts) = map true_pts (kept 0 ts) \<and> sorted (map true_pts (kept 0 ts))"
    if "\<forall>t \<in> set ts. uint t - uint t0 < 2 ^ 31"
  proof
    have b: "t0 \<le> t" "t \<in> set ts" if "t \<in> set (kept 0 ts)" "t \<noteq> 0" for t
      using kept_after_first [OF that] kept_sorted [of 0 ts] that(1) by (auto simp: t0_def)
    show "map (frame_pts t0) (kept 0 ts) = map true_pts (kept 0 ts)"
      using b that pts_of_small by (intro map_cong refl) (auto simp: frame_pts_def true_pts_def)
    have "true_pts x \<le> true_pts y" if "x \<le> y" "x \<in> set (kept 0 ts)" "y \<in> set (kept 0 ts)" for x y
      using that b [of y] by (auto simp: true_pts_def word_le_def)
    then show "sorted (map true_pts (kept 0 ts))"
      using conjunct1 [OF kept_sorted [of 0 ts]] by (auto simp: sorted_map intro: sorted_wrt_mono_rel)
  qed
  note st = r(2) [folded t0_def]
  have "map fst (map stamp outs) = map true_pts (kept 0 ts) \<and> sorted (map fst (map stamp outs))"
    if "\<forall>t \<in> set ts. uint t - uint t0 < 2 ^ 31"
    using small [OF that] unfolding st by (simp only:)
  with r(1,3) st show ?thesis
    unfolding idx [symmetric] Let_def t0_def [symmetric] true_pts_def frame_pts_def by blast
qed

text \<open>
  C25. The buffer of PCM bytes of an opened stream, whose encoder takes frames of at most 2048 bytes.
  As long as no write is longer than one frame, every run of writes ends without a fault, whatever
  libav answers, every frame given to the encoder has the encoder's length, and the frames in order
  followed by what still waits are exactly the bytes written. A longer write, which the program does
  not rule out, faults exactly if it makes more than two frames with what waits.
\<close>

theorem pcm_fifo:
  assumes "pcm_inv s" "\<forall>(au, data, t) \<in> set ws. length data \<le> rs_iRawBuffSize s"
  shows "(\<exists>s' outs. audio_run ws s = Inr (s', outs) \<and> pcm_inv s' \<and>
      (\<forall>f \<in> set (pcm_frames outs). length f = rs_iRawBuffSize s) \<and>
      pcm_pending s @ concat (map (\<lambda>(_, data, _). data) ws) = concat (pcm_frames outs) @ pcm_pending s') \<and>
    (\<forall>au data t. (\<exists>f. write_audio_frame au data t s = Inl f) \<longleftrightarrow>
      2 * rs_iRawBuffSize s < length (pcm_pending s) + length data)"
  using audio_run_fifo [OF assms] write_audio_faults [OF assms(1)] by simp

text \<open>A stream opened with the parameters of AAC, and what follows from it.\<close>

definition sample_open :: init_env where
  "sample_open =
     (let ctx = \<lparr>av_codec_id = [], av_codec_type = AVMEDIA_TYPE_OTHER, av_format = [], av_bit_rate = 0,
            av_sample_rate = 0, av_channel_layout = 0, av_channels = 0, av_width = 0, av_height = 0,
            av_time_base = (0, 1), av_codec_tag = 0, av_global_header = False\<rparr>;
          add = \<lparr>ae_encoder = Some AVMEDIA_TYPE_VIDEO, ae_stream = True, ae_context = Some ctx,
            ae_nb_streams = 1, ae_channels = 1, ae_global_header = True\<rparr>;
          open1 = \<lparr>oe_open = 0, oe_parameters = 0, oe_frame_size = 1024, oe_raw_size = 2048, oe_fill_raw = 2048,
            oe_convert_size = 4096, oe_fill_convert = 4096, oe_swr_alloc = True, oe_swr_init = 0\<rparr> in
      \<lparr>ie_context = True, ie_nofile = False, ie_has_video = True, ie_has_audio = True,
        ie_add_video = add, ie_add_audio = add\<lparr>ae_encoder := Some AVMEDIA_TYPE_AUDIO, ae_nb_streams := 2\<rparr>,
        ie_open_video = open1, ie_open_audio = open1, ie_avio_open = 0, ie_write_header = 0\<rparr>)"

definition sample_stream :: rtmp_stream where
  "sample_stream = snd (RtmpStream_Init sample_open (Some [114]) RtmpStream_new)"

lemmas sample_stream_simps = sample_stream_def sample_open_def RtmpStream_Init_def RtmpStream_new_def
  add_stream_def Init_open_def open_video_def open_audio_def output_stream_zero_def Let_def

lemma sample_stream_inv: "pcm_inv sample_stream" "rs_iRawBuffSize sample_stream = 2048"
  "rs_ts_video_last sample_stream = 0" "rs_ts_audio_last sample_stream = 0" "rs_ts_audio_offset sample_stream = 0"
  by (simp_all add: pcm_inv_def PCM_BUF_def sample_stream_simps)

text \<open>
  What the container sees of a stream that could not be opened: the trailer is written exactly if the
  attempt got as far as the header, whether or not the header could be written.
\<close>

lemma trailer_after_failed_header:
  assumes "RtmpStream_Init ie (Some url) RtmpStream_new = (ret, s)"
  shows "WriteTrailer \<in> set (RtmpStream_destroy s) \<longleftrightarrow> ret = 0 \<or> RtmpStream_IsInit s"
    "RtmpStream_IsInit s \<Longrightarrow> (ret = 0 \<longleftrightarrow> 0 \<le> ie_write_header ie)" "ret = 0 \<Longrightarrow> RtmpStream_IsInit s"
proof -
  have "(ret = 0 \<longrightarrow> rs_bConnectRtmpSucc s \<and> rs_oc s) \<and> (rs_bConnectRtmpSucc s \<longrightarrow> rs_oc s \<and> (ret = 0 \<longleftrightarrow> 0 \<le> ie_write_header ie))"
    using assms
    by (auto simp: RtmpStream_Init_def Init_open_def open_audio_def RtmpStream_new_def Let_def
        split: if_splits prod.splits)
  then show "WriteTrailer \<in> set (RtmpStream_destroy s) \<longleftrightarrow> ret = 0 \<or> RtmpStream_IsInit s"
    "RtmpStream_IsInit s \<Longrightarrow> (ret = 0 \<longleftrightarrow> 0 \<le> ie_write_header ie)" "ret = 0 \<Longrightarrow> RtmpStream_IsInit s"
    by (auto simp: RtmpStream_destroy_def RtmpStream_IsInit_def split: option.splits)
qed

theorem video_timestamps_witness:
  "\<exists>s' outs. video_run [(0, [], 0), (0, [], 100), (0, [], 140), (- 1, [], 120)] sample_stream = Inr (s', outs) \<and>
    map fst (map stamp outs) = [0, 0, 40] \<and> map snd (map stamp outs) = [0, 100, 40]"
proof -
  have e: "[0..<4] = [0, 1, 2, 3 :: nat]" by (simp add: upt_rec)
  let ?ts = "[0, 100, 140, 120 :: u64]" and ?fs = "[(0, [], 0), (0, [], 100), (0, [], 140), (- 1, [], 120)]"
  have h: "?ts = map (\<lambda>(_, _, t). t) ?fs" by simp
  have f: "filter (\<lambda>i. \<forall>j < i. ?ts ! j \<le> ?ts ! i) [0..<4] = [0, 1, 2]"
  proof -
    have "(\<forall>j < (1 :: nat). P j) \<longleftrightarrow> P 0" "(\<forall>j < (2 :: nat). P j) \<longleftrightarrow> P 0 \<and> P 1"
      "(\<forall>j < (3 :: nat). P j) \<longleftrightarrow> P 0 \<and> P 1 \<and> P 2" for P
      by (auto simp: less_Suc_eq numeral_2_eq_2 numeral_3_eq_3)
    then show ?thesis unfolding e by simp
  qed
  have l: "length ?ts = 4" "first_stamp ?ts = 100" by (simp_all add: first_stamp_def)
  obtain s' outs where r: "video_run ?fs sample_stream = Inr (s', outs)"
    "map fst (map stamp outs) = map (\<lambda>t. if t = 0 then 0 else pts_of (first_stamp ?ts) t) (map ((!) ?ts)
      (filter (\<lambda>i. \<forall>j < i. ?ts ! j \<le> ?ts ! i) [0..<length ?ts]))"
    "map snd (map stamp outs) = map2 (-) (map ((!) ?ts) (filter (\<lambda>i. \<forall>j < i. ?ts ! j \<le> ?ts ! i) [0..<length ?ts]))
      (0 # map ((!) ?ts) (filter (\<lambda>i. \<forall>j < i. ?ts ! j \<le> ?ts ! i) [0..<length ?ts]))"
    using video_timestamps [OF sample_stream_inv(3) h] unfolding Let_def by blast
  have "pts_of 100 100 = 0" "pts_of 100 140 = 40" by (simp_all add: pts_of_def)
  with r show ?thesis unfolding l f by simp
qed

theorem pcm_fifo_witness:
  "\<exists>s' outs. audio_run [(\<lparr>au_convert = 0, au_encode = 0, au_packet = None, au_write = 0\<rparr>, replicate 640 0, 5)]
    sample_stream = Inr (s', outs) \<and> pcm_inv s' \<and>
    pcm_pending sample_stream @ replicate 640 0 = concat (pcm_frames outs) @ pcm_pending s'"
  using pcm_fifo [of sample_stream "[(\<lparr>au_convert = 0, au_encode = 0, au_packet = None, au_write = 0\<rparr>, replicate 640 0, 5)]"]
  by (auto simp: sample_stream_inv)

end
