(* ===== verification/Rtmp_Client.thy ===== *)
theory Rtmp_Client
  imports Rtmp_Stream Audio_Codec Forward_Server
begin

text \<open>
  The RTMP side of the web server: one client per watched vehicle (RtmpClient.cpp), which puts frames
  together from packets, decodes audio, or makes up silence for a vehicle without audio, and writes to
  its stream; the table of clients (RtmpMgr.cpp); and the worker thread's handling of one task
  (RtmpThread.cpp). libav's answers to a task are an argument of it.
\<close>

section \<open>Clients\<close>

text \<open>\<open>rc_uPT\<close> is the member \<open>m_uPT\<close> of the client's audio decoder; the fake audio buffer holds zeros.\<close>

record rtmp_client =
  rc_device_id :: device_id_t
  rc_rtmp_url_prefix :: cstring
  rc_rtmp_url :: cstring
  rc_rtmp_stream :: rtmp_stream
  rc_video_buffer :: "byte list"
  rc_audio_buffer :: "byte list"
  rc_audio_decoder :: ccodec
  rc_uPT :: byte
  rc_bCarHaveAudio :: bool
  rc_uStartVideoTime :: u64
  rc_uLastVideoTime :: u64
  rc_uMaxFakeAudioBufferLen :: u64
  rc_uSendAudioPktCount :: u64

definition RtmpClient_new :: "coder_ctx \<Rightarrow> device_id_t \<Rightarrow> cstring \<Rightarrow> rtmp_client" where
  "RtmpClient_new left device_id prefix = \<lparr>rc_device_id = device_id, rc_rtmp_url_prefix = prefix,
     rc_rtmp_url = [], rc_rtmp_stream = RtmpStream_new, rc_video_buffer = [], rc_audio_buffer = [],
     rc_audio_decoder = CCodec_new left, rc_uPT = 0, rc_bCarHaveAudio = False, rc_uStartVideoTime = 0,
     rc_uLastVideoTime = 0, rc_uMaxFakeAudioBufferLen = 2048, rc_uSendAudioPktCount = 0\<rparr>"

text \<open>libav's answers to one packet: opening the stream, at most one video and one audio write, G.726.\<close>

record rtmp_env =
  re_init :: init_env
  re_write :: write_env
  re_g726 :: av_decoder

definition TryToInitRtmpStream :: "rtmp_env \<Rightarrow> rtmp_client \<Rightarrow> fault + (int \<times> rtmp_client)" where
  "TryToInitRtmpStream env c =
     (if rc_rtmp_url_prefix c = [] then Inr (- 1, c)
      else if \<not> RtmpStream_IsInit (rc_rtmp_stream c) then
        rbind (GenerateDeviceIdStrByDeviceId (rc_device_id c)) (\<lambda>strDeviceId.
          let c = c\<lparr>rc_rtmp_url := rc_rtmp_url_prefix c @ [47] @ strDeviceId\<rparr>;
              (ret, s) = RtmpStream_Init (re_init env) (Some (takeWhile (\<lambda>b. b \<noteq> 0) (rc_rtmp_url c))) (rc_rtmp_stream c);
              c = c\<lparr>rc_rtmp_stream := s\<rparr> in
          Inr (if ret < 0 then - 2 else 0, c))
      else Inr (0, c))"

text \<open>The data is memory; a negative length reaches \<open>memcpy\<close> as an enormous one.\<close>

definition ProcessVideoData ::
  "rtmp_env \<Rightarrow> byte list \<Rightarrow> nat \<Rightarrow> u64 \<Rightarrow> rtmp_client \<Rightarrow> fault + (int \<times> rtmp_client \<times> av_out list)" where
  "ProcessVideoData env buffer n timestamp c =
     rbind (WriteData (re_write env) AVMEDIA_TYPE_VIDEO buffer n timestamp (rc_rtmp_stream c)) (\<lambda>(ret, s, outs).
       Inr (ret, c\<lparr>rc_rtmp_stream := s\<rparr>, outs))"

definition ProcessAudioData ::
  "rtmp_env \<Rightarrow> byte list \<Rightarrow> int \<Rightarrow> u64 \<Rightarrow> rtmp_client \<Rightarrow> fault + (int \<times> rtmp_client \<times> av_out list)" where
  "ProcessAudioData env buffer n timestamp c =
     (if n < 0 then Inl OutOfBounds
      else rbind (WriteData (re_write env) AVMEDIA_TYPE_AUDIO buffer (nat n) timestamp (rc_rtmp_stream c))
             (\<lambda>(ret, s, outs). Inr (ret, c\<lparr>rc_rtmp_stream := s\<rparr>, outs)))"

text \<open>The length of the silence for a video frame, and the number of 40 ms steps it fills up to.\<close>

definition fake_audio_len :: "u64 \<Rightarrow> rtmp_client \<Rightarrow> u64 \<times> u64" where
  "fake_audio_len timestamp c =
     (if rc_uStartVideoTime c \<noteq> 0 \<and> rc_uLastVideoTime c \<noteq> 0 \<and> timestamp > rc_uLastVideoTime c then
        (let uDiff = timestamp - rc_uStartVideoTime c;
             nCount = (uDiff + 39) div 40 in
         if nCount > rc_uSendAudioPktCount c
         then (min (rc_uMaxFakeAudioBufferLen c) (640 * (nCount - rc_uSendAudioPktCount c)), nCount)
         else (0, rc_uSendAudioPktCount c))
      else (640, rc_uSendAudioPktCount c))"

definition AddFakeAudioPcm ::
  "rtmp_env \<Rightarrow> header_t \<Rightarrow> rtmp_client \<Rightarrow> fault + (int \<times> rtmp_client \<times> av_out list)" where
  "AddFakeAudioPcm env h c =
     (let timestamp = Bt8timeStamp h;
          (uAudioDataLen, nCount) = fake_audio_len timestamp c;
          c = c\<lparr>rc_uSendAudioPktCount := nCount\<rparr> in
      rbind (if uAudioDataLen > 0
             then ProcessAudioData env (replicate (unat (rc_uMaxFakeAudioBufferLen c)) 0) (uint uAudioDataLen) timestamp c
             else Inr (0, c, []))
        (\<lambda>(nRet, c, outs).
          let c = (if rc_uStartVideoTime c = 0 then c\<lparr>rc_uStartVideoTime := timestamp\<rparr> else c) in
          Inr (nRet, c\<lparr>rc_uLastVideoTime := timestamp\<rparr>, outs)))"

section \<open>Packets\<close>

definition complete_packet :: "header_t \<Rightarrow> bool" where
  "complete_packet h =
     (SubpackageHandleMark4 h = RCV_ATOMIC_PACKAGE \<or> SubpackageHandleMark4 h = RCV_LAST_PACKAGE)"

definition jt1078_audio_type :: "byte \<Rightarrow> audio_coding_type" where
  "jt1078_audio_type pt =
     (if pt = 6 then eG711A else if pt = 7 then eG711U else if pt = 8 then eG726
      else if pt = 26 then eAdpcm else eUnSupport)"

text \<open>\<open>append(m_body, WdBodyLen)\<close>: the body is memory.\<close>

definition append_body :: "byte list \<Rightarrow> jt_packet \<Rightarrow> fault + byte list" where
  "append_body buf packet =
     (let n = unat (WdBodyLen (m_header packet)) in
      if length (m_body packet) < n then Inl OutOfBounds else Inr (buf @ take n (m_body packet)))"

definition process_video ::
  "rtmp_env \<Rightarrow> jt_packet \<Rightarrow> rtmp_client \<Rightarrow> fault + (int \<times> rtmp_client \<times> av_out list)" where
  "process_video env packet c =
     (let h = m_header packet in
      rbind (append_body (rc_video_buffer c) packet) (\<lambda>buf.
        let c = c\<lparr>rc_video_buffer := buf\<rparr> in
        if \<not> complete_packet h then Inr (0, c, [])
        else
          rbind (ProcessVideoData env (buf @ [0]) (length buf) (Bt8timeStamp h) c) (\<lambda>(nRet, c, outs).
            let c = c\<lparr>rc_video_buffer := []\<rparr> in
            if nRet < 0 then Inr (- 2, c, outs)
            else if \<not> rc_bCarHaveAudio c then
              rbind (AddFakeAudioPcm env h c) (\<lambda>(_, c, outs'). Inr (nRet, c, outs @ outs'))
            else Inr (nRet, c, outs))))"

text \<open>
  The result of writing the audio is kept in a second variable \<open>nRet\<close>, declared in the inner block:
  what the function returns stays 0.
\<close>

definition process_audio ::
  "rtmp_env \<Rightarrow> jt_packet \<Rightarrow> rtmp_client \<Rightarrow> fault + (int \<times> rtmp_client \<times> av_out list)" where
  "process_audio env packet c =
     (let h = m_header packet; c = c\<lparr>rc_bCarHaveAudio := True\<rparr> in
      rbind (append_body (rc_audio_buffer c) packet) (\<lambda>buf.
        let c = c\<lparr>rc_audio_buffer := buf\<rparr>; audio_type = jt1078_audio_type (PT7 h) in
        if audio_type = eUnSupport then Inr (- 3, c, [])
        else if \<not> complete_packet h then Inr (0, c, [])
        else
          rbind (DecodeAudio (re_g726 env) (buf @ [0]) (length buf) audio_type (rc_audio_decoder c)) (\<lambda>(dec, pcm).
            let c = c\<lparr>rc_audio_decoder := dec, rc_uPT := PT7 h\<rparr> in
            rbind (ProcessAudioData env pcm (cc_result_len dec) (Bt8timeStamp h) c) (\<lambda>(inner, c, outs).
              Inr (0, c\<lparr>rc_audio_buffer := []\<rparr>, outs)))))"

definition ProcessJt1078Packet ::
  "rtmp_env \<Rightarrow> jt_packet \<Rightarrow> rtmp_client \<Rightarrow> fault + (int \<times> rtmp_client \<times> av_out list)" where
  "ProcessJt1078Packet env packet c =
     rbind (TryToInitRtmpStream env c) (\<lambda>(ret, c).
       let t = DataType4 (m_header packet) in
       if ret < 0 then Inr (- 1, c, [])
       else if t = DATA_TYPE_VIDEO_I \<or> t = DATA_TYPE_VIDEO_P \<or> t = DATA_TYPE_VIDEO_B then process_video env packet c
       else if t = DATA_TYPE_AUDIO then process_audio env packet c
       else if t = DATA_TYPE_ROUTE then Inr (0, c, [])
       else Inr (- 5, c, []))"

section \<open>The table of clients\<close>

type_synonym rtmp_mgr = "(device_id_t, rtmp_client) smap"

definition RtmpMgr_Size :: "rtmp_mgr \<Rightarrow> nat" where
  "RtmpMgr_Size m = length m"

definition GetRtmpClient :: "device_id_t \<Rightarrow> rtmp_mgr \<Rightarrow> rtmp_client option" where
  "GetRtmpClient device_id m = sm_find m device_id"

definition CreateRtmpClient_id :: "coder_ctx \<Rightarrow> device_id_t \<Rightarrow> cstring \<Rightarrow> rtmp_mgr \<Rightarrow> rtmp_mgr" where
  "CreateRtmpClient_id left device_id prefix m =
     (case sm_find m device_id of
        Some _ \<Rightarrow> m
      | None \<Rightarrow> sm_set device_id (RtmpClient_new left device_id prefix) m)"

definition CreateRtmpClient :: "coder_ctx \<Rightarrow> cstring \<Rightarrow> cstring \<Rightarrow> rtmp_mgr \<Rightarrow> rtmp_mgr" where
  "CreateRtmpClient left pDeviceId prefix m = CreateRtmpClient_id left (GenerateDeviceIdByBuffer pDeviceId) prefix m"

definition ReleaseRtmpClient_id :: "device_id_t \<Rightarrow> rtmp_mgr \<Rightarrow> rtmp_mgr" where
  "ReleaseRtmpClient_id device_id m = sm_erase device_id m"

definition ReleaseRtmpClient :: "cstring \<Rightarrow> rtmp_mgr \<Rightarrow> rtmp_mgr" where
  "ReleaseRtmpClient pDeviceId m = ReleaseRtmpClient_id (GenerateDeviceIdByBuffer pDeviceId) m"

section \<open>The worker thread's task\<close>

record rtmp_thread =
  rt_mgr :: rtmp_mgr
  rt_realtime :: bool
  rt_url_prefix :: cstring

text \<open>The two prefixes of the configuration, of which the thread keeps one.\<close>

definition RtmpThread_new :: "cstring \<Rightarrow> cstring \<Rightarrow> bool \<Rightarrow> rtmp_thread" where
  "RtmpThread_new realtime_prefix history_prefix realtime =
     \<lparr>rt_mgr = [], rt_realtime = realtime, rt_url_prefix = (if realtime then realtime_prefix else history_prefix)\<rparr>"

definition PostPacket_copy :: "ipc_packet \<Rightarrow> packet_move" where
  "PostPacket_copy packet = packet_move_of_packet packet"

definition PostPacket_move :: "packet_move \<Rightarrow> packet_move" where
  "PostPacket_move packet = fst (MoveFrom packet)"

definition CreateTerminateTask :: packet_move where
  "CreateTerminateTask = packet_move_new\<lparr>pm_type := IPC_PKT_OTHER_THREAD_STOP\<rparr>"

definition IsTerminateTask :: "packet_move \<Rightarrow> bool" where
  "IsTerminateTask task = (pm_type task AND IPC_PKT_OTHER_MASK = IPC_PKT_OTHER_THREAD_STOP)"

text \<open>\<open>std::string(m_data, m_uDataLength)\<close>: with length 0 the pointer is not followed.\<close>

definition task_string :: "packet_move \<Rightarrow> fault + cstring" where
  "task_string task =
     (let n = unat (pm_data_length task) in
      if n = 0 then Inr []
      else (case pm_data task of
              Block bs \<Rightarrow> if length bs < n then Inl OutOfBounds else Inr (take n bs)
            | Null \<Rightarrow> Inl NullDeref
            | Garbage \<Rightarrow> Inl UseAfterFree))"

definition read_task :: "nat \<Rightarrow> packet_move \<Rightarrow> fault + byte list" where
  "read_task n task =
     (case pm_data task of
        Block bs \<Rightarrow> if length bs < n then Inl OutOfBounds else Inr bs
      | Null \<Rightarrow> Inl NullDeref
      | Garbage \<Rightarrow> Inl UseAfterFree)"

text \<open>
  The packet's parts are read where they lie in the task: 8 bytes of identifier, the 30 bytes of the
  packed header, the body. \<open>left\<close> is what the allocator leaves in a new client's codec.
\<close>

definition HandlerTask ::
  "coder_ctx \<Rightarrow> rtmp_env \<Rightarrow> packet_move \<Rightarrow> rtmp_thread \<Rightarrow> fault + (rtmp_thread \<times> (device_id_t \<times> av_out) list)" where
  "HandlerTask left env task th =
     (let uIpcPktType = pm_type task AND IPC_PKT_TYPE_MASK in
      if uIpcPktType = IPC_PKT_TYPE_SUBSCRIBE_DEVICE_ID then
        rbind (task_string task) (\<lambda>strDeviceId.
          Inr (th\<lparr>rt_mgr := CreateRtmpClient left strDeviceId (rt_url_prefix th) (rt_mgr th)\<rparr>, []))
      else if uIpcPktType = IPC_PKT_TYPE_UNSUBSCRIBE_DEVICE_ID then
        rbind (task_string task) (\<lambda>strDeviceId.
          Inr (th\<lparr>rt_mgr := ReleaseRtmpClient strDeviceId (rt_mgr th)\<rparr>, []))
      else if uIpcPktType = IPC_PKT_TYPE_JT1078_PACKET then
        rbind (read_task 8 task) (\<lambda>p.
          let device_id = of_nat (le_nat (take 8 p)) in
          case GetRtmpClient device_id (rt_mgr th) of
            None \<Rightarrow> Inr (th, [])
          | Some client \<Rightarrow>
              rbind (read_task (8 + sizeof_header_t) task) (\<lambda>p.
                let packet = \<lparr>m_header = header_of_mem (take sizeof_header_t (drop 8 p)),
                              m_body = drop (8 + sizeof_header_t) p\<rparr> in
                rbind (ProcessJt1078Packet env packet client) (\<lambda>(ret, client, outs).
                  let mgr = sm_set device_id client (rt_mgr th) in
                  Inr (th\<lparr>rt_mgr := (if ret < 0 then ReleaseRtmpClient_id device_id mgr else mgr)\<rparr>,
                       map (Pair device_id) outs))))
      else Inr (th, []))"

section \<open>Lemmas on the stream\<close>

fun video_out :: "av_out \<Rightarrow> bool" where
  "video_out (VideoPacket ts d k bs) = True"
| "video_out out = False"

lemma write_video_result:
  obtains k s1 where
    "write_video_frame wr (f @ [0]) (length f) t s =
      (if rs_ts_video_last s > t then Inr (0, s1, [])
       else Inr (if wr < 0 then - 1 else 0, s1,
         [VideoPacket (fst (GetAVPts (rs_ts_video_last s) (rs_ts_video_offset s) t)) (t - rs_ts_video_last s) k f]))"
    "rs_bConnectRtmpSucc s1 = rs_bConnectRtmpSucc s" "rs_iRawBuffSize s1 = rs_iRawBuffSize s"
    "pcm_inv s1 = pcm_inv s"
proof -
  obtain k where k: "isIdrFrame1 (f @ [0]) (length f) = Inr k" using isIdrFrame1_string by blast
  obtain ts st off where g: "GetAVPts (rs_ts_video_last s) (rs_ts_video_offset s) t = (ts, st, off)"
    by (metis prod_cases3)
  have d: "(if rs_ts_video_last s < t then t - rs_ts_video_last s else 0) = t - rs_ts_video_last s"
    if "\<not> rs_ts_video_last s > t"
    using that by auto
  show ?thesis
    by (rule that [of "s\<lparr>rs_ptsInc := rs_ptsInc s + 1, rs_ts_video_last := st, rs_ts_video_offset := off\<rparr>" k])
       (use d in \<open>auto simp: write_video_frame_def k g Let_def res_simps pcm_inv_def\<close>)
qed

lemma write_audio_rest:
  assumes "write_audio_frame au data t s = Inr (ret, s', outs)"
  shows "rs_bConnectRtmpSucc s' = rs_bConnectRtmpSucc s \<and> rs_ts_video_last s' = rs_ts_video_last s \<and>
    rs_ts_video_offset s' = rs_ts_video_offset s \<and> filter video_out outs = []"
  using assms
  by (auto simp: write_audio_frame_def write_encoded_def Let_def split: if_splits option.splits prod.splits)

section \<open>A client without faults\<close>

text \<open>
  The documented answers of libav: the container has an audio stream, and a frame of the AAC encoder
  for one channel of 16-bit samples takes 2048 bytes.
\<close>

definition env_ok :: "rtmp_env \<Rightarrow> bool" where
  "env_ok env \<longleftrightarrow> ie_has_audio (re_init env) \<and> oe_raw_size (ie_open_audio (re_init env)) = 2048"

definition client_ok :: "rtmp_client \<Rightarrow> bool" where
  "client_ok c \<longleftrightarrow>
     (if RtmpStream_IsInit (rc_rtmp_stream c)
      then pcm_inv (rc_rtmp_stream c) \<and> rs_iRawBuffSize (rc_rtmp_stream c) = 2048
      else length (rs_pcm (rc_rtmp_stream c)) = PCM_BUF \<and> rs_pcmencodesize (rc_rtmp_stream c) = 0 \<and>
        \<not> rs_have_audio (rc_rtmp_stream c)) \<and>
     rc_uMaxFakeAudioBufferLen c = 2048 \<and> rc_device_id c < 0x1000000000000000"

lemma client_new_ok: "device_id < 0x1000000000000000 \<Longrightarrow> client_ok (RtmpClient_new left device_id prefix)"
  by (simp add: client_ok_def RtmpClient_new_def RtmpStream_new_def RtmpStream_IsInit_def)

lemma Init_ok:
  assumes "env_ok env" "RtmpStream_Init (re_init env) (Some url) s = (ret, s')"
    "length (rs_pcm s) = PCM_BUF" "rs_pcmencodesize s = 0" "\<not> rs_bConnectRtmpSucc s"
  shows "if rs_bConnectRtmpSucc s' then pcm_inv s' \<and> rs_iRawBuffSize s' = 2048 else ret < 0"
  using assms
  by (auto simp: env_ok_def RtmpStream_Init_def Init_open_def open_audio_def pcm_inv_def Let_def
      split: if_splits prod.splits)

lemma device_str_defined: "d < 0x1000000000000000 \<Longrightarrow> \<exists>str. GenerateDeviceIdStrByDeviceId d = Inr str"
proof -
  assume "d < 0x1000000000000000"
  then have "unat d < 16 ^ 15" by (simp add: word_less_nat_alt)
  then show ?thesis by (auto simp: GenerateDeviceIdStrByDeviceId_def Let_def)
qed

lemma TryToInit_ok:
  assumes "client_ok c" "env_ok env"
  obtains ret c' where "TryToInitRtmpStream env c = Inr (ret, c')" "ret \<ge> 0 \<longrightarrow> client_ok c' \<and> RtmpStream_IsInit (rc_rtmp_stream c')"
    "rc_video_buffer c' = rc_video_buffer c" "rc_audio_buffer c' = rc_audio_buffer c"
    "rc_device_id c' = rc_device_id c" "rc_rtmp_url_prefix c' = rc_rtmp_url_prefix c"
proof (cases "rc_rtmp_url_prefix c = [] \<or> RtmpStream_IsInit (rc_rtmp_stream c)")
  case True
  show ?thesis by (rule that [of "if rc_rtmp_url_prefix c = [] then - 1 else 0" c])
    (use True assms in \<open>auto simp: TryToInitRtmpStream_def\<close>)
next
  case False
  obtain str where str: "GenerateDeviceIdStrByDeviceId (rc_device_id c) = Inr str"
    using device_str_defined assms(1) by (auto simp: client_ok_def)
  let ?url = "rc_rtmp_url_prefix c @ 47 # str"
  obtain ret s' where i: "RtmpStream_Init (re_init env) (Some (takeWhile (\<lambda>b. b \<noteq> 0) ?url)) (rc_rtmp_stream c) = (ret, s')"
    by fastforce
  have ok: "if rs_bConnectRtmpSucc s' then pcm_inv s' \<and> rs_iRawBuffSize s' = 2048 else ret < 0"
    using Init_ok [OF assms(2) i] False assms(1) by (auto simp: client_ok_def RtmpStream_IsInit_def)
  show ?thesis
    by (rule that [of "if ret < 0 then - 2 else 0" "c\<lparr>rc_rtmp_url := ?url, rc_rtmp_stream := s'\<rparr>"])
       (use False str i ok assms(1) in
         \<open>auto simp: TryToInitRtmpStream_def client_ok_def RtmpStream_IsInit_def res_simps Let_def split: if_splits\<close>)
qed

text \<open>An opened client between two packets.\<close>

definition opened :: "rtmp_client \<Rightarrow> bool" where
  "opened c \<longleftrightarrow> client_ok c \<and> RtmpStream_IsInit (rc_rtmp_stream c)"

lemma openedD: "opened c \<Longrightarrow> pcm_inv (rc_rtmp_stream c) \<and> rs_iRawBuffSize (rc_rtmp_stream c) = 2048 \<and>
    rc_uMaxFakeAudioBufferLen c = 2048 \<and> rs_bConnectRtmpSucc (rc_rtmp_stream c)"
  by (simp add: opened_def client_ok_def RtmpStream_IsInit_def)

lemma opened_stream:
  "opened c \<Longrightarrow> pcm_inv s \<Longrightarrow> rs_iRawBuffSize s = 2048 \<Longrightarrow> rs_bConnectRtmpSucc s \<Longrightarrow>
    opened (c\<lparr>rc_rtmp_stream := s\<rparr>)"
  by (simp add: opened_def client_ok_def RtmpStream_IsInit_def)

lemma opened_update [simp]:
  "opened (c\<lparr>rc_video_buffer := b\<rparr>) = opened c" "opened (c\<lparr>rc_audio_buffer := b\<rparr>) = opened c"
  "opened (c\<lparr>rc_bCarHaveAudio := x\<rparr>) = opened c" "opened (c\<lparr>rc_uStartVideoTime := t\<rparr>) = opened c"
  "opened (c\<lparr>rc_uLastVideoTime := t\<rparr>) = opened c" "opened (c\<lparr>rc_uSendAudioPktCount := t\<rparr>) = opened c"
  "opened (c\<lparr>rc_audio_decoder := d\<rparr>) = opened c" "opened (c\<lparr>rc_uPT := p\<rparr>) = opened c"
  by (simp_all add: opened_def client_ok_def)

lemma ProcessAudioData_ok:
  assumes "opened c" "0 \<le> n" "nat n \<le> length buf" "n \<le> 2048"
  obtains ret s outs where "ProcessAudioData env buf n t c = Inr (ret, c\<lparr>rc_rtmp_stream := s\<rparr>, outs)"
    "opened (c\<lparr>rc_rtmp_stream := s\<rparr>)" "filter video_out outs = []"
    "\<forall>f \<in> set (pcm_frames outs). length f = 2048"
proof -
  have l: "length (take (nat n) buf) \<le> rs_iRawBuffSize (rc_rtmp_stream c)"
    using assms openedD [OF assms(1)] by simp
  obtain ret s outs where w: "write_audio_frame (we_audio (re_write env)) (take (nat n) buf) t (rc_rtmp_stream c) = Inr (ret, s, outs)"
    "pcm_inv s" "rs_iRawBuffSize s = rs_iRawBuffSize (rc_rtmp_stream c)"
    "\<forall>f \<in> set (pcm_frames outs). length f = rs_iRawBuffSize (rc_rtmp_stream c)"
    using write_audio_inv [OF _ l, of "we_audio (re_write env)" t] openedD [OF assms(1)] by metis
  show ?thesis
    by (rule that [of ret s outs])
       (use w assms write_audio_rest [OF w(1)] openedD [OF assms(1)] in
         \<open>simp_all add: ProcessAudioData_def WriteData_def res_simps opened_stream\<close>)
qed

lemma fake_audio_len_bound: "rc_uMaxFakeAudioBufferLen c = 2048 \<Longrightarrow> fake_audio_len t c = (n, k) \<Longrightarrow> uint n \<le> 2048"
proof -
  assume a: "rc_uMaxFakeAudioBufferLen c = 2048" "fake_audio_len t c = (n, k)"
  then have "n \<le> 2048" by (auto simp: fake_audio_len_def Let_def split: if_splits)
  then show ?thesis by (simp add: word_le_def)
qed

lemma AddFakeAudioPcm_ok:
  assumes "opened c"
  obtains ret c' outs where "AddFakeAudioPcm env h c = Inr (ret, c', outs)" "opened c'" "filter video_out outs = []"
    "rc_video_buffer c' = rc_video_buffer c" "rc_audio_buffer c' = rc_audio_buffer c"
    "rc_audio_decoder c' = rc_audio_decoder c" "rc_device_id c' = rc_device_id c"
    "\<forall>f \<in> set (pcm_frames outs). length f = 2048"
proof -
  obtain n k where f: "fake_audio_len (Bt8timeStamp h) c = (n, k)" by fastforce
  note n = fake_audio_len_bound [OF _ f]
  have m: "rc_uMaxFakeAudioBufferLen c = 2048" using openedD [OF assms] by simp
  let ?c = "c\<lparr>rc_uSendAudioPktCount := k\<rparr>"
  have o: "opened ?c" using assms by simp
  show ?thesis
  proof (cases "n > 0")
    case True
    have un: "0 \<le> uint n" "nat (uint n) \<le> length (replicate 2048 (0 :: byte))" "uint n \<le> 2048"
      using n [OF m] by (simp_all only: length_replicate nat_le_iff) simp_all
    obtain ret s outs where p: "ProcessAudioData env (replicate 2048 0) (uint n) (Bt8timeStamp h) ?c =
        Inr (ret, ?c\<lparr>rc_rtmp_stream := s\<rparr>, outs)" "opened (?c\<lparr>rc_rtmp_stream := s\<rparr>)" "filter video_out outs = []"
      "\<forall>f \<in> set (pcm_frames outs). length f = 2048"
      by (rule ProcessAudioData_ok [OF o un])
    let ?d = "?c\<lparr>rc_rtmp_stream := s\<rparr>"
    show ?thesis
      by (rule that [of ret "(if rc_uStartVideoTime c = 0 then ?d\<lparr>rc_uStartVideoTime := Bt8timeStamp h\<rparr> else ?d)
            \<lparr>rc_uLastVideoTime := Bt8timeStamp h\<rparr>" outs])
         (use p True f m in \<open>simp_all add: AddFakeAudioPcm_def Let_def res_simps\<close>)
  next
    case False
    show ?thesis
      by (rule that [of 0 "(if rc_uStartVideoTime c = 0 then ?c\<lparr>rc_uStartVideoTime := Bt8timeStamp h\<rparr> else ?c)
            \<lparr>rc_uLastVideoTime := Bt8timeStamp h\<rparr>" "[]"])
         (use False f assms in \<open>simp_all add: AddFakeAudioPcm_def Let_def res_simps\<close>)
  qed
qed

section \<open>Lemmas on packets\<close>

definition body_of :: "jt_packet \<Rightarrow> byte list" where
  "body_of p = take (unat (WdBodyLen (m_header p))) (m_body p)"

definition body_ok :: "jt_packet \<Rightarrow> bool" where
  "body_ok p \<longleftrightarrow> unat (WdBodyLen (m_header p)) \<le> length (m_body p)"

lemma append_body_ok: "body_ok p \<Longrightarrow> append_body buf p = Inr (buf @ body_of p)"
  by (simp add: append_body_def body_ok_def body_of_def)

text \<open>What a completed frame of the given bytes becomes.\<close>

definition video_packets :: "rtmp_stream \<Rightarrow> u64 \<Rightarrow> byte list \<Rightarrow> av_out list" where
  "video_packets s t f =
     (if rs_ts_video_last s > t then []
      else [VideoPacket (fst (GetAVPts (rs_ts_video_last s) (rs_ts_video_offset s) t)) (t - rs_ts_video_last s)
              (isIdrFrame1 (f @ [0]) (length f) = Inr True) f])"

lemma write_video_key:
  assumes "write_video_frame wr (f @ [0]) (length f) t s = Inr (ret, s', outs)"
  shows "outs = video_packets s t f \<and> ret = (if outs \<noteq> [] \<and> wr < 0 then - 1 else 0)"
proof -
  obtain k where k: "isIdrFrame1 (f @ [0]) (length f) = Inr k" using isIdrFrame1_string by blast
  with assms show ?thesis
    by (auto simp: write_video_frame_def video_packets_def Let_def res_simps split: if_splits prod.splits)
qed

lemma process_video_ok:
  assumes "opened c" "body_ok p"
  defines "f \<equiv> rc_video_buffer c @ body_of p"
  obtains ret c' outs where "process_video env p c = Inr (ret, c', outs)" "opened c'"
    "filter video_out outs = (if complete_packet (m_header p)
       then video_packets (rc_rtmp_stream c) (Bt8timeStamp (m_header p)) f else [])"
    "ret = (if filter video_out outs \<noteq> [] \<and> we_video (re_write env) < 0 then - 2 else 0)"
    "rc_video_buffer c' = (if complete_packet (m_header p) then [] else f)"
    "rc_audio_buffer c' = rc_audio_buffer c" "rc_device_id c' = rc_device_id c"
    "\<not> complete_packet (m_header p) \<longrightarrow> rc_rtmp_stream c' = rc_rtmp_stream c"
    "\<forall>f \<in> set (pcm_frames outs). length f = 2048"
proof (cases "complete_packet (m_header p)")
  case False
  show ?thesis
    by (rule that [of 0 "c\<lparr>rc_video_buffer := f\<rparr>" "[]"])
       (use False assms in \<open>simp_all add: process_video_def append_body_ok res_simps\<close>)
next
  case True
  let ?t = "Bt8timeStamp (m_header p)" and ?s = "rc_rtmp_stream c" and ?wr = "we_video (re_write env)"
  obtain k s1 where wr: "write_video_frame ?wr (f @ [0]) (length f) ?t ?s =
      (if rs_ts_video_last ?s > ?t then Inr (0, s1, [])
       else Inr (if ?wr < 0 then - 1 else 0, s1,
         [VideoPacket (fst (GetAVPts (rs_ts_video_last ?s) (rs_ts_video_offset ?s) ?t)) (?t - rs_ts_video_last ?s) k f]))"
    and s1: "rs_bConnectRtmpSucc s1 = rs_bConnectRtmpSucc ?s" "rs_iRawBuffSize s1 = rs_iRawBuffSize ?s" "pcm_inv s1 = pcm_inv ?s"
    by (rule write_video_result)
  then obtain r o1 where w: "write_video_frame ?wr (f @ [0]) (length f) ?t ?s = Inr (r, s1, o1)"
    by (cases "rs_ts_video_last ?s > ?t") auto
  have o1: "o1 = video_packets ?s ?t f" "r = (if o1 \<noteq> [] \<and> ?wr < 0 then - 1 else 0)"
    "filter video_out o1 = o1" "pcm_frames o1 = []"
    using write_video_key [OF w] by (simp_all add: video_packets_def)
  let ?c1 = "c\<lparr>rc_rtmp_stream := s1, rc_video_buffer := []\<rparr>"
  have c1: "opened ?c1" using opened_stream [OF assms(1), of s1] openedD [OF assms(1)] s1 by simp
  have pv: "ProcessVideoData env (f @ [0]) (length f) ?t (c\<lparr>rc_video_buffer := f\<rparr>) =
      Inr (r, c\<lparr>rc_video_buffer := f, rc_rtmp_stream := s1\<rparr>, o1)"
    using w by (simp add: ProcessVideoData_def WriteData_def res_simps)
  show ?thesis
  proof (cases "r < 0 \<or> rc_bCarHaveAudio c")
    case True
    show ?thesis
      by (rule that [of "if r < 0 then - 2 else r" ?c1 o1])
         (use True \<open>complete_packet (m_header p)\<close> pv o1 c1 assms(2) in
           \<open>auto simp: process_video_def append_body_ok f_def [symmetric] res_simps Let_def split: if_splits\<close>)
  next
    case False
    obtain ret c' o2 where a: "AddFakeAudioPcm env (m_header p) ?c1 = Inr (ret, c', o2)" "opened c'"
      "filter video_out o2 = []" "rc_video_buffer c' = rc_video_buffer ?c1" "rc_audio_buffer c' = rc_audio_buffer ?c1"
      "rc_audio_decoder c' = rc_audio_decoder ?c1" "rc_device_id c' = rc_device_id ?c1"
      "\<forall>f \<in> set (pcm_frames o2). length f = 2048"
      by (rule AddFakeAudioPcm_ok [OF c1])
    show ?thesis
      by (rule that [of r c' "o1 @ o2"])
         (use False \<open>complete_packet (m_header p)\<close> pv o1 a assms(2) in
           \<open>auto simp: process_video_def append_body_ok f_def [symmetric] res_simps Let_def split: if_splits\<close>)
  qed
qed

text \<open>G.711 audio in packets of its own.\<close>

definition plain_audio :: "jt_packet \<Rightarrow> bool" where
  "plain_audio p \<longleftrightarrow> PT7 (m_header p) \<in> {6, 7} \<and> complete_packet (m_header p) \<and> length (body_of p) \<le> 1024"

lemma process_audio_ok:
  assumes "opened c" "body_ok p" "plain_audio p" "rc_audio_buffer c = []"
  obtains c' outs where "process_audio env p c = Inr (0, c', outs)" "opened c'" "filter video_out outs = []"
    "rc_video_buffer c' = rc_video_buffer c" "rc_audio_buffer c' = []" "rc_device_id c' = rc_device_id c"
    "\<forall>f \<in> set (pcm_frames outs). length f = 2048"
proof -
  let ?b = "body_of p" and ?ty = "jt1078_audio_type (PT7 (m_header p))" and ?t = "Bt8timeStamp (m_header p)"
  obtain m k d where h: "strip_header (?b @ [0]) (length ?b) (rc_audio_decoder c) = (m, k, d)" by (metis prod_cases3)
  have k: "nat k \<le> 1024" "nat k \<le> length m"
    using strip_header_len [OF h] assms(3) by (simp_all add: plain_audio_def) linarith
  have ty: "?ty = eG711A \<or> ?ty = eG711U" using assms(3) by (auto simp: plain_audio_def jt1078_audio_type_def)
  have "\<exists>dec pcm. DecodeAudio (re_g726 env) (?b @ [0]) (length ?b) ?ty (rc_audio_decoder c) = Inr (dec, pcm) \<and>
      cc_result_len dec = 2 * int (nat k) \<and> length pcm = 2 * nat k"
    using ty g711_decode_result [OF h, of "re_g726 env"] k
    by (auto simp: written_def OUT_BUF_def length_pcm_bytes simp del: int_nat_eq)
  then obtain dec pcm where d: "DecodeAudio (re_g726 env) (?b @ [0]) (length ?b) ?ty (rc_audio_decoder c) = Inr (dec, pcm)"
    "cc_result_len dec = 2 * int (nat k)" "length pcm = 2 * nat k" by blast
  let ?c1 = "c\<lparr>rc_bCarHaveAudio := True, rc_audio_buffer := ?b, rc_audio_decoder := dec, rc_uPT := PT7 (m_header p)\<rparr>"
  have c1: "opened ?c1" using assms(1) by simp
  have n: "0 \<le> cc_result_len dec" "nat (cc_result_len dec) \<le> length pcm" "cc_result_len dec \<le> 2048"
    unfolding d(2,3) using k(1) by (simp_all del: int_nat_eq add: nat_mult_distrib)
  obtain ret s outs where a: "ProcessAudioData env pcm (cc_result_len dec) ?t ?c1 = Inr (ret, ?c1\<lparr>rc_rtmp_stream := s\<rparr>, outs)"
    "opened (?c1\<lparr>rc_rtmp_stream := s\<rparr>)" "filter video_out outs = []" "\<forall>f \<in> set (pcm_frames outs). length f = 2048"
    by (rule ProcessAudioData_ok [OF c1 n])
  have o: "opened (?c1\<lparr>rc_rtmp_stream := s, rc_audio_buffer := []\<rparr>)" using a(2) by (simp only: opened_update)
  show ?thesis
    by (rule that [of "?c1\<lparr>rc_rtmp_stream := s, rc_audio_buffer := []\<rparr>" outs])
       (use a(1,3,4) o d ty assms in
         \<open>auto simp: process_audio_def append_body_ok plain_audio_def res_simps Let_def simp del: opened_update\<close>)
qed

text \<open>Packets of an opened client with a url prefix.\<close>

lemma ProcessJt1078Packet_opened:
  assumes "RtmpStream_IsInit (rc_rtmp_stream c)" "rc_rtmp_url_prefix c \<noteq> []"
  shows "ProcessJt1078Packet env p c =
    (if is_video (m_header p) then process_video env p c
     else if DataType4 (m_header p) = DATA_TYPE_AUDIO then process_audio env p c
     else if DataType4 (m_header p) = DATA_TYPE_ROUTE then Inr (0, c, [])
     else Inr (- 5, c, []))"
  using assms by (simp add: ProcessJt1078Packet_def TryToInitRtmpStream_def is_video_def res_simps Let_def)

fun client_run ::
  "(rtmp_env \<times> jt_packet) list \<Rightarrow> rtmp_client \<Rightarrow> fault + (int list \<times> rtmp_client \<times> av_out list)" where
  "client_run [] c = Inr ([], c, [])"
| "client_run ((env, p) # eps) c =
     rbind (ProcessJt1078Packet env p c) (\<lambda>(ret, c, out).
       rbind (client_run eps c) (\<lambda>(rets, c, outs). Inr (ret # rets, c, out @ outs)))"

lemma client_run_fragments:
  assumes "opened c" "rc_rtmp_url_prefix c \<noteq> []"
    "\<forall>(env, p) \<in> set eps. is_video (m_header p) \<and> body_ok p \<and> \<not> complete_packet (m_header p)"
  shows "client_run (eps @ rest) c =
    rbind (client_run rest (c\<lparr>rc_video_buffer := rc_video_buffer c @ concat (map (body_of \<circ> snd) eps)\<rparr>))
      (\<lambda>(rets, c, outs). Inr (replicate (length eps) 0 @ rets, c, outs))"
  using assms
proof (induction eps arbitrary: c)
  case Nil
  then show ?case by (cases "client_run rest c") auto
next
  case (Cons e eps)
  obtain env p where e: "e = (env, p)" by (cases e)
  let ?c = "c\<lparr>rc_video_buffer := rc_video_buffer c @ body_of p\<rparr>"
  have i: "RtmpStream_IsInit (rc_rtmp_stream c)" using Cons.prems(1) by (simp add: opened_def)
  have st: "ProcessJt1078Packet env p c = Inr (0, ?c, [])"
    using Cons.prems by (simp add: ProcessJt1078Packet_opened [OF i Cons.prems(2)] e process_video_def append_body_ok res_simps)
  have ih: "client_run (eps @ rest) ?c =
    rbind (client_run rest (?c\<lparr>rc_video_buffer := rc_video_buffer ?c @ concat (map (body_of \<circ> snd) eps)\<rparr>))
      (\<lambda>(rets, c, outs). Inr (replicate (length eps) 0 @ rets, c, outs))"
    by (rule Cons.IH) (use Cons.prems in simp_all)
  show ?case
    using st ih by (cases "client_run rest (c\<lparr>rc_video_buffer := rc_video_buffer c @ body_of p @ concat (map (body_of \<circ> snd) eps)\<rparr>)")
      (auto simp: e res_simps comp_def)
qed

section \<open>Properties of a client\<close>

text \<open>
  C26. A frame that arrives in fragments is put together: a client whose stream is open and has an address
  and which gets the fragments of a video frame, their bodies as long as announced and the last of them
  marked as last, or one atomic packet, writes exactly
  the frame made of their bodies in order behind what it had already gathered, once, at the stamp of
  the last fragment (or nothing if the stream is already past that stamp), and starts the next frame
  empty. No step faults, and the silence it may add reaches the encoder in frames of 2048 bytes.
\<close>

theorem frame_reassembly:
  assumes "opened c" "rc_rtmp_url_prefix c \<noteq> []"
    "\<forall>(env, p) \<in> set eps. is_video (m_header p) \<and> body_ok p \<and> \<not> complete_packet (m_header p)"
    "is_video (m_header q) \<and> body_ok q \<and> complete_packet (m_header q)"
  shows "\<exists>rets c' outs. client_run (eps @ [(env, q)]) c = Inr (rets, c', outs) \<and> opened c' \<and> rc_video_buffer c' = [] \<and>
    filter video_out outs = video_packets (rc_rtmp_stream c) (Bt8timeStamp (m_header q))
      (rc_video_buffer c @ concat (map (body_of \<circ> snd) eps) @ body_of q) \<and>
    (\<forall>f \<in> set (pcm_frames outs). length f = 2048)"
proof -
  let ?c = "c\<lparr>rc_video_buffer := rc_video_buffer c @ concat (map (body_of \<circ> snd) eps)\<rparr>"
  have o: "opened ?c" "body_ok q" using assms by simp_all
  obtain ret c' outs where v: "process_video env q ?c = Inr (ret, c', outs)" "opened c'"
    "filter video_out outs = (if complete_packet (m_header q)
       then video_packets (rc_rtmp_stream ?c) (Bt8timeStamp (m_header q)) (rc_video_buffer ?c @ body_of q) else [])"
    "ret = (if filter video_out outs \<noteq> [] \<and> we_video (re_write env) < 0 then - 2 else 0)"
    "rc_video_buffer c' = (if complete_packet (m_header q) then [] else rc_video_buffer ?c @ body_of q)"
    "rc_audio_buffer c' = rc_audio_buffer ?c" "rc_device_id c' = rc_device_id ?c"
    "\<not> complete_packet (m_header q) \<longrightarrow> rc_rtmp_stream c' = rc_rtmp_stream ?c"
    "\<forall>f \<in> set (pcm_frames outs). length f = 2048"
    by (rule process_video_ok [OF o, where env = env])
  have i: "RtmpStream_IsInit (rc_rtmp_stream ?c)" "rc_rtmp_url_prefix ?c \<noteq> []"
    using assms(1,2) by (simp_all add: opened_def)
  have "ProcessJt1078Packet env q ?c = Inr (ret, c', outs)"
    using v(1) assms(4) by (simp add: ProcessJt1078Packet_opened [OF i])
  with v assms(4) show ?thesis
    unfolding client_run_fragments [OF assms(1-3)] by (auto simp: res_simps)
qed

text \<open>
  What a client with an open stream reports, and what it does not: a packet is refused exactly
  when a completed video frame was handed to libav and could not be written, when the audio coding is
  not supported, or when the data type is unknown. A failure to encode or write audio is never
  reported, so that it never ends the stream.
\<close>

theorem process_result:
  assumes "RtmpStream_IsInit (rc_rtmp_stream c)" "rc_rtmp_url_prefix c \<noteq> []"
    "ProcessJt1078Packet env p c = Inr (ret, c', outs)"
  shows "ret =
    (if is_video (m_header p) then (if filter video_out outs \<noteq> [] \<and> we_video (re_write env) < 0 then - 2 else 0)
     else if DataType4 (m_header p) = DATA_TYPE_AUDIO then
       (if jt1078_audio_type (PT7 (m_header p)) = eUnSupport then - 3 else 0)
     else if DataType4 (m_header p) = DATA_TYPE_ROUTE then 0 else - 5)"
proof -
  note run = assms(3) [unfolded ProcessJt1078Packet_opened [OF assms(1,2)]]
  have video: "ret = (if filter video_out outs \<noteq> [] \<and> we_video (re_write env) < 0 then - 2 else 0)"
    if r: "process_video env p c = Inr (ret, c', outs)"
  proof (cases "complete_packet (m_header p)")
    case False
    with r show ?thesis by (auto simp: process_video_def rbind_eq_Inr Let_def)
  next
    case True
    with r obtain f n c1 o1 where
      "ProcessVideoData env (f @ [0]) (length f) (Bt8timeStamp (m_header p)) (c\<lparr>rc_video_buffer := f\<rparr>) = Inr (n, c1, o1)"
      and o: "if n < 0 then ret = - 2 \<and> outs = o1
        else ret = n \<and> (\<exists>x y o2 h. outs = o1 @ o2 \<and> (AddFakeAudioPcm env h x = Inr y \<and> snd (snd y) = o2 \<or> o2 = []))"
      by (auto simp: process_video_def rbind_eq_Inr Let_def split: if_splits) force+
    then obtain s1 where w: "write_video_frame (we_video (re_write env)) (f @ [0]) (length f) (Bt8timeStamp (m_header p))
        (rc_rtmp_stream c) = Inr (n, s1, o1)"
      by (auto simp: ProcessVideoData_def WriteData_def rbind_eq_Inr)
    have o1: "filter video_out o1 = o1" "n = (if o1 \<noteq> [] \<and> we_video (re_write env) < 0 then - 1 else 0)"
      using write_video_key [OF w] by (auto simp: video_packets_def)
    have fake: "filter video_out (snd (snd y)) = []" if "AddFakeAudioPcm env h x = Inr y" for h x y
      using that write_audio_rest
      by (auto simp: AddFakeAudioPcm_def ProcessAudioData_def WriteData_def rbind_eq_Inr Let_def split: if_splits prod.splits)
    from o o1 fake show ?thesis by (auto split: if_splits)
  qed
  show ?thesis
    using run video by (auto simp: process_audio_def rbind_eq_Inr Let_def split: if_splits)
qed

section \<open>The table of clients\<close>

text \<open>The packets a client takes without a fault: audio in packets of its own, coded in G.711.\<close>

definition packet_ok :: "jt_packet \<Rightarrow> bool" where
  "packet_ok p \<longleftrightarrow> body_ok p \<and> (DataType4 (m_header p) = DATA_TYPE_AUDIO \<longrightarrow> plain_audio p)"

definition resting :: "device_id_t \<Rightarrow> rtmp_client \<Rightarrow> bool" where
  "resting d c \<longleftrightarrow> client_ok c \<and> rc_audio_buffer c = [] \<and> rc_device_id c = d"

lemma ProcessJt1078Packet_ok:
  assumes "resting d c" "env_ok env" "packet_ok p"
  obtains ret c' outs where "ProcessJt1078Packet env p c = Inr (ret, c', outs)" "0 \<le> ret \<longrightarrow> resting d c'"
    "\<forall>f \<in> set (pcm_frames outs). length f = 2048"
proof -
  have c: "client_ok c" "rc_audio_buffer c = []" "rc_device_id c = d" using assms(1) by (simp_all add: resting_def)
  obtain r1 c1 where t: "TryToInitRtmpStream env c = Inr (r1, c1)" and
    t1: "r1 \<ge> 0 \<longrightarrow> client_ok c1 \<and> RtmpStream_IsInit (rc_rtmp_stream c1)" "rc_video_buffer c1 = rc_video_buffer c"
    "rc_audio_buffer c1 = rc_audio_buffer c" "rc_device_id c1 = rc_device_id c"
    "rc_rtmp_url_prefix c1 = rc_rtmp_url_prefix c"
    by (rule TryToInit_ok [OF c(1) assms(2)])
  show ?thesis
  proof (cases "r1 < 0")
    case True
    then show ?thesis
      using t by (intro that [of "- 1" c1 "[]"]) (simp_all add: ProcessJt1078Packet_def res_simps)
  next
    case False
    then have o: "opened c1" using t1(1) by (simp add: opened_def)
    have res: "resting d c'" if "opened c'" "rc_audio_buffer c' = rc_audio_buffer c1" "rc_device_id c' = rc_device_id c1" for c'
      using that t1 c by (simp add: resting_def opened_def)
    have eq: "ProcessJt1078Packet env p c =
      (if is_video (m_header p) then process_video env p c1
       else if DataType4 (m_header p) = DATA_TYPE_AUDIO then process_audio env p c1
       else if DataType4 (m_header p) = DATA_TYPE_ROUTE then Inr (0, c1, [])
       else Inr (- 5, c1, []))"
      using False t by (simp add: ProcessJt1078Packet_def is_video_def res_simps Let_def)
    consider (video) "is_video (m_header p)" | (audio) "\<not> is_video (m_header p)" "DataType4 (m_header p) = DATA_TYPE_AUDIO"
      | (other) "\<not> is_video (m_header p)" "DataType4 (m_header p) \<noteq> DATA_TYPE_AUDIO" by blast
    then show ?thesis
    proof cases
      case video
      have b: "body_ok p" using assms(3) by (simp add: packet_ok_def)
      have "\<exists>ret c' outs. process_video env p c1 = Inr (ret, c', outs) \<and> opened c' \<and>
        rc_audio_buffer c' = rc_audio_buffer c1 \<and> rc_device_id c' = rc_device_id c1 \<and>
        (\<forall>f \<in> set (pcm_frames outs). length f = 2048)"
        by (rule process_video_ok [OF o b, where env = env]) blast
      then show ?thesis using that video eq res by auto
    next
      case audio
      have b: "body_ok p" "plain_audio p" "rc_audio_buffer c1 = []"
        using assms(3) audio c(2) t1(3) by (simp_all add: packet_ok_def)
      have "\<exists>c' outs. process_audio env p c1 = Inr (0, c', outs) \<and> opened c' \<and>
        rc_audio_buffer c' = [] \<and> rc_device_id c' = rc_device_id c1 \<and>
        (\<forall>f \<in> set (pcm_frames outs). length f = 2048)"
        by (rule process_audio_ok [OF o b, where env = env]) blast
      then show ?thesis using that audio eq res b(3) by auto
    next
      case other
      show ?thesis
        by (rule that [of "if DataType4 (m_header p) = DATA_TYPE_ROUTE then 0 else - 5" c1 "[]"])
           (use other eq res [OF o] in simp_all)
    qed
  qed
qed

definition thread_ok :: "rtmp_thread \<Rightarrow> bool" where
  "thread_ok th \<longleftrightarrow> sm_wf (rt_mgr th) \<and> (\<forall>(d, c) \<in> set (rt_mgr th). resting d c)"

text \<open>A task is a request that names a vehicle, or carries one of its packets.\<close>

definition task_device :: "packet_move \<Rightarrow> device_id_t option" where
  "task_device task =
     (let t = pm_type task AND IPC_PKT_TYPE_MASK in
      if t = IPC_PKT_TYPE_SUBSCRIBE_DEVICE_ID \<or> t = IPC_PKT_TYPE_UNSUBSCRIBE_DEVICE_ID then
        (case task_string task of Inl f \<Rightarrow> None | Inr str \<Rightarrow> Some (GenerateDeviceIdByBuffer str))
      else if t = IPC_PKT_TYPE_JT1078_PACKET then
        (case read_task 38 task of Inl f \<Rightarrow> None | Inr p \<Rightarrow> Some (of_nat (le_nat (take 8 p))))
      else None)"

definition task_packet :: "packet_move \<Rightarrow> jt_packet" where
  "task_packet task = (case pm_data task of
     Block p \<Rightarrow> \<lparr>m_header = header_of_mem (take 30 (drop 8 p)), m_body = drop 38 p\<rparr>
   | _ \<Rightarrow> \<lparr>m_header = header_Clear, m_body = []\<rparr>)"

definition task_ok :: "packet_move \<Rightarrow> bool" where
  "task_ok task \<longleftrightarrow>
     (\<exists>d. task_device task = Some d \<and> d < 0x1000000000000000) \<and>
     (pm_type task AND IPC_PKT_TYPE_MASK = IPC_PKT_TYPE_JT1078_PACKET \<longrightarrow> packet_ok (task_packet task))"

lemma thread_ok_find: "thread_ok th \<Longrightarrow> sm_find (rt_mgr th) d = Some c \<Longrightarrow> resting d c"
  by (auto simp: thread_ok_def dest: sm_find_in)

lemma thread_ok_set: "thread_ok th \<Longrightarrow> resting d c \<Longrightarrow> thread_ok (th\<lparr>rt_mgr := sm_set d c (rt_mgr th)\<rparr>)"
  using set_sm_set [of d c "rt_mgr th"] by (auto simp: thread_ok_def)

lemma thread_ok_erase: "thread_ok th \<Longrightarrow> thread_ok (th\<lparr>rt_mgr := sm_erase d (rt_mgr th)\<rparr>)"
  by (auto simp: thread_ok_def sm_erase_def)

lemma task_type_distinct:
  "IPC_PKT_TYPE_SUBSCRIBE_DEVICE_ID \<noteq> IPC_PKT_TYPE_UNSUBSCRIBE_DEVICE_ID"
  "IPC_PKT_TYPE_SUBSCRIBE_DEVICE_ID \<noteq> IPC_PKT_TYPE_JT1078_PACKET"
  "IPC_PKT_TYPE_UNSUBSCRIBE_DEVICE_ID \<noteq> IPC_PKT_TYPE_JT1078_PACKET"
  by (simp_all add: ipc_consts)

text \<open>The three kinds of task.\<close>

lemma task_ok_cases:
  assumes "task_ok task"
  obtains (sub) str where "pm_type task AND IPC_PKT_TYPE_MASK = IPC_PKT_TYPE_SUBSCRIBE_DEVICE_ID"
      "task_string task = Inr str" "task_device task = Some (GenerateDeviceIdByBuffer str)"
      "GenerateDeviceIdByBuffer str < 0x1000000000000000"
  | (unsub) str where "pm_type task AND IPC_PKT_TYPE_MASK = IPC_PKT_TYPE_UNSUBSCRIBE_DEVICE_ID"
      "task_string task = Inr str" "task_device task = Some (GenerateDeviceIdByBuffer str)"
  | (packet) p where "pm_type task AND IPC_PKT_TYPE_MASK = IPC_PKT_TYPE_JT1078_PACKET"
      "read_task 38 task = Inr p" "read_task 8 task = Inr p" "task_device task = Some (of_nat (le_nat (take 8 p)))"
      "packet_ok (task_packet task)" "task_packet task = \<lparr>m_header = header_of_mem (take 30 (drop 8 p)), m_body = drop 38 p\<rparr>"
proof -
  from assms obtain d where d: "task_device task = Some d" "d < 0x1000000000000000"
    by (auto simp: task_ok_def)
  consider "pm_type task AND IPC_PKT_TYPE_MASK = IPC_PKT_TYPE_SUBSCRIBE_DEVICE_ID"
    | "pm_type task AND IPC_PKT_TYPE_MASK = IPC_PKT_TYPE_UNSUBSCRIBE_DEVICE_ID"
    | "pm_type task AND IPC_PKT_TYPE_MASK = IPC_PKT_TYPE_JT1078_PACKET"
    using d(1) by (auto simp: task_device_def Let_def split: if_splits)
  then show ?thesis
  proof cases
    case 1
    then show ?thesis using d sub by (auto simp: task_device_def Let_def split: sum.splits)
  next
    case 2
    then show ?thesis using d unsub by (auto simp: task_device_def Let_def split: sum.splits)
  next
    case 3
    obtain p where p: "read_task 38 task = Inr p" "task_device task = Some (of_nat (le_nat (take 8 p)))"
      using 3 d(1) task_type_distinct by (auto simp: task_device_def Let_def split: sum.splits)
    then have "read_task 8 task = Inr p \<and>
        task_packet task = \<lparr>m_header = header_of_mem (take 30 (drop 8 p)), m_body = drop 38 p\<rparr>"
      by (auto simp: read_task_def task_packet_def split: data_ptr.splits if_splits)
    with p 3 packet assms show ?thesis by (auto simp: task_ok_def)
  qed
qed

lemma thread_ok_create:
  assumes "thread_ok th" "d < 0x1000000000000000"
  shows "thread_ok (th\<lparr>rt_mgr := CreateRtmpClient_id left d prefix (rt_mgr th)\<rparr>)"
proof (cases "sm_find (rt_mgr th) d")
  case None
  have "resting d (RtmpClient_new left d prefix)"
    using client_new_ok [OF assms(2)] by (simp add: resting_def RtmpClient_new_def)
  with None thread_ok_set [OF assms(1)] show ?thesis by (simp add: CreateRtmpClient_id_def)
qed (use assms(1) in \<open>simp add: CreateRtmpClient_id_def\<close>)

text \<open>One task: what it does to the table.\<close>

lemma worker_step:
  assumes "thread_ok th" "env_ok env" "task_ok task"
  shows "\<exists>th' outs. HandlerTask left env task th = Inr (th', outs) \<and> thread_ok th' \<and>
    (\<forall>d. Some d \<noteq> task_device task \<longrightarrow> sm_find (rt_mgr th') d = sm_find (rt_mgr th) d) \<and>
    (\<forall>(d, out) \<in> set outs. Some d = task_device task) \<and>
    (\<forall>f \<in> set (pcm_frames (map snd outs)). length f = 2048) \<and>
    (\<forall>d. Some d = task_device task \<longrightarrow>
      (let t = pm_type task AND IPC_PKT_TYPE_MASK in
        (t = IPC_PKT_TYPE_SUBSCRIBE_DEVICE_ID \<longrightarrow> sm_find (rt_mgr th') d \<noteq> None) \<and>
        (t = IPC_PKT_TYPE_UNSUBSCRIBE_DEVICE_ID \<longrightarrow> sm_find (rt_mgr th') d = None) \<and>
        (t = IPC_PKT_TYPE_JT1078_PACKET \<longrightarrow> sm_find (rt_mgr th) d = None \<longrightarrow>
          sm_find (rt_mgr th') d = None \<and> outs = [])))"
  using assms(3)
proof (cases rule: task_ok_cases)
  case (sub str)
  have "HandlerTask left env task th =
      Inr (th\<lparr>rt_mgr := CreateRtmpClient_id left (GenerateDeviceIdByBuffer str) (rt_url_prefix th) (rt_mgr th)\<rparr>, [])"
    using sub by (simp add: HandlerTask_def CreateRtmpClient_def res_simps)
  moreover note thread_ok_create [OF assms(1) sub(4), of left "rt_url_prefix th"]
  ultimately show ?thesis
    using sub task_type_distinct by (auto simp: CreateRtmpClient_id_def Let_def split: option.split)
next
  case (unsub str)
  have "HandlerTask left env task th = Inr (th\<lparr>rt_mgr := sm_erase (GenerateDeviceIdByBuffer str) (rt_mgr th)\<rparr>, [])"
    using unsub task_type_distinct by (simp add: HandlerTask_def ReleaseRtmpClient_def ReleaseRtmpClient_id_def res_simps)
  moreover note thread_ok_erase [OF assms(1), of "GenerateDeviceIdByBuffer str"]
  ultimately show ?thesis using unsub task_type_distinct by (auto simp: Let_def)
next
  case (packet p)
  define d where "d = (of_nat (le_nat (take 8 p)) :: device_id_t)"
  note h = HandlerTask_def GetRtmpClient_def sizeof_header_t_def res_simps packet(1-4) d_def [symmetric] Let_def
    task_type_distinct [symmetric]
  show ?thesis
  proof (cases "sm_find (rt_mgr th) d")
    case None
    then have "HandlerTask left env task th = Inr (th, [])" by (simp add: h)
    then show ?thesis using assms(1) None packet task_type_distinct by (auto simp: Let_def d_def)
  next
    case (Some c)
    obtain ret c' outs where r: "ProcessJt1078Packet env (task_packet task) c = Inr (ret, c', outs)"
      "0 \<le> ret \<longrightarrow> resting d c'" "\<forall>f \<in> set (pcm_frames outs). length f = 2048"
      by (rule ProcessJt1078Packet_ok [OF thread_ok_find [OF assms(1) Some] assms(2) packet(5)])
    define m where "m = (if ret < 0 then sm_erase d (sm_set d c' (rt_mgr th)) else sm_set d c' (rt_mgr th))"
    have "HandlerTask left env task th = Inr (th\<lparr>rt_mgr := m\<rparr>, map (Pair d) outs)"
      using Some r(1) by (simp add: h m_def packet(6) ReleaseRtmpClient_id_def)
    moreover have "thread_ok (th\<lparr>rt_mgr := m\<rparr>)"
    proof (cases "ret < 0")
      case True
      with thread_ok_erase [OF assms(1)] show ?thesis by (simp add: m_def sm_erase_set)
    next
      case False
      with r(2) thread_ok_set [OF assms(1)] show ?thesis by (simp add: m_def)
    qed
    moreover have "map snd (map (Pair d) outs) = outs" by (simp add: comp_def)
    ultimately show ?thesis
      using Some r packet task_type_distinct by (auto simp: Let_def m_def d_def)
  qed
qed

text \<open>
  A run of the worker over tasks, each with what the allocator leaves and libav answers: the table, what
  was written, and the vehicles whose client was released because it refused a packet.
\<close>

fun work ::
  "(coder_ctx \<times> rtmp_env \<times> packet_move) list \<Rightarrow> rtmp_thread \<Rightarrow>
    fault + (rtmp_thread \<times> (device_id_t \<times> av_out) list \<times> device_id_t list)" where
  "work [] th = Inr (th, [], [])"
| "work ((left, env, task) # js) th =
     rbind (HandlerTask left env task th) (\<lambda>(th', out).
       rbind (work js th') (\<lambda>(th'', outs, refused).
         Inr (th'', out @ outs,
              (if pm_type task AND IPC_PKT_TYPE_MASK = IPC_PKT_TYPE_JT1078_PACKET \<and>
                  (\<exists>c. GetRtmpClient (the (task_device task)) (rt_mgr th) = Some c) \<and>
                  GetRtmpClient (the (task_device task)) (rt_mgr th') = None
               then [the (task_device task)] else []) @ refused)))"

definition jobs_ok :: "(coder_ctx \<times> rtmp_env \<times> packet_move) list \<Rightarrow> bool" where
  "jobs_ok js \<longleftrightarrow> (\<forall>(left, env, task) \<in> set js. env_ok env \<and> task_ok task)"

lemma work_ConsE:
  assumes "thread_ok th" "jobs_ok ((left, env, task) # js)"
  obtains th' out d where "HandlerTask left env task th = Inr (th', out)" "thread_ok th'" "jobs_ok js"
    "task_device task = Some d" "\<forall>x. x \<noteq> d \<longrightarrow> sm_find (rt_mgr th') x = sm_find (rt_mgr th) x"
    "\<forall>(x, out) \<in> set out. x = d" "\<forall>f \<in> set (pcm_frames (map snd out)). length f = 2048"
    "pm_type task AND IPC_PKT_TYPE_MASK = IPC_PKT_TYPE_SUBSCRIBE_DEVICE_ID \<longrightarrow> sm_find (rt_mgr th') d \<noteq> None"
    "pm_type task AND IPC_PKT_TYPE_MASK = IPC_PKT_TYPE_UNSUBSCRIBE_DEVICE_ID \<longrightarrow> sm_find (rt_mgr th') d = None"
    "pm_type task AND IPC_PKT_TYPE_MASK = IPC_PKT_TYPE_JT1078_PACKET \<longrightarrow> sm_find (rt_mgr th) d = None \<longrightarrow>
      sm_find (rt_mgr th') d = None"
proof -
  have ok: "env_ok env" "task_ok task" "jobs_ok js" using assms(2) by (auto simp: jobs_ok_def)
  then obtain d where d: "task_device task = Some d" by (auto simp: task_ok_def)
  from worker_step [OF assms(1) ok(1,2), of left] show ?thesis
  proof (elim exE conjE, goal_cases)
    case (1 th' out)
    show ?case
      by (rule that [of th' out d]) (use 1 ok d in \<open>auto simp: Let_def\<close>)
  qed
qed

text \<open>
  C27. Vehicles do not disturb each other. The tasks are well-formed: each names a vehicle below 2^60, the
  bodies are as long as announced, audio comes in whole packets of G.711 of at most 1024 bytes; and
  libav's container has an audio stream and its encoder takes frames of 2048 bytes. Then from a table of
  resting clients the worker handles every run of tasks without a fault, whatever else libav answers,
  and leaves such a table; all it writes goes to streams of vehicles the tasks name, all silence and sound in frames of
  2048 bytes; and a vehicle that no task names keeps its client exactly as it was.
\<close>

theorem worker_isolates_vehicles:
  assumes "thread_ok th" "jobs_ok js"
  shows "\<exists>th' outs refused. work js th = Inr (th', outs, refused) \<and> thread_ok th' \<and>
    (\<forall>(d, out) \<in> set outs. \<exists>(left, env, task) \<in> set js. task_device task = Some d) \<and>
    (\<forall>f \<in> set (pcm_frames (map snd outs)). length f = 2048) \<and>
    (\<forall>d. (\<forall>(left, env, task) \<in> set js. task_device task \<noteq> Some d) \<longrightarrow>
      sm_find (rt_mgr th') d = sm_find (rt_mgr th) d)"
  using assms
proof (induction js arbitrary: th)
  case Nil
  then show ?case by simp
next
  case (Cons j js)
  obtain left env task where j: "j = (left, env, task)" by (cases j)
  obtain th1 out d where s: "HandlerTask left env task th = Inr (th1, out)" "thread_ok th1" "jobs_ok js"
    "task_device task = Some d" "\<forall>x. x \<noteq> d \<longrightarrow> sm_find (rt_mgr th1) x = sm_find (rt_mgr th) x"
    "\<forall>(x, out) \<in> set out. x = d" "\<forall>f \<in> set (pcm_frames (map snd out)). length f = 2048"
    using work_ConsE [OF Cons.prems(1) Cons.prems(2) [unfolded j]] by metis
  from Cons.IH [OF s(2,3)] show ?case
  proof (elim exE conjE, goal_cases)
    case (1 th' outs refused)
    then show ?case using s by (auto simp: j res_simps)
  qed
qed

text \<open>
  A packet that jt1078_server relays arrives whole at the RTMP client: queued as a task it is not
  mistaken for the end of the thread, the worker reads the same identifier, the same header and the
  same body out of the task's memory, hands them to the client of that vehicle if there is one, and
  releases the client exactly if it refuses the packet.
\<close>

theorem relayed_packet_reaches_client:
  assumes "relay_ok pkt"
  shows "let task = PostPacket_copy (relay_packet seq pkt did) in
    \<not> IsTerminateTask task \<and> task_device task = Some did \<and> m_header (task_packet task) = m_header pkt \<and>
    body_ok (task_packet task) \<and> body_of (task_packet task) = m_body pkt \<and>
    HandlerTask left env task th =
      (case sm_find (rt_mgr th) did of
         None \<Rightarrow> Inr (th, [])
       | Some c \<Rightarrow>
           rbind (ProcessJt1078Packet env (task_packet task) c) (\<lambda>(ret, c', outs).
             Inr (th\<lparr>rt_mgr := (if ret < 0 then sm_erase did (rt_mgr th) else sm_set did c' (rt_mgr th))\<rparr>,
                  map (Pair did) outs)))"
proof -
  have w: "length (header_bytes (m_header pkt)) = 30" "header_fields_ok (m_header pkt)"
    "unat (WdBodyLen (m_header pkt)) = length (m_body pkt)" "length (m_body pkt) \<le> 950"
    using assms by (simp_all add: relay_ok_def header_fields_ok_def length_header_bytes jt_consts)
  have n: "unat (of_nat (38 + length (m_body pkt)) :: u32) = 38 + length (m_body pkt)"
    using w(4) by (intro unat_of_nat_eq) simp
  define data where "data = w_le 8 did @ header_bytes (m_header pkt) @ m_body pkt"
  have "length data = 38 + length (m_body pkt)" "take 8 (data @ [0]) = w_le 8 did"
    "take 30 (drop 8 (data @ [0])) = header_bytes (m_header pkt)" "drop 38 (data @ [0]) = m_body pkt @ [0]"
    using w(1) by (simp_all add: data_def)
  then obtain m where m: "m = data @ [0]" "length m = 39 + length (m_body pkt)" "take 8 m = w_le 8 did"
    "take 30 (drop 8 m) = header_bytes (m_header pkt)" "drop 38 m = m_body pkt @ [0]" by simp
  define task where "task = PostPacket_copy (relay_packet seq pkt did)"
  have t: "pm_type task = IPC_PKT_TYPE_JT1078_PACKET OR IPC_PKT_FROM_JT1078_SERVER" "pm_data task = Block m"
    using n w(3) m(1,2)
    by (simp_all add: task_def PostPacket_copy_def packet_move_of_packet_def CopyFrom_packet_def relay_packet_def
        Let_def data_def [symmetric] del: of_nat_add)
  have r: "read_task 8 task = Inr m" "read_task 38 task = Inr m" by (simp_all add: read_task_def t m(2))
  have ty: "pm_type task AND IPC_PKT_TYPE_MASK = IPC_PKT_TYPE_JT1078_PACKET" by (simp add: t(1) ipc_consts)
  have p: "task_packet task = \<lparr>m_header = m_header pkt, m_body = m_body pkt @ [0]\<rparr>"
    unfolding task_packet_def t(2) data_ptr.case m(4,5) header_memory_roundtrip [OF w(2)] ..
  have did: "of_nat (le_nat (take 8 m)) = did" unfolding m(3) by (simp add: word_le_roundtrip)
  have "HandlerTask left env task th =
      (case sm_find (rt_mgr th) did of
         None \<Rightarrow> Inr (th, [])
       | Some c \<Rightarrow>
           rbind (ProcessJt1078Packet env (task_packet task) c) (\<lambda>(ret, c', outs).
             Inr (th\<lparr>rt_mgr := (if ret < 0 then sm_erase did (rt_mgr th) else sm_set did c' (rt_mgr th))\<rparr>,
                  map (Pair did) outs)))"
    using task_type_distinct
    by (simp add: HandlerTask_def ty r did res_simps GetRtmpClient_def sizeof_header_t_def m(4,5) Let_def p
        header_memory_roundtrip [OF w(2)] ReleaseRtmpClient_id_def sm_erase_set cong: if_cong split: option.split)
  moreover have "task_device task = Some did"
    using task_type_distinct by (simp add: task_device_def ty r did)
  moreover have "\<not> IsTerminateTask task" by (simp add: IsTerminateTask_def t(1) ipc_consts)
  ultimately show ?thesis
    unfolding task_def [symmetric] Let_def by (simp add: p body_ok_def body_of_def w)
qed

section \<open>Witnesses\<close>

definition sample_client :: rtmp_client where
  "sample_client = (RtmpClient_new CtxNull 5 [114])\<lparr>rc_rtmp_stream := sample_stream\<rparr>"

definition sample_env :: "int \<Rightarrow> rtmp_env" where
  "sample_env wr = \<lparr>re_init = sample_open,
     re_write = \<lparr>we_video = wr, we_audio = \<lparr>au_convert = 0, au_encode = 0, au_packet = None, au_write = 0\<rparr>\<rparr>,
     re_g726 = (\<lambda>rate hist packet. (0, None))\<rparr>"

definition sample_fragment :: "byte \<Rightarrow> byte list \<Rightarrow> jt_packet" where
  "sample_fragment mark body = \<lparr>m_header = header_Clear\<lparr>WdBodyLen := of_nat (length body), SubpackageHandleMark4 := mark,
     Bt8timeStamp := 40\<rparr>, m_body = body\<rparr>"

lemma sample_client_opened: "opened sample_client" "RtmpStream_IsInit (rc_rtmp_stream sample_client)"
  "rc_rtmp_url_prefix sample_client = [114]" "rc_video_buffer sample_client = []"
proof -
  have "RtmpStream_IsInit sample_stream" by (simp add: RtmpStream_IsInit_def sample_stream_simps)
  then show "opened sample_client" "RtmpStream_IsInit (rc_rtmp_stream sample_client)"
    "rc_rtmp_url_prefix sample_client = [114]" "rc_video_buffer sample_client = []"
    using sample_stream_inv by (simp_all add: opened_def client_ok_def sample_client_def RtmpClient_new_def)
qed

lemma sample_env_ok: "env_ok (sample_env wr)"
  by (simp add: env_ok_def sample_env_def sample_open_def Let_def)

lemma sample_fragment_simps:
  "is_video (m_header (sample_fragment mark body))" "m_body (sample_fragment mark body) = body"
  "complete_packet (m_header (sample_fragment mark body)) \<longleftrightarrow> mark = 0 \<or> mark = 2"
  "length body < 65536 \<Longrightarrow> body_ok (sample_fragment mark body) \<and> body_of (sample_fragment mark body) = body"
  by (simp_all add: sample_fragment_def is_video_def header_Clear_def complete_packet_def body_ok_def body_of_def
      jt_consts unat_of_nat_eq)

theorem frame_reassembly_witness:
  "\<exists>rets c' outs. client_run [(sample_env 0, sample_fragment 1 [0, 0, 1]), (sample_env 0, sample_fragment 2 [0x65, 7])]
      sample_client = Inr (rets, c', outs) \<and>
    filter video_out outs = video_packets sample_stream 40 [0, 0, 1, 0x65, 7]"
proof -
  have t: "Bt8timeStamp (m_header (sample_fragment 2 [0x65, 7])) = 40" by (simp add: sample_fragment_def)
  have s: "rc_rtmp_stream sample_client = sample_stream" by (simp add: sample_client_def)
  have p: "rc_rtmp_url_prefix sample_client \<noteq> []" by (simp add: sample_client_opened)
  have f: "\<forall>(env, p) \<in> set [(sample_env 0, sample_fragment 1 [0, 0, 1])].
      is_video (m_header p) \<and> body_ok p \<and> \<not> complete_packet (m_header p)"
    "is_video (m_header (sample_fragment 2 [0x65, 7])) \<and> body_ok (sample_fragment 2 [0x65, 7]) \<and>
      complete_packet (m_header (sample_fragment 2 [0x65, 7]))"
    by (simp_all add: sample_fragment_simps)
  from frame_reassembly [OF sample_client_opened(1) p f, of "sample_env 0"] show ?thesis
    by (simp only: t s sample_client_opened(4) append_Cons append_Nil list.map concat.simps o_apply snd_conv
        sample_fragment_simps append_Nil2) (auto simp: sample_fragment_simps)
qed

theorem process_result_witness:
  "\<exists>ret c' outs. ProcessJt1078Packet (sample_env (- 1)) (sample_fragment 1 [0, 0, 1]) sample_client = Inr (ret, c', outs) \<and> ret = 0"
proof -
  have "ProcessJt1078Packet (sample_env (- 1)) (sample_fragment 1 [0, 0, 1]) sample_client =
      Inr (0, sample_client\<lparr>rc_video_buffer := [0, 0, 1]\<rparr>, [])"
    using sample_client_opened sample_fragment_simps(4) [of "[0, 0, 1]" 1]
    by (simp add: ProcessJt1078Packet_opened sample_fragment_simps process_video_def append_body_ok res_simps)
  then show ?thesis
    using process_result [OF sample_client_opened(2), of "sample_env (- 1)" "sample_fragment 1 [0, 0, 1]"]
      sample_client_opened(3) sample_fragment_simps(1) by fastforce
qed

definition sample_task :: packet_move where
  "sample_task = \<lparr>pm_head_length = 24, pm_data_length = 1, pm_seq_id = 0, pm_type = 2, pm_data = Block [53, 0]\<rparr>"

lemma sample_task_ok: "task_device sample_task = Some 5" "task_ok sample_task"
proof -
  have "GenerateDeviceIdByBuffer [53] = 5"
    by (simp add: GenerateDeviceIdByBuffer_def strtoull16_def is_space_def skip_sign_def skip_0x_def hex_value_def Let_def)
  then show "task_device sample_task = Some 5" "task_ok sample_task"
    by (simp_all add: task_ok_def task_device_def task_string_def ipc_consts Let_def sample_task_def)
qed

theorem worker_isolates_vehicles_witness:
  "\<exists>th' outs refused. work [(CtxNull, sample_env 0, sample_task)] (RtmpThread_new [114] [] True)
      = Inr (th', outs, refused) \<and> thread_ok th' \<and> sm_find (rt_mgr th') 6 = None"
proof -
  have "thread_ok (RtmpThread_new [114] [] True)" by (simp add: thread_ok_def RtmpThread_new_def)
  moreover have "jobs_ok [(CtxNull, sample_env 0, sample_task)]"
    by (simp add: jobs_ok_def sample_env_ok sample_task_ok)
  ultimately show ?thesis
    using worker_isolates_vehicles [of "RtmpThread_new [114] [] True" "[(CtxNull, sample_env 0, sample_task)]"]
  proof (elim exE conjE meta_impE, goal_cases)
    case (3 th' outs refused)
    from 3(7) sample_task_ok(1) have "sm_find (rt_mgr th') 6 = sm_find (rt_mgr (RtmpThread_new [114] [] True)) 6" by auto
    with 3(3,4) show ?case by (auto simp: RtmpThread_new_def)
  qed
qed

theorem relayed_packet_reaches_client_witness:
  "let task = PostPacket_copy (relay_packet 3 jt_sample 5) in
    task_device task = Some 5 \<and> body_of (task_packet task) = [0xAA, 0xBB] \<and>
    HandlerTask CtxNull (sample_env 0) task (RtmpThread_new [114] [] True) = Inr (RtmpThread_new [114] [] True, [])"
proof -
  have "relay_ok jt_sample"
    by (simp add: relay_ok_def header_fields_ok_def jt_sample_def header_Clear_def jt_consts)
  moreover have "rt_mgr (RtmpThread_new [114] [] True) = []" "m_body jt_sample = [0xAA, 0xBB]"
    by (simp_all add: RtmpThread_new_def jt_sample_def)
  ultimately show ?thesis
    using relayed_packet_reaches_client [of jt_sample 3 5 CtxNull "sample_env 0" "RtmpThread_new [114] [] True"]
    by (simp add: Let_def)
qed

end
