(* ===== verification/Web_Server.thy ===== *)
theory Web_Server
  imports Pc_Server Rtmp_Client "HOL-Library.List_Lexorder"
begin

text \<open>
  The web server (web_server/http): the callbacks of the streaming server about players that start and
  stop (HttpSrsOnSessionHandler), the request of a page that opens a channel (HttpWebOnPlayHandler),
  the set of watched vehicles (DeviceIdMgr) and the server itself with its client of jt1078_server, its
  timers and the tasks it posts to the RTMP worker. Requests to jt1078_server and tasks are returned as
  lists in the order they are made. The JSON parser is an argument; what it returns is a value of
  \<open>json\<close>, a number being given by its integral part.
\<close>

section \<open>Watched vehicles\<close>

type_synonym device_set = "(device_id_t, unit) smap"

definition GetDeviceIdFromStr :: "cstring \<Rightarrow> device_id_t" where
  "GetDeviceIdFromStr str = GenerateDeviceId str"

definition DeviceIdMgr_Exists :: "device_id_t \<Rightarrow> device_set \<Rightarrow> bool" where
  "DeviceIdMgr_Exists d m = (sm_find m d \<noteq> None)"

definition DeviceIdMgr_Insert :: "device_id_t \<Rightarrow> device_set \<Rightarrow> device_set" where
  "DeviceIdMgr_Insert d m = sm_insert d () m"

definition DeviceIdMgr_Remove :: "device_id_t \<Rightarrow> device_set \<Rightarrow> device_set" where
  "DeviceIdMgr_Remove d m = sm_erase d m"

definition DeviceIdMgr_Exists_str :: "cstring \<Rightarrow> device_set \<Rightarrow> bool" where
  "DeviceIdMgr_Exists_str str m = DeviceIdMgr_Exists (GenerateDeviceId str) m"

definition DeviceIdMgr_Insert_str :: "cstring \<Rightarrow> device_set \<Rightarrow> device_set" where
  "DeviceIdMgr_Insert_str str m = DeviceIdMgr_Insert (GenerateDeviceId str) m"

definition DeviceIdMgr_Remove_str :: "cstring \<Rightarrow> device_set \<Rightarrow> device_set" where
  "DeviceIdMgr_Remove_str str m = DeviceIdMgr_Remove (GenerateDeviceId str) m"

section \<open>Players\<close>

text \<open>\<open>HttpSessionStat\<close>: asking for the size of a stream makes an entry for it.\<close>

type_synonym session_stat = "(cstring, (cstring, unit) smap) smap"

definition stat_get :: "cstring \<Rightarrow> session_stat \<Rightarrow> (cstring, unit) smap" where
  "stat_get s m = (case sm_find m s of None \<Rightarrow> [] | Some v \<Rightarrow> v)"

definition Stat_Size :: "cstring \<Rightarrow> session_stat \<Rightarrow> nat \<times> session_stat" where
  "Stat_Size strSession m = (length (stat_get strSession m), sm_insert strSession [] m)"

definition EmptyClientId :: "cstring \<Rightarrow> session_stat \<Rightarrow> bool \<times> session_stat" where
  "EmptyClientId strSession m = (case Stat_Size strSession m of (n, m) \<Rightarrow> (n = 0, m))"

definition AddClientId :: "cstring \<Rightarrow> cstring \<Rightarrow> session_stat \<Rightarrow> session_stat" where
  "AddClientId strStream strClientId m = sm_set strStream (sm_insert strClientId () (stat_get strStream m)) m"

definition DelClientId :: "cstring \<Rightarrow> cstring \<Rightarrow> session_stat \<Rightarrow> session_stat" where
  "DelClientId strStream strClientId m = sm_set strStream (sm_erase strClientId (stat_get strStream m)) m"

definition ReleaseStream :: "cstring \<Rightarrow> session_stat \<Rightarrow> session_stat" where
  "ReleaseStream strStream m = sm_erase strStream m"

section \<open>The server\<close>

record web_server =
  ws_session_stat :: session_stat
  ws_devices :: device_set
  ws_client :: "jt1078_client option"
  ws_connect_timer :: bool
  ws_heartbeat_timer :: bool
  ws_is_realtime :: bool

definition WebServer_new :: "bool \<Rightarrow> web_server" where
  "WebServer_new realtime = \<lparr>ws_session_stat = [], ws_devices = [], ws_client = None,
     ws_connect_timer = False, ws_heartbeat_timer = False, ws_is_realtime = realtime\<rparr>"

definition web_connected :: "web_server \<Rightarrow> bool" where
  "web_connected st = (case ws_client st of None \<Rightarrow> False | Some c \<Rightarrow> tc_connected c)"

abbreviation web_sub :: u32 where
  "web_sub \<equiv> IPC_PKT_TYPE_SUBSCRIBE_DEVICE_ID OR IPC_PKT_FROM_WEB_SERVER"

abbreviation web_unsub :: u32 where
  "web_unsub \<equiv> IPC_PKT_TYPE_UNSUBSCRIBE_DEVICE_ID OR IPC_PKT_FROM_WEB_SERVER"

definition InitIpcMovePacket :: "u32 \<Rightarrow> byte list \<Rightarrow> packet_move" where
  "InitIpcMovePacket uPktType data =
     \<lparr>pm_head_length = of_nat sizeof_packet_move_t, pm_data_length = of_nat (length data), pm_seq_id = 0,
      pm_type = uPktType, pm_data = Block (data @ [0])\<rparr>"

definition NotifyStart :: "cstring \<Rightarrow> web_server \<Rightarrow> web_server \<times> request list \<times> packet_move list" where
  "NotifyStart strDeviceId st =
     (let device_id = GetDeviceIdFromStr strDeviceId in
      if DeviceIdMgr_Exists device_id (ws_devices st) then (st, [], [])
      else
        (st\<lparr>ws_devices := DeviceIdMgr_Insert device_id (ws_devices st)\<rparr>,
         if web_connected st then [(web_sub, strDeviceId)] else [],
         [PostPacket_move (InitIpcMovePacket web_sub strDeviceId)]))"

definition NotifyStop :: "cstring \<Rightarrow> web_server \<Rightarrow> web_server \<times> request list \<times> packet_move list" where
  "NotifyStop strDeviceId st =
     (let device_id = GetDeviceIdFromStr strDeviceId in
      (st\<lparr>ws_devices := DeviceIdMgr_Remove device_id (ws_devices st)\<rparr>,
       if web_connected st then [(web_unsub, strDeviceId)] else [],
       [PostPacket_move (InitIpcMovePacket web_unsub strDeviceId)]))"

text \<open>The sessions' handlers. \<open>strApp\<close> is only logged: live and replay share the players' table.\<close>

definition SessionStop :: "cstring \<Rightarrow> cstring \<Rightarrow> cstring \<Rightarrow> web_server \<Rightarrow> bool \<times> web_server \<times> request list \<times> packet_move list" where
  "SessionStop strStream strClientId strApp st =
     (let stat = DelClientId strStream strClientId (ws_session_stat st);
          (empty, stat) = EmptyClientId strStream stat;
          st = st\<lparr>ws_session_stat := stat\<rparr> in
      if empty then
        (case NotifyStop strStream st of (st, reqs, tasks) \<Rightarrow>
           (True, st\<lparr>ws_session_stat := ReleaseStream strStream (ws_session_stat st)\<rparr>, reqs, tasks))
      else (True, st, [], []))"

definition SessionPlay :: "cstring \<Rightarrow> cstring \<Rightarrow> cstring \<Rightarrow> web_server \<Rightarrow> bool \<times> web_server \<times> request list \<times> packet_move list" where
  "SessionPlay strStream strClientId strApp st =
     (let (empty, stat) = EmptyClientId strStream (ws_session_stat st);
          st = st\<lparr>ws_session_stat := stat\<rparr>;
          (st, reqs, tasks) = (if empty then NotifyStart strStream st else (st, [], [])) in
      (True, st\<lparr>ws_session_stat := AddClientId strStream strClientId (ws_session_stat st)\<rparr>, reqs, tasks))"

section \<open>Requests\<close>

datatype evhttp_cmd_type = EVHTTP_REQ_GET | EVHTTP_REQ_POST | EVHTTP_REQ_HEAD | EVHTTP_REQ_PUT
  | EVHTTP_REQ_DELETE | EVHTTP_REQ_OPTIONS | EVHTTP_REQ_TRACE | EVHTTP_REQ_CONNECT | EVHTTP_REQ_PATCH
  | EVHTTP_REQ_OTHER

definition GetHttpCmdTypeStr :: "evhttp_cmd_type \<Rightarrow> string" where
  "GetHttpCmdTypeStr cmd =
     (case cmd of EVHTTP_REQ_GET \<Rightarrow> ''GET'' | EVHTTP_REQ_POST \<Rightarrow> ''POST'' | EVHTTP_REQ_HEAD \<Rightarrow> ''HEAD''
      | EVHTTP_REQ_PUT \<Rightarrow> ''PUT'' | EVHTTP_REQ_DELETE \<Rightarrow> ''DELETE'' | EVHTTP_REQ_OPTIONS \<Rightarrow> ''OPTIONS''
      | EVHTTP_REQ_TRACE \<Rightarrow> ''TRACE'' | EVHTTP_REQ_CONNECT \<Rightarrow> ''CONNECT'' | EVHTTP_REQ_PATCH \<Rightarrow> ''PATCH''
      | EVHTTP_REQ_OTHER \<Rightarrow> ''unknown'')"

datatype http_reply = BadMethod | BadRequest | HttpOk "byte list"

datatype json = JString cstring | JNumber int | JObject "(string \<times> json) list" | JOther

text \<open>\<open>j.at(key)\<close> as a string: an exception, hence \<open>None\<close>, unless it is there and is a string.\<close>

definition json_at_string :: "json \<Rightarrow> string \<Rightarrow> cstring option" where
  "json_at_string j key =
     (case j of
        JObject kvs \<Rightarrow> (case map_of kvs key of Some (JString s) \<Rightarrow> Some s | _ \<Rightarrow> None)
      | _ \<Rightarrow> None)"

text \<open>\<open>std::to_string(int)\<close>.\<close>

function digits :: "nat \<Rightarrow> cstring" where
  "digits n = (if n < 10 then [of_nat (48 + n)] else digits (n div 10) @ [of_nat (48 + n mod 10)])"
  by auto

termination digits
  by (relation "measure id") auto

declare digits.simps [simp del]

definition int_to_string :: "int \<Rightarrow> cstring" where
  "int_to_string i = (if i < 0 then 45 # digits (nat (- i)) else digits (nat i))"

text \<open>
  \<open>GetActionAndStream\<close>: the constant \<open>operator[]\<close> of the JSON library asserts that the key is there,
  which no \<open>catch\<close> stops. A number is narrowed to an \<open>int\<close>.
\<close>

definition GetActionAndStream :: "json \<Rightarrow> fault + (cstring \<times> cstring \<times> cstring \<times> cstring) option" where
  "GetActionAndStream j =
     (case (json_at_string j ''action'', json_at_string j ''stream'', json_at_string j ''app'') of
        (Some strAction, Some strStream, Some strApp) \<Rightarrow>
          (case j of
             JObject kvs \<Rightarrow>
               (case map_of kvs ''client_id'' of
                  None \<Rightarrow> Inl AssertFail
                | Some (JNumber n) \<Rightarrow> Inr (Some (strAction, strStream, int_to_string (sint (of_int n :: 32 word)), strApp))
                | Some (JString s) \<Rightarrow> Inr (Some (strAction, strStream, s, strApp))
                | Some _ \<Rightarrow> Inr None)
           | _ \<Rightarrow> Inr None)
      | _ \<Rightarrow> Inr None)"

abbreviation http_result :: "http_reply \<Rightarrow> web_server \<times> request list \<times> packet_move list \<Rightarrow>
    fault + (http_reply \<times> web_server \<times> request list \<times> packet_move list)" where
  "http_result reply r \<equiv> Inr (reply, r)"

definition ReturnSrsOK :: http_reply where "ReturnSrsOK = HttpOk (ascii ''0'')"
definition ReturnSrsError :: http_reply where "ReturnSrsError = HttpOk (ascii ''1'')"

definition Srs_HandlerJsonData ::
  "json \<Rightarrow> web_server \<Rightarrow> fault + (http_reply \<times> web_server \<times> request list \<times> packet_move list)" where
  "Srs_HandlerJsonData j st =
     rbind (GetActionAndStream j) (\<lambda>r. case r of
       None \<Rightarrow> http_result BadRequest (st, [], [])
     | Some (strAction, strStream, strClientId, strApp) \<Rightarrow>
         if strStream = [] \<or> (strAction \<noteq> ascii ''on_stop'' \<and> strAction \<noteq> ascii ''on_play'') \<or> strApp = []
         then http_result BadRequest (st, [], [])
         else if \<not> CheckDeviceIdStrFmt strStream then http_result ReturnSrsError (st, [], [])
         else if strApp \<noteq> ascii ''live'' \<and> strApp \<noteq> ascii ''replay'' then http_result ReturnSrsError (st, [], [])
         else
           (case (if strAction = ascii ''on_stop'' then SessionStop strStream strClientId strApp st
                  else if strAction = ascii ''on_play'' then SessionPlay strStream strClientId strApp st
                  else (True, st, [], [])) of
              (b, r) \<Rightarrow> http_result (if b then ReturnSrsOK else ReturnSrsError) r))"

definition Srs_HandlerRequest ::
  "(byte list \<Rightarrow> json option) \<Rightarrow> evhttp_cmd_type \<Rightarrow> byte list \<Rightarrow> web_server \<Rightarrow>
    fault + (http_reply \<times> web_server \<times> request list \<times> packet_move list)" where
  "Srs_HandlerRequest parse type body st =
     (if type \<noteq> EVHTTP_REQ_POST then http_result BadMethod (st, [], [])
      else if length body = 0 then http_result BadRequest (st, [], [])
      else (case parse body of
              None \<Rightarrow> http_result BadRequest (st, [], [])
            | Some j \<Rightarrow> Srs_HandlerJsonData j st))"

definition GetDeviceIdFromJson :: "json \<Rightarrow> cstring option" where
  "GetDeviceIdFromJson j = json_at_string j ''device_id''"

definition OnPlay_HandlerJsonData ::
  "json \<Rightarrow> web_server \<Rightarrow> fault + (http_reply \<times> web_server \<times> request list \<times> packet_move list)" where
  "OnPlay_HandlerJsonData j st =
     (case GetDeviceIdFromJson j of
        None \<Rightarrow> http_result BadRequest (st, [], [])
      | Some strDeviceId \<Rightarrow>
          if \<not> CheckDeviceIdStrFmt strDeviceId then http_result BadRequest (st, [], [])
          else http_result (HttpOk []) (NotifyStart strDeviceId st))"

definition OnPlay_HandlerRequest ::
  "(byte list \<Rightarrow> json option) \<Rightarrow> evhttp_cmd_type \<Rightarrow> byte list \<Rightarrow> web_server \<Rightarrow>
    fault + (http_reply \<times> web_server \<times> request list \<times> packet_move list)" where
  "OnPlay_HandlerRequest parse type body st =
     (if type \<noteq> EVHTTP_REQ_POST then http_result BadMethod (st, [], [])
      else (case parse body of
              None \<Rightarrow> http_result BadRequest (st, [], [])
            | Some j \<Rightarrow> OnPlay_HandlerJsonData j st))"

section \<open>The connection to jt1078_server\<close>

definition Web_OnClientConnect :: "bool \<Rightarrow> web_server \<Rightarrow> web_server" where
  "Web_OnClientConnect bOk st =
     (if \<not> bOk then st\<lparr>ws_client := None, ws_connect_timer := True\<rparr> else st)"

definition Web_OnClientMessage :: "ipc_packet \<Rightarrow> packet_move list" where
  "Web_OnClientMessage packet =
     (if m_uPktType packet AND IPC_PKT_TYPE_MASK = IPC_PKT_TYPE_JT1078_PACKET then [PostPacket_copy packet] else [])"

definition Web_OnClientError :: "tcp_error \<Rightarrow> web_server \<Rightarrow> fault + web_server" where
  "Web_OnClientError e st =
     (case ws_client st of
        None \<Rightarrow> Inl NullDeref
      | Some c \<Rightarrow> Inr (st\<lparr>ws_client := None, ws_connect_timer := True\<rparr>))"

text \<open>The port is a \<open>u_short\<close>: promoted to \<open>int\<close> it is never equal to \<open>-1\<close>.\<close>

definition Web_AsyncConnectServer :: "connect_env \<Rightarrow> web_server \<Rightarrow> bool \<times> web_server \<times> int list" where
  "Web_AsyncConnectServer ce st =
     (let st = st\<lparr>ws_client := None\<rparr> in
      if ce_ip ce = [] \<or> uint (ce_port ce) = - 1 then (False, st, [])
      else
        (case AsyncConnect (ce_loop ce) (ce_ip ce) (ce_port ce) (ce_new_fd ce) (ce_nonblock ce) (ce_connect ce)
            (ce_write_event ce) (Jt1078Client_new (ce_session_id ce)) of (ok, c, cb, closed) \<Rightarrow>
           (case cb of
              None \<Rightarrow> (ok, st\<lparr>ws_client := Some c\<rparr>, closed)
            | Some (fd, bOk) \<Rightarrow>
                (case Jt1078Client_OnConnected (ce_read_event ce) fd bOk c of (c, closed') \<Rightarrow>
                   (ok, Web_OnClientConnect bOk (st\<lparr>ws_client := Some c\<rparr>), closed @ closed')))))"

definition Web_OnConnectTimer :: "connect_env \<Rightarrow> web_server \<Rightarrow> web_server \<times> int list" where
  "Web_OnConnectTimer ce st = (case Web_AsyncConnectServer ce st of (ok, r) \<Rightarrow> r)"

definition Web_OnHeartbeatTimer :: "web_server \<Rightarrow> web_server \<times> request list" where
  "Web_OnHeartbeatTimer st =
     (st\<lparr>ws_heartbeat_timer := True\<rparr>,
      if web_connected st then [(IPC_PKT_TYPE_HEARTBEAT OR IPC_PKT_FROM_WEB_SERVER, [])] else [])"

definition InitHttpHandlers :: "connect_env \<Rightarrow> web_server \<Rightarrow> bool \<times> web_server \<times> int list" where
  "InitHttpHandlers ce st = Web_AsyncConnectServer ce (st\<lparr>ws_heartbeat_timer := True\<rparr>)"

section \<open>Runs\<close>

datatype web_event =
    SessionRequest evhttp_cmd_type "byte list"
  | OnPlayRequest evhttp_cmd_type "byte list"
  | Relayed ipc_packet
  | WebClientWritable write_event bool
  | WebClientError tcp_error
  | WebConnectTimer connect_env
  | WebHeartbeatTimer

text \<open>What an event leaves: the server, the requests sent upstream, the tasks posted.\<close>

fun web_step ::
  "(byte list \<Rightarrow> json option) \<Rightarrow> web_event \<Rightarrow> web_server \<Rightarrow> fault + (web_server \<times> request list \<times> packet_move list)"
where
  "web_step parse (SessionRequest type body) st =
     rbind (Srs_HandlerRequest parse type body st) (\<lambda>(reply, r). Inr r)"
| "web_step parse (OnPlayRequest type body) st =
     rbind (OnPlay_HandlerRequest parse type body st) (\<lambda>(reply, r). Inr r)"
| "web_step parse (Relayed packet) st =
     Inr (st, [], if web_connected st then Web_OnClientMessage packet else [])"
| "web_step parse (WebClientWritable ev rd) st =
     (case ws_client st of
        None \<Rightarrow> Inr (st, [], [])
      | Some c \<Rightarrow>
          (case (if tc_connected c then None else tc_write_event c) of
             None \<Rightarrow> Inr (st, [], [])
           | Some socket \<Rightarrow>
               (case tcp_session_write_cb socket ev c of (c, (fd, bOk), _) \<Rightarrow>
                (case Jt1078Client_OnConnected rd fd bOk c of (c, _) \<Rightarrow>
                   Inr (Web_OnClientConnect bOk (st\<lparr>ws_client := Some c\<rparr>), [], [])))))"
| "web_step parse (WebClientError e) st =
     (case ws_client st of
        None \<Rightarrow> Inr (st, [], [])
      | Some c \<Rightarrow>
          if \<not> tc_connected c then Inr (st, [], [])
          else (case Jt1078Client_OnError e c of (c, _) \<Rightarrow>
             rbind (Web_OnClientError e (st\<lparr>ws_client := Some c\<rparr>)) (\<lambda>st. Inr (st, [], []))))"
| "web_step parse (WebConnectTimer ce) st =
     (if \<not> ws_connect_timer st then Inr (st, [], [])
      else (case Web_OnConnectTimer ce (st\<lparr>ws_connect_timer := False\<rparr>) of (st, _) \<Rightarrow> Inr (st, [], [])))"
| "web_step parse WebHeartbeatTimer st =
     (if \<not> ws_heartbeat_timer st then Inr (st, [], [])
      else (case Web_OnHeartbeatTimer (st\<lparr>ws_heartbeat_timer := False\<rparr>) of (st, reqs) \<Rightarrow> Inr (st, reqs, [])))"

fun web_run ::
  "(byte list \<Rightarrow> json option) \<Rightarrow> web_event list \<Rightarrow> web_server \<Rightarrow> fault + (web_server \<times> request list \<times> packet_move list)"
where
  "web_run parse [] st = Inr (st, [], [])"
| "web_run parse (ev # evs) st =
     rbind (web_step parse ev st) (\<lambda>(st, reqs, tasks).
       rbind (web_run parse evs st) (\<lambda>(st, reqs', tasks'). Inr (st, reqs @ reqs', tasks @ tasks')))"

section \<open>Lemmas on identifiers\<close>

lemma fmt_hexes: "CheckDeviceIdStrFmt s \<Longrightarrow> hexes s \<and> length s = 14"
proof -
  assume f: "CheckDeviceIdStrFmt s"
  have "\<exists>d < 16. c = hex_digit d" if "c \<in> set s" for c
  proof -
    from that f obtain i where "i < 14" "c = s ! i" by (auto simp: CheckDeviceIdStrFmt_def in_set_conv_nth)
    with f have "is_digit c" by (simp add: CheckDeviceIdStrFmt_def)
    then have "unat c = 48 + (unat c - 48)" "unat c - 48 < 10" by (auto simp: is_digit_def)
    then show ?thesis
      by (intro exI [of _ "unat c - 48"]) (simp add: word_unat_eq_iff unat_hex_digit)
  qed
  with f show ?thesis by (simp add: hexes_def CheckDeviceIdStrFmt_def)
qed

lemma fmt_device_id:
  assumes "CheckDeviceIdStrFmt s"
  shows "unat (GenerateDeviceId s) = hex_acc 0 s" "GenerateDeviceId s < 0x1000000000000000" "s \<noteq> []" "length s = 14"
proof -
  have h: "hexes s" "length s = 14" using fmt_hexes [OF assms] by simp_all
  then show "s \<noteq> []" "length s = 14" by auto
  have b: "hex_acc 0 s < 16 ^ 14" using hex_acc_bound [OF h(1)] h(2) by simp
  then have "\<not> 2 ^ 64 \<le> hex_acc 0 s" by simp
  with strtoull16_hexes(2) [OF h(1)] \<open>s \<noteq> []\<close> have "GenerateDeviceId s = of_nat (hex_acc 0 s)"
    by (simp add: GenerateDeviceId_def Let_def)
  then show "unat (GenerateDeviceId s) = hex_acc 0 s" using b by (simp add: unat_of_nat_eq)
  with b show "GenerateDeviceId s < 0x1000000000000000" by (simp add: word_less_nat_alt)
qed

lemma fmt_device_id_inj:
  assumes "CheckDeviceIdStrFmt s" "CheckDeviceIdStrFmt t" "GenerateDeviceId s = GenerateDeviceId t"
  shows "s = t"
  using fmt_device_id(1) [OF assms(1)] fmt_device_id(1) [OF assms(2)] assms(3)
    hex_str_acc fmt_hexes [OF assms(1)] fmt_hexes [OF assms(2)] by metis

section \<open>Lemmas on players\<close>

definition watches :: "web_server \<Rightarrow> cstring \<Rightarrow> cstring \<Rightarrow> bool" where
  "watches st s c = (sm_find (stat_get s (ws_session_stat st)) c = Some ())"

definition opened_device :: "web_server \<Rightarrow> device_id_t \<Rightarrow> bool" where
  "opened_device st d = DeviceIdMgr_Exists d (ws_devices st)"

lemma stat_get_ops [simp]:
  "stat_get s (sm_insert s' [] m) = stat_get s m"
  "stat_get s (AddClientId s' c m) = (if s = s' then sm_insert c () (stat_get s m) else stat_get s m)"
  "stat_get s (DelClientId s' c m) = (if s = s' then sm_erase c (stat_get s m) else stat_get s m)"
  "stat_get s (ReleaseStream s' m) = (if s = s' then [] else stat_get s m)"
  by (auto simp: stat_get_def AddClientId_def DelClientId_def ReleaseStream_def split: option.splits)

lemma sm_nil_find: "(m :: ('k, unit) smap) = [] \<longleftrightarrow> (\<forall>k. sm_find m k \<noteq> Some ())"
  by (cases m) auto

lemma stat_nil_iff: "stat_get s m = [] \<longleftrightarrow> (\<forall>c. sm_find (stat_get s m) c \<noteq> Some ())"
  by (rule sm_nil_find)

lemma EmptyClientId_eq: "EmptyClientId s m = (stat_get s m = [], sm_insert s [] m)"
  by (simp add: EmptyClientId_def Stat_Size_def)

lemma unwatched_iff: "stat_get s (ws_session_stat st) = [] \<longleftrightarrow> (\<forall>c. \<not> watches st s c)"
  by (simp add: sm_nil_find watches_def)

lemma device_ops [simp]:
  "DeviceIdMgr_Exists d (DeviceIdMgr_Insert d' m) \<longleftrightarrow> d = d' \<or> DeviceIdMgr_Exists d m"
  "DeviceIdMgr_Exists d (DeviceIdMgr_Remove d' m) \<longleftrightarrow> d \<noteq> d' \<and> DeviceIdMgr_Exists d m"
  by (auto simp: DeviceIdMgr_Exists_def DeviceIdMgr_Insert_def DeviceIdMgr_Remove_def split: option.splits)

lemma SessionPlay_effect:
  assumes "SessionPlay s c app st = (b, st', reqs, tasks)"
  shows "b" "watches st' s' c' \<longleftrightarrow> watches st s' c' \<or> s' = s \<and> c' = c"
    "ws_client st' = ws_client st"
    "opened_device st' d \<longleftrightarrow> opened_device st d \<or> (\<forall>c. \<not> watches st s c) \<and> d = GenerateDeviceId s"
    "(reqs, tasks) = (if (\<forall>c. \<not> watches st s c) \<and> \<not> opened_device st (GenerateDeviceId s)
       then (if web_connected st then [(web_sub, s)] else [], [PostPacket_move (InitIpcMovePacket web_sub s)])
       else ([], []))"
  using assms
  by (auto simp: SessionPlay_def NotifyStart_def GetDeviceIdFromStr_def EmptyClientId_eq stat_nil_iff
      opened_device_def watches_def web_connected_def Let_def split: if_splits option.splits)

lemma SessionStop_effect:
  assumes "SessionStop s c app st = (b, st', reqs, tasks)"
  defines "rest \<equiv> \<exists>c'. c' \<noteq> c \<and> watches st s c'"
  shows "b" "watches st' s' c' \<longleftrightarrow> watches st s' c' \<and> \<not> (s' = s \<and> c' = c)"
    "ws_client st' = ws_client st"
    "opened_device st' d \<longleftrightarrow> opened_device st d \<and> (rest \<or> d \<noteq> GenerateDeviceId s)"
    "(reqs, tasks) = (if \<not> rest
       then (if web_connected st then [(web_unsub, s)] else [], [PostPacket_move (InitIpcMovePacket web_unsub s)])
       else ([], []))"
proof -
  have e: "sm_erase c (stat_get s (ws_session_stat st)) = [] \<longleftrightarrow> \<not> rest"
    by (auto simp: sm_nil_find rest_def watches_def split: if_splits)
  show "b" "watches st' s' c' \<longleftrightarrow> watches st s' c' \<and> \<not> (s' = s \<and> c' = c)"
    "ws_client st' = ws_client st"
    "opened_device st' d \<longleftrightarrow> opened_device st d \<and> (rest \<or> d \<noteq> GenerateDeviceId s)"
    "(reqs, tasks) = (if \<not> rest
       then (if web_connected st then [(web_unsub, s)] else [], [PostPacket_move (InitIpcMovePacket web_unsub s)])
       else ([], []))"
    using assms(1) e
    by (auto simp: SessionStop_def NotifyStop_def GetDeviceIdFromStr_def EmptyClientId_eq rest_def
        opened_device_def watches_def web_connected_def Let_def split: if_splits)
qed

section \<open>What an event asks for\<close>

text \<open>The command of a player's request that is accepted.\<close>

definition session_cmd ::
  "(byte list \<Rightarrow> json option) \<Rightarrow> evhttp_cmd_type \<Rightarrow> byte list \<Rightarrow> (cstring, cstring) sub_cmd option" where
  "session_cmd parse type body =
     (if type \<noteq> EVHTTP_REQ_POST \<or> body = [] then None
      else (case parse body of
              None \<Rightarrow> None
            | Some j \<Rightarrow>
                (case GetActionAndStream j of
                   Inr (Some (a, s, c, app)) \<Rightarrow>
                     if CheckDeviceIdStrFmt s \<and> app \<in> {ascii ''live'', ascii ''replay''} then
                       (if a = ascii ''on_play'' then Some (Sub s c)
                        else if a = ascii ''on_stop'' then Some (Unsub s c) else None)
                     else None
                 | _ \<Rightarrow> None)))"

fun event_cmds :: "(byte list \<Rightarrow> json option) \<Rightarrow> web_event \<Rightarrow> (cstring, cstring) sub_cmd list" where
  "event_cmds parse (SessionRequest type body) =
     (case session_cmd parse type body of None \<Rightarrow> [] | Some c \<Rightarrow> [c])"
| "event_cmds parse ev = []"

definition lacks_client_id :: "(byte list \<Rightarrow> json option) \<Rightarrow> web_event \<Rightarrow> bool" where
  "lacks_client_id parse ev \<longleftrightarrow>
     (\<exists>body kvs a s p. ev = SessionRequest EVHTTP_REQ_POST body \<and> body \<noteq> [] \<and> parse body = Some (JObject kvs) \<and>
       map_of kvs ''action'' = Some (JString a) \<and> map_of kvs ''stream'' = Some (JString s) \<and>
       map_of kvs ''app'' = Some (JString p) \<and> map_of kvs ''client_id'' = None)"

lemma json_at_string_Some: "json_at_string j k = Some v \<longleftrightarrow> (\<exists>kvs. j = JObject kvs \<and> map_of kvs k = Some (JString v))"
  by (auto simp: json_at_string_def split: json.splits option.splits)

lemma GetActionAndStream_fault:
  "GetActionAndStream j = Inl f \<longleftrightarrow> f = AssertFail \<and> (\<exists>kvs a s p. j = JObject kvs \<and>
     map_of kvs ''action'' = Some (JString a) \<and> map_of kvs ''stream'' = Some (JString s) \<and>
     map_of kvs ''app'' = Some (JString p) \<and> map_of kvs ''client_id'' = None)"
proof -
  have "GetActionAndStream j = Inl f \<Longrightarrow> f = AssertFail \<and> (\<exists>kvs a s p. j = JObject kvs \<and>
     json_at_string j ''action'' = Some a \<and> json_at_string j ''stream'' = Some s \<and>
     json_at_string j ''app'' = Some p \<and> map_of kvs ''client_id'' = None)"
    by (auto simp: GetActionAndStream_def split: option.splits json.splits)
  then show ?thesis by (auto simp: json_at_string_Some) (auto simp: GetActionAndStream_def json_at_string_def)
qed

lemma session_request_fault:
  "web_step parse (SessionRequest type body) st = Inl f \<longleftrightarrow>
    f = AssertFail \<and> lacks_client_id parse (SessionRequest type body)"
proof -
  have "web_step parse (SessionRequest type body) st = Inl f \<longleftrightarrow>
    type = EVHTTP_REQ_POST \<and> body \<noteq> [] \<and> (\<exists>j. parse body = Some j \<and> GetActionAndStream j = Inl f)"
    by (cases "parse body"; cases "case parse body of None \<Rightarrow> Inr None | Some j \<Rightarrow> GetActionAndStream j")
      (auto simp: Srs_HandlerRequest_def Srs_HandlerJsonData_def res_simps split: option.splits prod.splits)
  then show ?thesis unfolding GetActionAndStream_fault lacks_client_id_def by auto
qed

lemma session_request_step:
  assumes "\<not> lacks_client_id parse (SessionRequest type body)"
  shows "web_step parse (SessionRequest type body) st =
    (case session_cmd parse type body of
       Some (Sub s c) \<Rightarrow> Inr (snd (SessionPlay s c [] st))
     | Some (Unsub s c) \<Rightarrow> Inr (snd (SessionStop s c [] st))
     | _ \<Rightarrow> Inr (st, [], []))"
proof -
  have app: "SessionPlay s c a st = SessionPlay s c [] st" "SessionStop s c a st = SessionStop s c [] st" for s c a
    by (simp_all add: SessionPlay_def SessionStop_def)
  have lit: "ascii ''on_stop'' \<noteq> ascii ''on_play''" "ascii ''live'' \<noteq> []" "ascii ''replay'' \<noteq> []"
    by (simp_all add: ascii_def)
  show ?thesis
  proof (cases "type = EVHTTP_REQ_POST \<and> body \<noteq> []")
    case False
    then show ?thesis by (auto simp: Srs_HandlerRequest_def session_cmd_def res_simps)
  next
    case post: True
    show ?thesis
    proof (cases "parse body")
      case None
      with post show ?thesis by (simp add: Srs_HandlerRequest_def session_cmd_def res_simps)
    next
      case (Some j)
      show ?thesis
      proof (cases "GetActionAndStream j")
        case (Inl f)
        then have False using assms post Some unfolding GetActionAndStream_fault lacks_client_id_def by blast
        then show ?thesis ..
      next
        case (Inr r)
        show ?thesis
        proof (cases r)
          case None
          with Inr Some post show ?thesis
            by (simp add: Srs_HandlerRequest_def Srs_HandlerJsonData_def session_cmd_def res_simps)
        next
          case r: (Some q)
          obtain a s c p where q: "q = (a, s, c, p)" by (cases q)
          have ne: "CheckDeviceIdStrFmt s \<Longrightarrow> s \<noteq> []" using fmt_device_id(3) by blast
          obtain b1 r1 b2 r2 where eff: "\<And>a. SessionPlay s c a st = (b1, r1)" "\<And>a. SessionStop s c a st = (b2, r2)"
            using app by (metis prod.exhaust)
          show ?thesis
            using Inr Some post r q lit ne
            by (cases "CheckDeviceIdStrFmt s")
              (simp_all add: Srs_HandlerRequest_def Srs_HandlerJsonData_def session_cmd_def res_simps eff)
        qed
      qed
    qed
  qed
qed

lemma on_play_step:
  "web_step parse (OnPlayRequest type body) st = Inr (st, [], []) \<or>
    (\<exists>s. CheckDeviceIdStrFmt s \<and> web_step parse (OnPlayRequest type body) st = Inr (NotifyStart s st))"
  by (auto simp: OnPlay_HandlerRequest_def OnPlay_HandlerJsonData_def res_simps split: option.splits)

lemma Web_OnClientConnect_fields [simp]:
  "ws_session_stat (Web_OnClientConnect b st) = ws_session_stat st" "ws_devices (Web_OnClientConnect b st) = ws_devices st"
  by (simp_all add: Web_OnClientConnect_def)

lemma Web_AsyncConnectServer_fields:
  "Web_AsyncConnectServer ce st = (ok, st', closed) \<Longrightarrow>
    ws_session_stat st' = ws_session_stat st \<and> ws_devices st' = ws_devices st"
  by (auto simp: Web_AsyncConnectServer_def Let_def split: if_splits prod.splits option.splits)

text \<open>The events of the connection change nothing but the connection and send nothing.\<close>

fun connection_event :: "web_event \<Rightarrow> bool" where
  "connection_event (WebClientWritable ev rd) = True"
| "connection_event (WebClientError e) = True"
| "connection_event (WebConnectTimer ce) = True"
| "connection_event ev = False"

lemma connection_step:
  "connection_event ev \<Longrightarrow> \<exists>st'. web_step parse ev st = Inr (st', [], []) \<and>
    ws_session_stat st' = ws_session_stat st \<and> ws_devices st' = ws_devices st"
proof (cases ev)
  case (WebClientWritable we rd)
  then show ?thesis by (auto split: option.split prod.split)
next
  case (WebClientError e)
  then show ?thesis by (auto simp: Web_OnClientError_def res_simps split: option.split prod.split)
next
  case (WebConnectTimer ce)
  then show ?thesis
    by (auto simp: Web_OnConnectTimer_def dest: Web_AsyncConnectServer_fields split: prod.split)
qed simp_all

lemma web_step_fault: "web_step parse ev st = Inl f \<longleftrightarrow> f = AssertFail \<and> lacks_client_id parse ev"
proof (cases ev)
  case (SessionRequest type body)
  then show ?thesis using session_request_fault by blast
next
  case (OnPlayRequest type body)
  then show ?thesis using on_play_step [of parse type body st] by (auto simp: lacks_client_id_def)
next
  case (Relayed packet)
  then show ?thesis by (simp add: lacks_client_id_def)
next
  case WebHeartbeatTimer
  then show ?thesis by (simp add: lacks_client_id_def Web_OnHeartbeatTimer_def)
qed (use connection_step [of ev parse st] in \<open>auto simp: lacks_client_id_def\<close>)

lemma session_cmd_fmt: "session_cmd parse type body = Some cmd \<Longrightarrow>
    \<exists>s c. CheckDeviceIdStrFmt s \<and> (cmd = Sub s c \<or> cmd = Unsub s c)"
  by (auto simp: session_cmd_def split: if_splits option.splits sum.splits)

section \<open>Invariants\<close>

definition web_inv :: "web_server \<Rightarrow> bool" where
  "web_inv st \<longleftrightarrow> (\<forall>s c. watches st s c \<longrightarrow> CheckDeviceIdStrFmt s \<and> opened_device st (GenerateDeviceId s))"

definition web_exact :: "web_server \<Rightarrow> bool" where
  "web_exact st \<longleftrightarrow> (\<forall>d. opened_device st d \<longrightarrow> (\<exists>s c. d = GenerateDeviceId s \<and> watches st s c))"

text \<open>What the posted tasks make of the worker's table, whatever packets come between them.\<close>

fun posted :: "packet_move list \<Rightarrow> device_id_t \<Rightarrow> bool \<Rightarrow> bool" where
  "posted [] d b = b"
| "posted (t # ts) d b = posted ts d
     (if task_device t \<noteq> Some d then b
      else if pm_type t AND IPC_PKT_TYPE_MASK = IPC_PKT_TYPE_SUBSCRIBE_DEVICE_ID then True
      else if pm_type t AND IPC_PKT_TYPE_MASK = IPC_PKT_TYPE_UNSUBSCRIBE_DEVICE_ID then False
      else b)"

lemma posted_append: "posted (ts @ ts') d b = posted ts' d (posted ts d b)"
  by (induction ts arbitrary: b) auto

lemma web_types [simp]:
  "web_sub AND IPC_PKT_TYPE_MASK = IPC_PKT_TYPE_SUBSCRIBE_DEVICE_ID"
  "web_unsub AND IPC_PKT_TYPE_MASK = IPC_PKT_TYPE_UNSUBSCRIBE_DEVICE_ID"
  "(IPC_PKT_TYPE_HEARTBEAT OR IPC_PKT_FROM_WEB_SERVER) AND IPC_PKT_TYPE_MASK = IPC_PKT_TYPE_HEARTBEAT"
  "IPC_PKT_TYPE_HEARTBEAT \<noteq> IPC_PKT_TYPE_SUBSCRIBE_DEVICE_ID"
  "IPC_PKT_TYPE_HEARTBEAT \<noteq> IPC_PKT_TYPE_UNSUBSCRIBE_DEVICE_ID"
  by (simp_all add: ipc_consts)

lemma posted_task:
  assumes "CheckDeviceIdStrFmt s" "ty = web_sub \<or> ty = web_unsub"
  defines "t \<equiv> PostPacket_move (InitIpcMovePacket ty s)"
  shows "task_device t = Some (GenerateDeviceId s)" "task_ok t" "pm_type t = ty"
proof -
  have l: "length s = 14" using fmt_device_id(4) [OF assms(1)] .
  have ts: "task_string t = Inr s"
    using l by (simp add: t_def PostPacket_move_def MoveFrom_def InitIpcMovePacket_def task_string_def Let_def)
  show ty: "pm_type t = ty" by (simp add: t_def PostPacket_move_def MoveFrom_def InitIpcMovePacket_def)
  have m: "pm_type t AND IPC_PKT_TYPE_MASK \<in> {IPC_PKT_TYPE_SUBSCRIBE_DEVICE_ID, IPC_PKT_TYPE_UNSUBSCRIBE_DEVICE_ID}"
    using assms(2) unfolding ty by auto
  then show d: "task_device t = Some (GenerateDeviceId s)"
    using ts by (auto simp: task_device_def Let_def)
  have "pm_type t AND IPC_PKT_TYPE_MASK \<noteq> IPC_PKT_TYPE_JT1078_PACKET"
    using m task_type_distinct by auto
  with d fmt_device_id(2) [OF assms(1)] show "task_ok t" by (simp add: task_ok_def)
qed

lemma web_step_cases:
  assumes "web_step parse ev st = Inr (st', reqs, tasks)"
  obtains (play) s c b where "event_cmds parse ev = [Sub s c]" "CheckDeviceIdStrFmt s" "\<not> connection_event ev"
      "SessionPlay s c [] st = (b, st', reqs, tasks)"
  | (stop) s c b where "event_cmds parse ev = [Unsub s c]" "CheckDeviceIdStrFmt s" "\<not> connection_event ev"
      "SessionStop s c [] st = (b, st', reqs, tasks)"
  | (start) s type body where "event_cmds parse ev = []" "CheckDeviceIdStrFmt s" "\<not> connection_event ev"
      "ev = OnPlayRequest type body" "NotifyStart s st = (st', reqs, tasks)"
  | (quiet) "event_cmds parse ev = []" "ws_session_stat st' = ws_session_stat st" "ws_devices st' = ws_devices st"
      "\<not> connection_event ev \<Longrightarrow> ws_client st' = ws_client st" "connection_event ev \<Longrightarrow> reqs = []"
      "\<forall>r \<in> set reqs. fst r AND IPC_PKT_TYPE_MASK = IPC_PKT_TYPE_HEARTBEAT"
      "tasks = [] \<or> (\<exists>p. ev = Relayed p \<and> tasks = Web_OnClientMessage p)"
proof (cases "connection_event ev")
  case True
  obtain st1 where c: "web_step parse ev st = Inr (st1, [], [])" "ws_session_stat st1 = ws_session_stat st"
    "ws_devices st1 = ws_devices st"
    using connection_step [OF True, of parse st] by auto
  have "event_cmds parse ev = []" using True by (cases ev) simp_all
  then show ?thesis by (rule quiet) (use c assms True in auto)
next
  case False
  show ?thesis
  proof (cases ev)
    case (SessionRequest type body)
    have "\<not> lacks_client_id parse ev"
      using assms web_step_fault [of parse ev st] by (metis sum.distinct(1))
    then have w: "web_step parse ev st = (case session_cmd parse type body of
         Some (Sub s c) \<Rightarrow> Inr (snd (SessionPlay s c [] st))
       | Some (Unsub s c) \<Rightarrow> Inr (snd (SessionStop s c [] st))
       | _ \<Rightarrow> Inr (st, [], []))"
      using session_request_step SessionRequest by blast
    show ?thesis
    proof (cases "session_cmd parse type body")
      case None
      with assms w have e: "st' = st" "reqs = []" "tasks = []" by simp_all
      from None have "event_cmds parse ev = []" by (simp add: SessionRequest)
      then show ?thesis by (rule quiet) (simp_all add: e)
    next
      case (Some cmd)
      then obtain s c where s: "CheckDeviceIdStrFmt s" "cmd = Sub s c \<or> cmd = Unsub s c"
        using session_cmd_fmt by blast
      from s(2) show ?thesis
      proof
        assume "cmd = Sub s c"
        with assms w Some s(1) False show ?thesis
          by (intro play [of s c "fst (SessionPlay s c [] st)"])
            (simp_all add: SessionRequest prod_eq_iff)
      next
        assume "cmd = Unsub s c"
        with assms w Some s(1) False show ?thesis
          by (intro stop [of s c "fst (SessionStop s c [] st)"])
            (simp_all add: SessionRequest prod_eq_iff)
      qed
    qed
  next
    case (OnPlayRequest type body)
    from on_play_step [of parse type body st] show ?thesis
    proof
      assume "web_step parse (OnPlayRequest type body) st = Inr (st, [], [])"
      with assms have e: "st' = st" "reqs = []" "tasks = []" by (simp_all add: OnPlayRequest)
      show ?thesis by (rule quiet) (simp_all add: e OnPlayRequest)
    next
      assume "\<exists>s. CheckDeviceIdStrFmt s \<and> web_step parse (OnPlayRequest type body) st = Inr (NotifyStart s st)"
      then obtain s where "CheckDeviceIdStrFmt s" "web_step parse (OnPlayRequest type body) st = Inr (NotifyStart s st)" by blast
      with assms show ?thesis by (intro start [of s type body]) (simp_all add: OnPlayRequest)
    qed
  next
    case (Relayed packet)
    with assms show ?thesis by (intro quiet) auto
  next
    case WebHeartbeatTimer
    with assms show ?thesis by (intro quiet) (auto simp: Web_OnHeartbeatTimer_def split: if_splits)
  qed (use False in simp_all)
qed

lemma NotifyStart_effect:
  assumes "NotifyStart s st = (st', reqs, tasks)"
  shows "watches st' s' c' = watches st s' c'" "ws_client st' = ws_client st"
    "opened_device st' d \<longleftrightarrow> opened_device st d \<or> d = GenerateDeviceId s"
    "(reqs, tasks) = (if \<not> opened_device st (GenerateDeviceId s)
       then (if web_connected st then [(web_sub, s)] else [], [PostPacket_move (InitIpcMovePacket web_sub s)])
       else ([], []))"
  using assms
  by (auto simp: NotifyStart_def GetDeviceIdFromStr_def opened_device_def watches_def Let_def split: if_splits)

lemma quiet_same:
  "ws_session_stat st' = ws_session_stat st \<Longrightarrow> watches st' s c = watches st s c"
  "ws_devices st' = ws_devices st \<Longrightarrow> opened_device st' d = opened_device st d"
  by (simp_all add: watches_def opened_device_def)

lemma web_step_watches:
  assumes "web_step parse ev st = Inr (st', reqs, tasks)"
  shows "watches st' s c = wants (event_cmds parse ev) s c (watches st s c)"
  using assms
proof (cases rule: web_step_cases)
  case (play s c b)
  with SessionPlay_effect(2) [OF play(4)] show ?thesis by auto
next
  case (stop s c b)
  with SessionStop_effect(2) [OF stop(4)] show ?thesis by auto
next
  case (start s type body)
  with NotifyStart_effect(1) [OF start(5)] show ?thesis by simp
next
  case quiet
  show ?thesis by (simp add: quiet(1) quiet_same(1) [OF quiet(2)])
qed

lemma web_step_inv:
  assumes "web_step parse ev st = Inr (st', reqs, tasks)" "web_inv st"
  shows "web_inv st'"
  using assms(1)
proof (cases rule: web_step_cases)
  case (play s c b)
  with SessionPlay_effect(2,4) [OF play(4)] assms(2) show ?thesis by (auto simp: web_inv_def)
next
  case (stop s c b)
  show ?thesis
    unfolding web_inv_def
  proof (intro allI impI)
    fix s' c' assume w: "watches st' s' c'"
    then have w0: "watches st s' c'" "\<not> (s' = s \<and> c' = c)" using SessionStop_effect(2) [OF stop(4)] by blast+
    then have i: "CheckDeviceIdStrFmt s'" "opened_device st (GenerateDeviceId s')" using assms(2) by (auto simp: web_inv_def)
    have "GenerateDeviceId s' = GenerateDeviceId s \<Longrightarrow> s' = s" using fmt_device_id_inj i(1) stop(2) by blast
    then show "CheckDeviceIdStrFmt s' \<and> opened_device st' (GenerateDeviceId s')"
      using SessionStop_effect(4) [OF stop(4), of "GenerateDeviceId s'"] i w0 by auto
  qed
next
  case (start s type body)
  with NotifyStart_effect(1,3) [OF start(5)] assms(2) show ?thesis by (auto simp: web_inv_def)
next
  case quiet
  show ?thesis using assms(2) by (simp add: web_inv_def quiet_same(1) [OF quiet(2)] quiet_same(2) [OF quiet(3)])
qed

lemma web_step_exact:
  assumes "web_step parse ev st = Inr (st', reqs, tasks)" "web_exact st" "\<And>t b. ev \<noteq> OnPlayRequest t b"
  shows "web_exact st'"
  using assms(1)
proof (cases rule: web_step_cases)
  case (play s c b)
  with SessionPlay_effect(2,4) [OF play(4)] assms(2) show ?thesis unfolding web_exact_def by metis
next
  case (stop s c b)
  with SessionStop_effect(2,4) [OF stop(4)] assms(2) show ?thesis unfolding web_exact_def by metis
next
  case (start s type body)
  with assms(3) show ?thesis by blast
next
  case quiet
  show ?thesis using assms(2) by (simp add: web_exact_def quiet_same(1) [OF quiet(2)] quiet_same(2) [OF quiet(3)])
qed

text \<open>The worker's table and the set of watched vehicles get the same changes.\<close>

lemma posted_single:
  assumes "CheckDeviceIdStrFmt s"
  shows "posted [PostPacket_move (InitIpcMovePacket web_sub s)] d b \<longleftrightarrow> b \<or> d = GenerateDeviceId s"
    "posted [PostPacket_move (InitIpcMovePacket web_unsub s)] d b \<longleftrightarrow> b \<and> d \<noteq> GenerateDeviceId s"
  using posted_task [OF assms, of web_sub] posted_task [OF assms, of web_unsub] task_type_distinct by auto

lemma relayed_not_posted: "posted (Web_OnClientMessage p) d b = b"
  using task_type_distinct
  by (auto simp: Web_OnClientMessage_def PostPacket_copy_def packet_move_of_packet_def CopyFrom_packet_def Let_def
      packet_move_uninit_def)

lemma web_step_posted:
  assumes "web_step parse ev st = Inr (st', reqs, tasks)" "web_inv st"
  shows "opened_device st' d = posted tasks d (opened_device st d)"
  using assms(1)
proof (cases rule: web_step_cases)
  case (play s c b)
  have "\<exists>c. watches st s c \<Longrightarrow> opened_device st (GenerateDeviceId s)" using assms(2) by (auto simp: web_inv_def)
  with SessionPlay_effect(4,5) [OF play(4)] posted_single(1) [OF play(2)] show ?thesis by (auto split: if_splits)
next
  case (stop s c b)
  with SessionStop_effect(4,5) [OF stop(4)] posted_single(2) [OF stop(2)] show ?thesis by (auto split: if_splits)
next
  case (start s type body)
  with NotifyStart_effect(3,4) [OF start(5)] posted_single(1) [OF start(2)] show ?thesis by (auto split: if_splits)
next
  case quiet
  show ?thesis using quiet(7) relayed_not_posted by (auto simp: quiet_same(2) [OF quiet(3)])
qed

section \<open>Lemmas on runs\<close>

lemma web_run_total:
  "\<forall>ev \<in> set evs. \<not> lacks_client_id parse ev \<Longrightarrow> \<exists>st' reqs tasks. web_run parse evs st = Inr (st', reqs, tasks)"
proof (induction evs arbitrary: st)
  case (Cons ev evs)
  then have "\<nexists>f. web_step parse ev st = Inl f" using web_step_fault by simp
  then obtain st1 reqs tasks where "web_step parse ev st = Inr (st1, reqs, tasks)"
    by (cases "web_step parse ev st") auto
  with Cons.IH [of st1] Cons.prems show ?case by (auto simp: res_simps)
qed simp

lemma web_run_ConsE:
  assumes "web_run parse (ev # evs) st = Inr (st', reqs, tasks)"
  obtains st1 r1 t1 r2 t2 where "web_step parse ev st = Inr (st1, r1, t1)" "web_run parse evs st1 = Inr (st', r2, t2)"
    "reqs = r1 @ r2" "tasks = t1 @ t2"
  using assms by (auto simp: rbind_eq_Inr)

lemma wants_append: "wants (cs @ ds) t x b = wants ds t x (wants cs t x b)"
  by (induction cs t x b rule: wants.induct) simp_all

lemma web_run_watches:
  "web_run parse evs st = Inr (st', reqs, tasks) \<Longrightarrow>
    watches st' s c = wants (concat (map (event_cmds parse) evs)) s c (watches st s c)"
proof (induction evs arbitrary: st reqs tasks)
  case (Cons ev evs)
  from Cons.prems show ?case
    by (rule web_run_ConsE) (simp add: Cons.IH web_step_watches wants_append)
qed simp

lemma web_run_inv: "web_run parse evs st = Inr (st', reqs, tasks) \<Longrightarrow> web_inv st \<Longrightarrow> web_inv st'"
proof (induction evs arbitrary: st reqs tasks)
  case (Cons ev evs)
  from Cons.prems(1) show ?case
    by (rule web_run_ConsE) (use Cons.IH Cons.prems(2) web_step_inv in blast)
qed simp

lemma web_run_exact:
  "web_run parse evs st = Inr (st', reqs, tasks) \<Longrightarrow> web_exact st \<Longrightarrow>
    \<forall>t b. OnPlayRequest t b \<notin> set evs \<Longrightarrow> web_exact st'"
proof (induction evs arbitrary: st reqs tasks)
  case (Cons ev evs)
  have "\<And>t b. ev \<noteq> OnPlayRequest t b" "\<forall>t b. OnPlayRequest t b \<notin> set evs"
    using Cons.prems(3) by auto
  with Cons.prems(1) show ?case
    by (elim web_run_ConsE) (use Cons.IH Cons.prems(2) web_step_exact in blast)
qed simp

lemma web_run_posted:
  "web_run parse evs st = Inr (st', reqs, tasks) \<Longrightarrow> web_inv st \<Longrightarrow>
    opened_device st' d = posted tasks d (opened_device st d)"
proof (induction evs arbitrary: st reqs tasks)
  case (Cons ev evs)
  from Cons.prems(1) show ?case
  proof (rule web_run_ConsE)
    fix st1 r1 t1 r2 t2
    assume a: "web_step parse ev st = Inr (st1, r1, t1)" "web_run parse evs st1 = Inr (st', r2, t2)" "tasks = t1 @ t2"
    show ?case
      using Cons.IH [OF a(2) web_step_inv [OF a(1) Cons.prems(2)]] web_step_posted [OF a(1) Cons.prems(2)]
      by (simp add: a(3) posted_append)
  qed
qed simp

lemma web_new_inv: "web_inv (WebServer_new rt)" "web_exact (WebServer_new rt)" "\<not> watches (WebServer_new rt) s c"
  "\<not> opened_device (WebServer_new rt) d"
  by (simp_all add: web_inv_def web_exact_def watches_def opened_device_def WebServer_new_def stat_get_def
      DeviceIdMgr_Exists_def)

text \<open>The tasks a run posts are well-formed if the relayed packets are.\<close>

definition relayed_ok :: "web_event \<Rightarrow> bool" where
  "relayed_ok ev \<longleftrightarrow> (\<forall>p. ev = Relayed p \<longrightarrow>
     m_uPktType p AND IPC_PKT_TYPE_MASK = IPC_PKT_TYPE_JT1078_PACKET \<longrightarrow> task_ok (PostPacket_copy p))"

lemma web_run_tasks_ok:
  "web_run parse evs st = Inr (st', reqs, tasks) \<Longrightarrow> \<forall>ev \<in> set evs. relayed_ok ev \<Longrightarrow> \<forall>t \<in> set tasks. task_ok t"
proof (induction evs arbitrary: st reqs tasks)
  case (Cons ev evs)
  from Cons.prems(1) show ?case
  proof (rule web_run_ConsE)
    fix st1 r1 t1 r2 t2
    assume a: "web_step parse ev st = Inr (st1, r1, t1)" "web_run parse evs st1 = Inr (st', r2, t2)" "tasks = t1 @ t2"
    from a(1) have "\<forall>t \<in> set t1. task_ok t"
    proof (cases rule: web_step_cases)
      case (play s c b)
      with SessionPlay_effect(5) [OF play(4)] posted_task(2) [OF play(2), of web_sub] show ?thesis by (auto split: if_splits)
    next
      case (stop s c b)
      with SessionStop_effect(5) [OF stop(4)] posted_task(2) [OF stop(2), of web_unsub] show ?thesis by (auto split: if_splits)
    next
      case (start s type body)
      with NotifyStart_effect(4) [OF start(5)] posted_task(2) [OF start(2), of web_sub] show ?thesis by (auto split: if_splits)
    next
      case quiet
      from quiet(7) Cons.prems(2) show ?thesis by (auto simp: relayed_ok_def Web_OnClientMessage_def)
    qed
    with Cons.IH [OF a(2)] Cons.prems(2) show ?case by (simp add: a(3) ball_Un)
  qed
qed simp

text \<open>The worker's table after the posted tasks.\<close>

lemma work_posted:
  "thread_ok th \<Longrightarrow> jobs_ok js \<Longrightarrow> \<exists>th' outs refused. work js th = Inr (th', outs, refused) \<and> thread_ok th' \<and>
    (\<forall>d b. (sm_find (rt_mgr th) d \<noteq> None \<longrightarrow> b) \<longrightarrow>
      (sm_find (rt_mgr th') d \<noteq> None \<longrightarrow> posted (map (\<lambda>(l, e, t). t) js) d b)) \<and>
    (\<forall>d b. (b \<longrightarrow> sm_find (rt_mgr th) d \<noteq> None) \<longrightarrow> d \<notin> set refused \<longrightarrow>
      (posted (map (\<lambda>(l, e, t). t) js) d b \<longrightarrow> sm_find (rt_mgr th') d \<noteq> None))"
proof (induction js arbitrary: th)
  case (Cons j js)
  obtain left env task where j: "j = (left, env, task)" by (cases j)
  obtain th1 out e where s: "HandlerTask left env task th = Inr (th1, out)" "thread_ok th1" "jobs_ok js"
    "task_device task = Some e" "\<forall>x. x \<noteq> e \<longrightarrow> sm_find (rt_mgr th1) x = sm_find (rt_mgr th) x"
    "\<forall>(x, out) \<in> set out. x = e" "\<forall>f \<in> set (pcm_frames (map snd out)). length f = 2048"
    "pm_type task AND IPC_PKT_TYPE_MASK = IPC_PKT_TYPE_SUBSCRIBE_DEVICE_ID \<longrightarrow> sm_find (rt_mgr th1) e \<noteq> None"
    "pm_type task AND IPC_PKT_TYPE_MASK = IPC_PKT_TYPE_UNSUBSCRIBE_DEVICE_ID \<longrightarrow> sm_find (rt_mgr th1) e = None"
    "pm_type task AND IPC_PKT_TYPE_MASK = IPC_PKT_TYPE_JT1078_PACKET \<longrightarrow> sm_find (rt_mgr th) e = None \<longrightarrow>
      sm_find (rt_mgr th1) e = None"
    by (rule work_ConsE [OF Cons.prems(1) Cons.prems(2) [unfolded j]])
  have ty: "pm_type task AND IPC_PKT_TYPE_MASK \<in>
      {IPC_PKT_TYPE_SUBSCRIBE_DEVICE_ID, IPC_PKT_TYPE_UNSUBSCRIBE_DEVICE_ID, IPC_PKT_TYPE_JT1078_PACKET}"
    using s(4) by (auto simp: task_device_def Let_def split: if_splits)
  obtain th' outs refused where w: "work js th1 = Inr (th', outs, refused)" "thread_ok th'"
    and sub: "\<And>d b. (sm_find (rt_mgr th1) d \<noteq> None \<longrightarrow> b) \<Longrightarrow>
      (sm_find (rt_mgr th') d \<noteq> None \<longrightarrow> posted (map (\<lambda>(l, e, t). t) js) d b)"
    and sup: "\<And>d b. (b \<longrightarrow> sm_find (rt_mgr th1) d \<noteq> None) \<Longrightarrow> d \<notin> set refused \<Longrightarrow>
      (posted (map (\<lambda>(l, e, t). t) js) d b \<longrightarrow> sm_find (rt_mgr th') d \<noteq> None)"
    using Cons.IH [OF s(2,3)] by blast
  define new where "new = (if pm_type task AND IPC_PKT_TYPE_MASK = IPC_PKT_TYPE_JT1078_PACKET \<and>
      (\<exists>c. GetRtmpClient e (rt_mgr th) = Some c) \<and> GetRtmpClient e (rt_mgr th1) = None then [e] else [])"
  have run: "work (j # js) th = Inr (th', out @ outs, new @ refused)"
    using s(1,4) w(1) by (simp add: j res_simps new_def)
  define upd where "upd d b = (if task_device task \<noteq> Some d then b
      else if pm_type task AND IPC_PKT_TYPE_MASK = IPC_PKT_TYPE_SUBSCRIBE_DEVICE_ID then True
      else if pm_type task AND IPC_PKT_TYPE_MASK = IPC_PKT_TYPE_UNSUBSCRIBE_DEVICE_ID then False else b)" for d b
  have p: "posted (map (\<lambda>(l, e, t). t) (j # js)) d b = posted (map (\<lambda>(l, e, t). t) js) d (upd d b)" for d b
    by (simp add: j upd_def)
  have u1: "sm_find (rt_mgr th1) d \<noteq> None \<longrightarrow> upd d b" if "sm_find (rt_mgr th) d \<noteq> None \<longrightarrow> b" for d b
    using that s(4,5,8-10) ty by (cases "d = e") (auto simp: upd_def)
  have u2: "upd d b \<longrightarrow> sm_find (rt_mgr th1) d \<noteq> None"
    if "b \<longrightarrow> sm_find (rt_mgr th) d \<noteq> None" "d \<notin> set new" for d b
    using that s(4,5,8-10) ty task_type_distinct
    by (cases "d = e") (auto simp: upd_def new_def GetRtmpClient_def split: if_splits)
  have a: "sm_find (rt_mgr th') d \<noteq> None \<longrightarrow> posted (map (\<lambda>(l, e, t). t) (j # js)) d b"
    if "sm_find (rt_mgr th) d \<noteq> None \<longrightarrow> b" for d b
    unfolding p by (rule sub [OF u1 [OF that]])
  have b: "posted (map (\<lambda>(l, e, t). t) (j # js)) d b \<longrightarrow> sm_find (rt_mgr th') d \<noteq> None"
    if "b \<longrightarrow> sm_find (rt_mgr th) d \<noteq> None" "d \<notin> set (new @ refused)" for d b
    unfolding p using sup [OF u2 [OF that(1)]] that(2) by simp
  show ?case
    by (intro exI conjI) (rule run, rule w(2), use a in blast, use b in blast)
qed simp

section \<open>Lemmas on the requests sent upstream\<close>

lemma upstream_heartbeats:
  "\<forall>r \<in> set reqs. fst r AND IPC_PKT_TYPE_MASK = IPC_PKT_TYPE_HEARTBEAT \<Longrightarrow> upstream reqs d b = b"
  by (induction reqs arbitrary: b) auto

lemma web_step_upstream:
  assumes "web_step parse ev st = Inr (st', reqs, tasks)" "web_inv st" "web_connected st" "\<not> connection_event ev"
  shows "upstream reqs d (opened_device st d) = opened_device st' d" "web_connected st'"
    "opened_device st d \<Longrightarrow> (\<forall>str. (web_unsub, str) \<in> set reqs \<longrightarrow> GenerateDeviceId str \<noteq> d) \<Longrightarrow>
      opened_device st' d \<and> \<not> upstream reqs d False"
proof -
  have "upstream reqs d (opened_device st d) = opened_device st' d \<and> web_connected st' \<and>
    (opened_device st d \<longrightarrow> (\<forall>str. (web_unsub, str) \<in> set reqs \<longrightarrow> GenerateDeviceId str \<noteq> d) \<longrightarrow>
      opened_device st' d \<and> \<not> upstream reqs d False)"
    using assms(1)
  proof (cases rule: web_step_cases)
    case (play s c b)
    have "\<exists>c. watches st s c \<Longrightarrow> opened_device st (GenerateDeviceId s)" using assms(2) by (auto simp: web_inv_def)
    with SessionPlay_effect(3-5) [OF play(4)] assms(3) show ?thesis
      by (auto simp: web_connected_def split: if_splits)
  next
    case (stop s c b)
    with SessionStop_effect(3-5) [OF stop(4)] assms(3) show ?thesis
      by (auto simp: web_connected_def split: if_splits)
  next
    case (start s type body)
    with NotifyStart_effect(2-4) [OF start(5)] assms(3) show ?thesis
      by (auto simp: web_connected_def split: if_splits)
  next
    case quiet
    show ?thesis
      using assms(3,4) quiet(4) upstream_heartbeats [OF quiet(6)]
      by (simp add: quiet_same(2) [OF quiet(3)] web_connected_def)
  qed
  then show "upstream reqs d (opened_device st d) = opened_device st' d" "web_connected st'"
    "opened_device st d \<Longrightarrow> (\<forall>str. (web_unsub, str) \<in> set reqs \<longrightarrow> GenerateDeviceId str \<noteq> d) \<Longrightarrow>
      opened_device st' d \<and> \<not> upstream reqs d False"
    by blast+
qed

lemma web_run_upstream:
  "web_run parse evs st = Inr (st', reqs, tasks) \<Longrightarrow> web_inv st \<Longrightarrow> web_connected st \<Longrightarrow>
    \<forall>ev \<in> set evs. \<not> connection_event ev \<Longrightarrow>
    upstream reqs d (opened_device st d) = opened_device st' d \<and>
    (opened_device st d \<longrightarrow> (\<forall>str. (web_unsub, str) \<in> set reqs \<longrightarrow> GenerateDeviceId str \<noteq> d) \<longrightarrow>
      opened_device st' d \<and> \<not> upstream reqs d False)"
proof (induction evs arbitrary: st reqs tasks)
  case (Cons ev evs)
  from Cons.prems(1) show ?case
  proof (rule web_run_ConsE)
    fix st1 r1 t1 r2 t2
    assume a: "web_step parse ev st = Inr (st1, r1, t1)" "web_run parse evs st1 = Inr (st', r2, t2)" "reqs = r1 @ r2"
    have n: "\<not> connection_event ev" "\<forall>ev \<in> set evs. \<not> connection_event ev" using Cons.prems(4) by simp_all
    note s = web_step_upstream [OF a(1) Cons.prems(2,3) n(1)]
    note ih = Cons.IH [OF a(2) web_step_inv [OF a(1) Cons.prems(2)] s(2) n(2)]
    show ?case
      using s(1,3) [of d] ih by (auto simp: a(3) upstream_append)
  qed
qed simp

lemma connection_run:
  "\<forall>ev \<in> set evs. connection_event ev \<Longrightarrow> web_run parse evs st = Inr (st', reqs, tasks) \<Longrightarrow>
    reqs = [] \<and> tasks = [] \<and> ws_session_stat st' = ws_session_stat st \<and> ws_devices st' = ws_devices st"
proof (induction evs arbitrary: st reqs tasks)
  case (Cons ev evs)
  obtain st1 where "web_step parse ev st = Inr (st1, [], [])" "ws_session_stat st1 = ws_session_stat st"
    "ws_devices st1 = ws_devices st"
    using connection_step [of ev parse st] Cons.prems(1) by auto
  with Cons.IH [of st1] Cons.prems show ?case by (auto simp: rbind_eq_Inr res_simps)
qed simp

lemma web_run_append:
  "web_run parse (evs @ evs') st = rbind (web_run parse evs st) (\<lambda>(st, reqs, tasks).
    rbind (web_run parse evs' st) (\<lambda>(st, reqs', tasks'). Inr (st, reqs @ reqs', tasks @ tasks')))"
proof (induction evs arbitrary: st)
  case Nil
  then show ?case by (cases "web_run parse evs' st") (auto simp: res_simps)
next
  case (Cons ev evs)
  show ?case
  proof (cases "web_step parse ev st")
    case (Inr r)
    obtain st1 r1 t1 where r: "r = (st1, r1, t1)" by (cases r)
    show ?thesis
    proof (cases "web_run parse evs st1")
      case (Inl f)
      with Inr show ?thesis by (simp add: r Cons.IH res_simps)
    next
      case inr: (Inr q)
      then show ?thesis
        by (cases q; cases "web_run parse evs' (fst q)") (auto simp: Inr r Cons.IH res_simps)
    qed
  qed (simp add: res_simps)
qed

text \<open>The callback of the README, without \<open>app\<close>, starts and stops nobody.\<close>

lemma callback_without_app_rejected:
  assumes "parse body = Some j" "body \<noteq> []" "json_at_string j ''app'' = None"
  shows "Srs_HandlerRequest parse EVHTTP_REQ_POST body st = Inr (BadRequest, st, [], [])"
  using assms by (simp add: Srs_HandlerRequest_def Srs_HandlerJsonData_def GetActionAndStream_def res_simps
      split: option.split)

section \<open>Properties\<close>

text \<open>
  C37. Who watches what, going by the callbacks the server accepts: a POST whose JSON has the texts
  \<open>action\<close>, \<open>stream\<close> (14 digits), \<open>app\<close> (live or replay) and a \<open>client_id\<close> (\<open>session_cmd\<close>); a
  callback without \<open>app\<close>, the one the README documents, is rejected and changes nothing
  (\<open>callback_without_app_rejected\<close>). A run in which every callback with the three texts names its
  client ends without a fault; a player watches a stream exactly if the last accepted callback about
  it and the stream said that it started; a vehicle somebody watches is open; and as long as no page
  opens channels through the other address, only vehicles somebody watches are open.
\<close>

theorem web_viewers:
  assumes "\<forall>ev \<in> set evs. \<not> lacks_client_id parse ev"
  shows "\<exists>st reqs tasks. web_run parse evs (WebServer_new realtime) = Inr (st, reqs, tasks) \<and>
    (\<forall>s c. watches st s c \<longleftrightarrow> wants (concat (map (event_cmds parse) evs)) s c False) \<and>
    (\<forall>s c. watches st s c \<longrightarrow> opened_device st (GenerateDeviceId s)) \<and>
    ((\<forall>t b. OnPlayRequest t b \<notin> set evs) \<longrightarrow>
      (\<forall>d. opened_device st d \<longrightarrow> (\<exists>s c. d = GenerateDeviceId s \<and> watches st s c)))"
proof -
  obtain st reqs tasks where r: "web_run parse evs (WebServer_new realtime) = Inr (st, reqs, tasks)"
    using web_run_total [OF assms] by blast
  have "\<forall>s c. watches st s c \<longleftrightarrow> wants (concat (map (event_cmds parse) evs)) s c False"
    using web_run_watches [OF r] web_new_inv(3) by simp
  moreover have "\<forall>s c. watches st s c \<longrightarrow> opened_device st (GenerateDeviceId s)"
    using web_run_inv [OF r web_new_inv(1)] unfolding web_inv_def by blast
  moreover have "(\<forall>t b. OnPlayRequest t b \<notin> set evs) \<longrightarrow>
      (\<forall>d. opened_device st d \<longrightarrow> (\<exists>s c. d = GenerateDeviceId s \<and> watches st s c))"
    using web_run_exact [OF r web_new_inv(2)] unfolding web_exact_def by blast
  ultimately show ?thesis using r by blast
qed

text \<open>
  C38. The worker follows the server: when the worker has handled every task a run posted, with
  well-formed packets (as in C27) relayed in between, and libav's container has an audio stream and its
  encoder takes frames of 2048 bytes, whatever else libav answered, it did so without a fault; every
  RTMP client belongs to an open vehicle, and every open vehicle has its client unless it lost it by
  refusing a packet.
\<close>

theorem web_rtmp_in_step:
  assumes "web_run parse evs (WebServer_new realtime) = Inr (st, reqs, tasks)"
    "\<forall>ev \<in> set evs. relayed_ok ev" "map (\<lambda>(l, e, t). t) jobs = tasks" "\<forall>(l, e, t) \<in> set jobs. env_ok e"
  shows "\<exists>th outs refused. work jobs (RtmpThread_new url1 url2 realtime) = Inr (th, outs, refused) \<and>
    (\<forall>d. sm_find (rt_mgr th) d \<noteq> None \<longrightarrow> opened_device st d) \<and>
    (\<forall>d. opened_device st d \<longrightarrow> d \<in> set refused \<or> sm_find (rt_mgr th) d \<noteq> None)"
proof -
  let ?th = "RtmpThread_new url1 url2 realtime"
  have ok: "thread_ok ?th" "sm_find (rt_mgr ?th) d = None" for d
    by (simp_all add: thread_ok_def RtmpThread_new_def)
  have "task_ok t" if "(l, e, t) \<in> set jobs" for l e t
    using web_run_tasks_ok [OF assms(1,2)] that unfolding assms(3) [symmetric] by force
  with assms(4) have jobs: "jobs_ok jobs" by (auto simp: jobs_ok_def)
  have o: "opened_device st d = posted tasks d False" for d
    using web_run_posted [OF assms(1) web_new_inv(1)] web_new_inv(4) by simp
  obtain th outs refused where w: "work jobs ?th = Inr (th, outs, refused)"
    "\<And>d b. (sm_find (rt_mgr ?th) d \<noteq> None \<longrightarrow> b) \<Longrightarrow> (sm_find (rt_mgr th) d \<noteq> None \<longrightarrow> posted tasks d b)"
    "\<And>d b. (b \<longrightarrow> sm_find (rt_mgr ?th) d \<noteq> None) \<Longrightarrow> d \<notin> set refused \<Longrightarrow>
      (posted tasks d b \<longrightarrow> sm_find (rt_mgr th) d \<noteq> None)"
    using work_posted [OF ok(1) jobs] unfolding assms(3) by blast
  from w(2) [where b = False] w(3) [where b = False] ok(2) have
    "\<forall>d. sm_find (rt_mgr th) d \<noteq> None \<longrightarrow> posted tasks d False"
    "\<forall>d. posted tasks d False \<longrightarrow> d \<in> set refused \<or> sm_find (rt_mgr th) d \<noteq> None" by blast+
  with w(1) show ?thesis unfolding o by blast
qed

text \<open>
  C39. One request stops the server: a run ends in a fault exactly if it contains a callback whose JSON
  object has the three texts \<open>action\<close>, \<open>stream\<close> and \<open>app\<close>, of whatever content, and no
  \<open>client_id\<close>, and the fault is the assertion of the JSON library.
\<close>

theorem web_stops_without_client_id:
  "web_run parse evs st = Inl f \<longleftrightarrow> f = AssertFail \<and> (\<exists>ev \<in> set evs. lacks_client_id parse ev)"
proof (induction evs arbitrary: st)
  case (Cons ev evs)
  show ?case
  proof (cases "web_step parse ev st")
    case (Inl g)
    then show ?thesis using web_step_fault [of parse ev st g] by (auto simp: res_simps)
  next
    case (Inr r)
    obtain st1 r1 t1 where r: "r = (st1, r1, t1)" by (cases r)
    have "\<not> lacks_client_id parse ev" using web_step_fault [of parse ev st AssertFail] Inr by simp
    moreover have "web_run parse (ev # evs) st = Inl f \<longleftrightarrow> web_run parse evs st1 = Inl f"
      using Inr r by (cases "web_run parse evs st1") (auto simp: res_simps)
    ultimately show ?thesis using Cons.IH [of st1] by simp
  qed
qed simp

text \<open>
  C40. A reconnection loses the vehicles that are being watched. When the connection to jt1078_server
  has been lost and made again (in a run of connection events that ends connected), then in every run that goes on
  without another connection event and without a fault, jt1078_server is subscribed to a vehicle that was not
  open before exactly while it is open, but to none that was open and has not been unsubscribed from since,
  although that one is still open.
\<close>

theorem reconnection_loses_watched:
  assumes "web_inv st" "\<forall>ev \<in> set lost. connection_event ev" "web_run parse lost st = Inr (st1, reqs1, tasks1)"
    "web_connected st1" "\<forall>ev \<in> set evs. \<not> connection_event ev"
    "web_run parse (lost @ evs) st = Inr (st', reqs, tasks)"
  shows "(\<not> opened_device st d \<longrightarrow> (upstream reqs d False \<longleftrightarrow> opened_device st' d)) \<and>
    (opened_device st d \<and> (\<forall>str. (web_unsub, str) \<in> set reqs \<longrightarrow> GenerateDeviceId str \<noteq> d) \<longrightarrow>
      opened_device st' d \<and> \<not> upstream reqs d False)"
proof -
  note c = connection_run [OF assms(2,3)]
  then have e: "reqs1 = []" "\<And>x. opened_device st1 x = opened_device st x" "web_inv st1"
    using assms(1) by (simp_all add: opened_device_def web_inv_def watches_def)
  obtain t2 where "web_run parse evs st1 = Inr (st', reqs, t2)"
    using assms(6) by (auto simp: web_run_append assms(3) e(1) rbind_eq_Inr res_simps)
  from web_run_upstream [OF this e(3) assms(4,5), of d] show ?thesis by (auto simp: e(2))
qed

section \<open>Witnesses\<close>

definition sample_parse :: "byte list \<Rightarrow> json option" where
  "sample_parse body =
     (if body = [1] then Some (JObject [(''action'', JString (ascii ''on_play'')), (''client_id'', JNumber 7),
        (''stream'', JString (ascii ''01395221031201'')), (''app'', JString (ascii ''live''))])
      else if body = [2] then Some (JObject [(''action'', JString (ascii ''on_play'')),
        (''stream'', JString (ascii ''01395221031201'')), (''app'', JString (ascii ''live''))])
      else None)"

abbreviation sample_text :: cstring where "sample_text \<equiv> ascii ''01395221031201''"

lemma sample_text_ok: "CheckDeviceIdStrFmt sample_text"
proof -
  have l: "[0..<14] = [0, 1, 2, 3, 4, 5, 6, 7, 8, 9, 10, 11, 12, 13 :: nat]" by (simp add: upt_rec)
  show ?thesis
    unfolding CheckDeviceIdStrFmt_def l by (simp add: ascii_def is_digit_def)
qed

lemma sample_play:
  "session_cmd sample_parse EVHTTP_REQ_POST [1] = Some (Sub sample_text (ascii ''7''))"
  "\<not> lacks_client_id sample_parse (SessionRequest EVHTTP_REQ_POST [1])"
  "lacks_client_id sample_parse (SessionRequest EVHTTP_REQ_POST [2])"
proof -
  have n: "int_to_string (sint (of_int 7 :: 32 word)) = ascii ''7''"
    by (simp add: int_to_string_def digits.simps ascii_def)
  have "GetActionAndStream (the (sample_parse [1])) = Inr (Some (ascii ''on_play'', sample_text, ascii ''7'', ascii ''live''))"
    unfolding n [symmetric] by (simp add: GetActionAndStream_def sample_parse_def json_at_string_def)
  then show "session_cmd sample_parse EVHTTP_REQ_POST [1] = Some (Sub sample_text (ascii ''7''))"
    using sample_text_ok by (simp add: session_cmd_def sample_parse_def)
  show "\<not> lacks_client_id sample_parse (SessionRequest EVHTTP_REQ_POST [1])"
    "lacks_client_id sample_parse (SessionRequest EVHTTP_REQ_POST [2])"
    by (simp_all add: lacks_client_id_def sample_parse_def)
qed

theorem web_viewers_witness:
  "\<exists>st reqs tasks. web_run sample_parse [SessionRequest EVHTTP_REQ_POST [1]] (WebServer_new True) = Inr (st, reqs, tasks) \<and>
    watches st sample_text (ascii ''7'') \<and> opened_device st (GenerateDeviceId sample_text)"
proof -
  let ?evs = "[SessionRequest EVHTTP_REQ_POST [1]]"
  have a: "\<forall>ev \<in> set ?evs. \<not> lacks_client_id sample_parse ev" using sample_play(2) by simp
  have w: "wants (concat (map (event_cmds sample_parse) ?evs)) sample_text (ascii ''7'') False"
    by (simp add: sample_play(1))
  from web_viewers [OF a, of True] w show ?thesis by blast
qed

lemma sample_web_run:
  obtains st where "web_run sample_parse [SessionRequest EVHTTP_REQ_POST [1]] (WebServer_new True) =
      Inr (st, [], [PostPacket_move (InitIpcMovePacket web_sub sample_text)])"
    "opened_device st (GenerateDeviceId sample_text)"
proof -
  obtain b st reqs tasks where p: "SessionPlay sample_text (ascii ''7'') [] (WebServer_new True) = (b, st, reqs, tasks)"
    by (metis prod_cases4)
  have "\<not> web_connected (WebServer_new True)" by (simp add: web_connected_def WebServer_new_def)
  then have e: "reqs = []" "tasks = [PostPacket_move (InitIpcMovePacket web_sub sample_text)]"
    "opened_device st (GenerateDeviceId sample_text)"
    using SessionPlay_effect(4,5) [OF p] web_new_inv(3,4) by auto
  have "web_step sample_parse (SessionRequest EVHTTP_REQ_POST [1]) (WebServer_new True) = Inr (st, reqs, tasks)"
    using session_request_step [OF sample_play(2), of "WebServer_new True"] by (simp add: sample_play(1) p)
  then show ?thesis using e by (intro that [of st]) (simp_all add: res_simps del: web_step.simps)
qed

theorem web_rtmp_in_step_witness:
  "\<exists>th outs refused. work [(CtxNull, sample_env 0, PostPacket_move (InitIpcMovePacket web_sub sample_text))]
      (RtmpThread_new [114] [] True) = Inr (th, outs, refused) \<and>
    (GenerateDeviceId sample_text \<in> set refused \<or> sm_find (rt_mgr th) (GenerateDeviceId sample_text) \<noteq> None)"
proof -
  obtain st where st: "web_run sample_parse [SessionRequest EVHTTP_REQ_POST [1]] (WebServer_new True) =
      Inr (st, [], [PostPacket_move (InitIpcMovePacket web_sub sample_text)])"
    "opened_device st (GenerateDeviceId sample_text)"
    by (rule sample_web_run)
  have "\<forall>ev \<in> set [SessionRequest EVHTTP_REQ_POST [1]]. relayed_ok ev" by (simp add: relayed_ok_def)
  from web_rtmp_in_step [OF st(1) this, of "[(CtxNull, sample_env 0, PostPacket_move (InitIpcMovePacket web_sub sample_text))]"
      "[114]" "[]"] st(2) sample_env_ok show ?thesis by auto
qed

definition sample_connect :: connect_env where
  "sample_connect = \<lparr>ce_ip = [49], ce_port = 80, ce_session_id = 2, ce_loop = 0, ce_new_fd = 5, ce_nonblock = True,
     ce_connect = ConnNow, ce_write_event = True, ce_read_event = True\<rparr>"

definition web_sample :: web_server where
  "web_sample = (WebServer_new True)\<lparr>ws_client := Some ((Jt1078Client_new 1)\<lparr>tc_connected := True\<rparr>), ws_devices := [(5, ())]\<rparr>"

theorem reconnection_loses_watched_witness:
  "\<exists>st'. web_run sample_parse ([WebClientError TCP_ERROR_DISCONNECT, WebConnectTimer sample_connect] @ [WebHeartbeatTimer])
      web_sample = Inr (st', [], []) \<and> opened_device st' 5 \<and> \<not> upstream [] 5 False"
proof -
  let ?lost = "[WebClientError TCP_ERROR_DISCONNECT, WebConnectTimer sample_connect]"
  have i: "web_inv web_sample" "opened_device web_sample 5"
    by (simp_all add: web_inv_def watches_def web_sample_def WebServer_new_def stat_get_def opened_device_def DeviceIdMgr_Exists_def)
  have l: "\<forall>ev \<in> set ?lost. connection_event ev" "\<forall>ev \<in> set [WebHeartbeatTimer]. \<not> connection_event ev" by simp_all
  have "\<exists>st1. web_run sample_parse ?lost web_sample = Inr (st1, [], []) \<and> web_connected st1 \<and> \<not> ws_heartbeat_timer st1"
    by (simp add: web_sample_def WebServer_new_def Jt1078Client_OnError_def Web_OnClientError_def res_simps
        Web_OnConnectTimer_def Web_AsyncConnectServer_def sample_connect_def AsyncConnect_def SocketConnect_def
        INVALID_SOCKET_def Let_def Jt1078Client_OnConnected_def Web_OnClientConnect_def web_connected_def
        InitReadEvent_def TcpSession_Init_def FreeWriteEvent_def)
  then obtain st1 where s: "web_run sample_parse ?lost web_sample = Inr (st1, [], [])" "web_connected st1"
    "\<not> ws_heartbeat_timer st1" by blast
  then have r: "web_run sample_parse (?lost @ [WebHeartbeatTimer]) web_sample = Inr (st1, [], [])"
    by (simp only: web_run_append) (simp add: res_simps)
  have "opened_device st1 5 \<and> \<not> upstream [] 5 False"
    using reconnection_loses_watched [OF i(1) l(1) s(1,2) l(2) r, of 5] i(2) by simp
  with r show ?thesis by blast
qed

end
