(* ===== verification/Work_Queue.thy ===== *)
theory Work_Queue
  imports Prelude
begin

text \<open>
  The worker thread of src/web_server/thread: the blocking queue SafeQueue and the thread WorkThread
  that drains it, as two threads that interleave.  A thread's position is a constructor; a section
  under the queue's mutex is one step, its notification after the unlock is another, and a thread
  that waits on a condition variable only goes on when it is notified or wakes up spuriously.  The
  lemmas show that no wake-up is lost, that the interleaving computes what handling the tasks one
  after the other computes, and that every schedule ends; they are then used for RtmpThread.
\<close>

section \<open>The two threads\<close>

text \<open>
  The functions a derived class supplies, and the queue's capacity; a task is a shared pointer, \<open>None\<close>
  the null pointer.
\<close>

record ('t, 'w) worker_class =
  m_max_size :: nat
  terminate_task :: 't
  is_terminate :: "'t \<Rightarrow> bool"
  handler_task :: "'t option \<Rightarrow> 'w \<Rightarrow> fault + 'w"

text \<open>The public calls of the thread that owns the worker.\<close>

datatype 't owner_call = Start bool | Post "'t option" | Stop | Join

datatype 't owner_pc =
    Ready | Starting | Push "'t option" | PushBlocked "'t option" | PushNotify | Joining

datatype 't worker_pc =
    NotCreated | Beginning | Pop | PopBlocked | PopNotify "'t option" | Handle "'t option" | Ended
  | Crashed fault

text \<open>\<open>wt_thread\<close> is \<open>m_thread\<close>: null, or whether it is joinable.\<close>

record ('t, 'w) work_thread =
  wt_queue :: "'t option list"
  wt_running :: bool
  wt_thread :: "bool option"
  wt_owner :: "'t owner_pc"
  wt_program :: "'t owner_call list"
  wt_worker :: "'t worker_pc"
  wt_state :: 'w

definition WorkThread_new :: "'t owner_call list \<Rightarrow> 'w \<Rightarrow> ('t, 'w) work_thread" where
  "WorkThread_new program w =
     \<lparr>wt_queue = [], wt_running = False, wt_thread = None, wt_owner = Ready, wt_program = program,
      wt_worker = NotCreated, wt_state = w\<rparr>"

text \<open>\<open>PushBack\<close>: waiting for room and inserting under the lock, then the notification.\<close>

definition PushBack_locked ::
  "('t, 'w) worker_class \<Rightarrow> 't option \<Rightarrow> ('t, 'w) work_thread \<Rightarrow> ('t, 'w) work_thread" where
  "PushBack_locked wc t st =
     (if length (wt_queue st) < m_max_size wc
      then st\<lparr>wt_queue := wt_queue st @ [t], wt_owner := PushNotify\<rparr>
      else st\<lparr>wt_owner := PushBlocked t\<rparr>)"

definition PushBack_notify :: "('t, 'w) work_thread \<Rightarrow> ('t, 'w) work_thread" where
  "PushBack_notify st =
     st\<lparr>wt_owner := Ready, wt_worker := (case wt_worker st of PopBlocked \<Rightarrow> Pop | pc \<Rightarrow> pc)\<rparr>"

text \<open>\<open>PopFront\<close>: waiting for a task and taking it under the lock, then the notification.\<close>

definition PopFront_locked :: "('t, 'w) work_thread \<Rightarrow> ('t, 'w) work_thread" where
  "PopFront_locked st =
     (case wt_queue st of
        [] \<Rightarrow> st\<lparr>wt_worker := PopBlocked\<rparr>
      | t # ts \<Rightarrow> st\<lparr>wt_queue := ts, wt_worker := PopNotify t\<rparr>)"

definition PopFront_notify :: "'t option \<Rightarrow> ('t, 'w) work_thread \<Rightarrow> ('t, 'w) work_thread" where
  "PopFront_notify t st =
     st\<lparr>wt_owner := (case wt_owner st of PushBlocked t' \<Rightarrow> Push t' | pc \<Rightarrow> pc), wt_worker := Handle t\<rparr>"

text \<open>The body of the loop of \<open>Run\<close> after \<open>PopFront\<close> has returned.\<close>

definition Run_task ::
  "('t, 'w) worker_class \<Rightarrow> 't option \<Rightarrow> ('t, 'w) work_thread \<Rightarrow> ('t, 'w) work_thread" where
  "Run_task wc t st =
     (if (case t of None \<Rightarrow> False | Some task \<Rightarrow> is_terminate wc task) then st\<lparr>wt_worker := Ended\<rparr>
      else (case handler_task wc t (wt_state st) of
              Inl f \<Rightarrow> st\<lparr>wt_worker := Crashed f\<rparr>
            | Inr w \<Rightarrow> st\<lparr>wt_worker := Pop, wt_state := w\<rparr>))"

text \<open>One step of the worker; \<open>None\<close> if it waits or is not there.\<close>

definition Run_step :: "('t, 'w) worker_class \<Rightarrow> ('t, 'w) work_thread \<Rightarrow> ('t, 'w) work_thread option" where
  "Run_step wc st =
     (case wt_worker st of
        Beginning \<Rightarrow> Some (st\<lparr>wt_running := True, wt_worker := Pop\<rparr>)
      | Pop \<Rightarrow> Some (PopFront_locked st)
      | PopNotify t \<Rightarrow> Some (PopFront_notify t st)
      | Handle t \<Rightarrow> Some (Run_task wc t st)
      | _ \<Rightarrow> None)"

text \<open>\<open>Start\<close>, \<open>PostTask\<close>, \<open>Stop\<close> and \<open>Join\<close> up to their first waiting point.\<close>

definition begin_request ::
  "('t, 'w) worker_class \<Rightarrow> 't owner_call \<Rightarrow> ('t, 'w) work_thread \<Rightarrow> ('t, 'w) work_thread" where
  "begin_request wc r st =
     (case r of
        Start bWaitForRunning \<Rightarrow>
          if wt_thread st = None
          then st\<lparr>wt_thread := Some True, wt_owner := (if bWaitForRunning then Starting else Ready),
                 wt_worker := Beginning\<rparr>
          else st
      | Post t \<Rightarrow> st\<lparr>wt_owner := Push t\<rparr>
      | Stop \<Rightarrow> st\<lparr>wt_owner := Push (Some (terminate_task wc))\<rparr>
      | Join \<Rightarrow>
          if wt_thread st = Some True then st\<lparr>wt_owner := Joining\<rparr> else st\<lparr>wt_running := False\<rparr>)"

text \<open>One step of the owner.\<close>

definition owner_step :: "('t, 'w) worker_class \<Rightarrow> ('t, 'w) work_thread \<Rightarrow> ('t, 'w) work_thread option" where
  "owner_step wc st =
     (case wt_owner st of
        Ready \<Rightarrow> (case wt_program st of
            [] \<Rightarrow> None
          | r # rs \<Rightarrow> Some (begin_request wc r (st\<lparr>wt_program := rs\<rparr>)))
      | Starting \<Rightarrow> if wt_running st then Some (st\<lparr>wt_owner := Ready\<rparr>) else None
      | Push t \<Rightarrow> Some (PushBack_locked wc t st)
      | PushBlocked t \<Rightarrow> None
      | PushNotify \<Rightarrow> Some (PushBack_notify st)
      | Joining \<Rightarrow>
          if wt_worker st = Ended
          then Some (st\<lparr>wt_running := False, wt_thread := Some False, wt_owner := Ready\<rparr>) else None)"

text \<open>Either thread may step, unless the process has died; waiting threads may wake up for no reason.\<close>

definition crashed :: "('t, 'w) work_thread \<Rightarrow> bool" where
  "crashed st = (case wt_worker st of Crashed f \<Rightarrow> True | _ \<Rightarrow> False)"

datatype who = Owner | Worker | SpuriousOwner | SpuriousWorker

inductive wq_step ::
  "('t, 'w) worker_class \<Rightarrow> ('t, 'w) work_thread \<Rightarrow> who \<Rightarrow> ('t, 'w) work_thread \<Rightarrow> bool"
  for wc :: "('t, 'w) worker_class" where
  owner: "\<not> crashed st \<Longrightarrow> owner_step wc st = Some st' \<Longrightarrow> wq_step wc st Owner st'"
| worker: "Run_step wc st = Some st' \<Longrightarrow> wq_step wc st Worker st'"
| wake_owner: "\<not> crashed st \<Longrightarrow> wt_owner st = PushBlocked t \<Longrightarrow>
    wq_step wc st SpuriousOwner (st\<lparr>wt_owner := Push t\<rparr>)"
| wake_worker: "wt_worker st = PopBlocked \<Longrightarrow>
    wq_step wc st SpuriousWorker (st\<lparr>wt_worker := Pop\<rparr>)"

inductive wq_run ::
  "('t, 'w) worker_class \<Rightarrow> ('t, 'w) work_thread \<Rightarrow> who list \<Rightarrow> ('t, 'w) work_thread \<Rightarrow> bool"
  for wc :: "('t, 'w) worker_class" where
  run_nil: "wq_run wc st [] st"
| run_cons: "wq_step wc st l st' \<Longrightarrow> wq_run wc st' ls st'' \<Longrightarrow> wq_run wc st (l # ls) st''"

inductive_cases wq_stepE: "wq_step wc st l st'"
inductive_simps wq_run_Nil [simp]: "wq_run wc st [] st'"
inductive_simps wq_run_Cons: "wq_run wc st (l # ls) st'"

lemma wq_run_invariant:
  assumes "wq_run wc st ls st'" "I st" "\<And>st l st'. wq_step wc st l st' \<Longrightarrow> I st \<Longrightarrow> I st'"
  shows "I st'"
  using assms(1,2) by (induction rule: wq_run.induct) (auto intro: assms(3))

text \<open>No step is left but spurious wake-ups.\<close>

definition stuck :: "('t, 'w) worker_class \<Rightarrow> ('t, 'w) work_thread \<Rightarrow> bool" where
  "stuck wc st \<longleftrightarrow> (crashed st \<or> owner_step wc st = None) \<and> Run_step wc st = None"

section \<open>What the tasks compute\<close>

text \<open>The tasks handled one after the other, up to the first that ends the thread.\<close>

fun handle_all :: "('t, 'w) worker_class \<Rightarrow> 't option list \<Rightarrow> 'w \<Rightarrow> fault + 'w" where
  "handle_all wc [] w = Inr w"
| "handle_all wc (t # ts) w =
     (if (case t of None \<Rightarrow> False | Some task \<Rightarrow> is_terminate wc task) then Inr w
      else rbind (handler_task wc t w) (handle_all wc ts))"

text \<open>The tasks on their way, in the order they are going to be handled.\<close>

fun request_tasks :: "('t, 'w) worker_class \<Rightarrow> 't owner_call \<Rightarrow> 't option list" where
  "request_tasks wc (Post t) = [t]"
| "request_tasks wc Stop = [Some (terminate_task wc)]"
| "request_tasks wc _ = []"

fun owner_tasks :: "'t owner_pc \<Rightarrow> 't option list" where
  "owner_tasks (Push t) = [t]"
| "owner_tasks (PushBlocked t) = [t]"
| "owner_tasks _ = []"

fun worker_tasks :: "'t worker_pc \<Rightarrow> 't option list" where
  "worker_tasks (PopNotify t) = [t]"
| "worker_tasks (Handle t) = [t]"
| "worker_tasks _ = []"

definition pending_tasks :: "('t, 'w) worker_class \<Rightarrow> ('t, 'w) work_thread \<Rightarrow> 't option list" where
  "pending_tasks wc st =
     worker_tasks (wt_worker st) @ wt_queue st @ owner_tasks (wt_owner st) @
     concat (map (request_tasks wc) (wt_program st))"

definition outcome :: "('t, 'w) worker_class \<Rightarrow> ('t, 'w) work_thread \<Rightarrow> fault + 'w" where
  "outcome wc st =
     (case wt_worker st of
        Crashed f \<Rightarrow> Inl f
      | Ended \<Rightarrow> Inr (wt_state st)
      | _ \<Rightarrow> handle_all wc (pending_tasks wc st) (wt_state st))"

lemmas wq_defs = owner_step_def begin_request_def Run_step_def PushBack_locked_def PushBack_notify_def PopFront_locked_def
  PopFront_notify_def Run_task_def

lemmas wq_splits = owner_call.splits owner_pc.splits worker_pc.splits list.splits if_splits option.splits sum.splits

text \<open>Nobody runs before the thread was made.\<close>

definition made :: "('t, 'w) work_thread \<Rightarrow> bool" where
  "made st \<longleftrightarrow> (wt_thread st = None \<longrightarrow> wt_worker st = NotCreated)"

lemma made_step: "wq_step wc st l st' \<Longrightarrow> made st \<Longrightarrow> made st'"
  by (erule wq_stepE; auto simp: made_def wq_defs split: wq_splits)

text \<open>The interleaving does not matter: what the tasks are going to compute never changes.\<close>

lemma owner_outcome:
  assumes "owner_step wc st = Some st'" "made st"
  shows "outcome wc st' = outcome wc st"
proof (cases "wt_owner st")
  case Ready
  with assms obtain r rs where r: "wt_program st = r # rs" "st' = begin_request wc r (st\<lparr>wt_program := rs\<rparr>)"
    by (auto simp: owner_step_def split: list.splits)
  with Ready assms(2) show ?thesis
    by (cases r) (auto simp: begin_request_def made_def outcome_def pending_tasks_def split: worker_pc.splits)
qed (use assms in \<open>auto simp: owner_step_def PushBack_locked_def PushBack_notify_def outcome_def pending_tasks_def
      split: worker_pc.splits if_splits\<close>)

lemma worker_outcome:
  assumes "Run_step wc st = Some st'"
  shows "outcome wc st' = outcome wc st"
  using assms
  by (auto simp: wq_defs outcome_def pending_tasks_def res_simps split: worker_pc.splits owner_pc.splits list.splits
      if_splits sum.splits)

lemma wake_outcome:
  "wt_owner st = PushBlocked t \<Longrightarrow> outcome wc (st\<lparr>wt_owner := Push t\<rparr>) = outcome wc st"
  "wt_worker st = PopBlocked \<Longrightarrow> outcome wc (st\<lparr>wt_worker := Pop\<rparr>) = outcome wc st"
  by (simp_all add: outcome_def pending_tasks_def split: worker_pc.splits)

lemma outcome_step: "wq_step wc st l st' \<Longrightarrow> made st \<Longrightarrow> outcome wc st' = outcome wc st"
  by (erule wq_stepE) (simp_all add: owner_outcome worker_outcome wake_outcome)

lemma outcome_run:
  assumes "wq_run wc st ls st'" "made st"
  shows "outcome wc st' = outcome wc st"
  using assms by (induction rule: wq_run.induct) (auto simp: outcome_step made_step)

section \<open>Every schedule ends\<close>

fun request_cost :: "'t owner_call \<Rightarrow> nat" where
  "request_cost (Start b) = 4"
| "request_cost (Post t) = 8"
| "request_cost Stop = 8"
| "request_cost Join = 2"

fun owner_cost :: "'t owner_pc \<Rightarrow> nat" where
  "owner_cost Ready = 0"
| "owner_cost Starting = 1"
| "owner_cost (Push t) = 7"
| "owner_cost (PushBlocked t) = 6"
| "owner_cost PushNotify = 2"
| "owner_cost Joining = 1"

fun worker_cost :: "'t worker_pc \<Rightarrow> nat" where
  "worker_cost Beginning = 2"
| "worker_cost Pop = 1"
| "worker_cost (PopNotify t) = 4"
| "worker_cost (Handle t) = 2"
| "worker_cost _ = 0"

definition cost :: "('t, 'w) work_thread \<Rightarrow> nat" where
  "cost st = sum_list (map request_cost (wt_program st)) + owner_cost (wt_owner st) +
     4 * length (wt_queue st) + worker_cost (wt_worker st)"

fun spurious :: "who \<Rightarrow> bool" where
  "spurious Owner = False"
| "spurious Worker = False"
| "spurious SpuriousOwner = True"
| "spurious SpuriousWorker = True"

lemma owner_cost_step: "owner_step wc st = Some st' \<Longrightarrow> made st \<Longrightarrow> cost st' < cost st"
  by (auto simp: wq_defs cost_def made_def split: wq_splits)

lemma worker_cost_step: "Run_step wc st = Some st' \<Longrightarrow> cost st' < cost st"
  by (auto simp: wq_defs cost_def split: wq_splits)

lemma cost_step:
  "wq_step wc st l st' \<Longrightarrow> made st \<Longrightarrow> cost st' + 1 \<le> cost st + (if spurious l then 2 else 0)"
  by (erule wq_stepE) (auto dest: owner_cost_step worker_cost_step simp: cost_def)

lemma cost_run:
  assumes "wq_run wc st ls st'" "made st"
  shows "length ls + cost st' \<le> cost st + 2 * length (filter spurious ls)"
  using assms
proof (induction rule: wq_run.induct)
  case (run_cons st l st' ls st'')
  from cost_step [OF run_cons.hyps(1) run_cons.prems] run_cons.IH made_step [OF run_cons.hyps(1) run_cons.prems]
  show ?case by (simp split: if_splits)
qed simp

section \<open>No wake-up is lost\<close>

text \<open>
  The bound of the queue, and the two facts behind the condition variables: a worker that waits while
  there is a task is about to be notified by the owner, and an owner that waits while there is room is
  about to be notified by the worker.
\<close>

definition no_lost_wakeup :: "('t, 'w) worker_class \<Rightarrow> ('t, 'w) work_thread \<Rightarrow> bool" where
  "no_lost_wakeup wc st \<longleftrightarrow>
     length (wt_queue st) \<le> m_max_size wc \<and>
     (wt_worker st = PopBlocked \<longrightarrow> wt_queue st = [] \<or> wt_owner st = PushNotify) \<and>
     ((\<exists>t. wt_owner st = PushBlocked t) \<longrightarrow>
       length (wt_queue st) = m_max_size wc \<or> (\<exists>t. wt_worker st = PopNotify t))"

lemma no_lost_wakeup_step: "wq_step wc st l st' \<Longrightarrow> made st \<Longrightarrow> no_lost_wakeup wc st \<Longrightarrow> no_lost_wakeup wc st'"
  by (erule wq_stepE; auto simp: no_lost_wakeup_def made_def wq_defs split: wq_splits)

section \<open>The life cycle of a worker\<close>

text \<open>The owner starts the thread, posts tasks, stops the thread and joins it.\<close>

definition life_cycle :: "bool \<Rightarrow> 't option list \<Rightarrow> 't owner_call list" where
  "life_cycle bWaitForRunning ts = Start bWaitForRunning # map Post ts @ [Stop, Join]"

definition ordinary :: "('t, 'w) worker_class \<Rightarrow> 't option \<Rightarrow> bool" where
  "ordinary wc t \<longleftrightarrow> (case t of None \<Rightarrow> True | Some task \<Rightarrow> \<not> is_terminate wc task)"

definition finished :: "('t, 'w) work_thread \<Rightarrow> bool" where
  "finished st \<longleftrightarrow> wt_worker st = Ended \<and> wt_thread st = Some False \<and> \<not> wt_running st \<and>
     wt_owner st = Ready \<and> wt_program st = [] \<and> wt_queue st = []"

text \<open>What holds of the two threads from the start of the thread on.\<close>

definition rest_of_program :: "'t owner_call list \<Rightarrow> bool" where
  "rest_of_program rs \<longleftrightarrow> (\<exists>ts. rs = map Post ts @ [Stop, Join]) \<or> rs = [Join] \<or> rs = []"

definition one_terminate :: "('t, 'w) worker_class \<Rightarrow> 't option list \<Rightarrow> bool" where
  "one_terminate wc ts \<longleftrightarrow> (\<exists>xs. ts = xs @ [Some (terminate_task wc)] \<and> (\<forall>t \<in> set xs. ordinary wc t))"

definition living :: "('t, 'w) worker_class \<Rightarrow> ('t, 'w) work_thread \<Rightarrow> bool" where
  "living wc st \<longleftrightarrow>
     wt_worker st \<noteq> NotCreated \<and> rest_of_program (wt_program st) \<and>
     (if wt_worker st = Ended then pending_tasks wc st = [] else one_terminate wc (pending_tasks wc st)) \<and>
     (wt_thread st = Some True \<or> finished st) \<and>
     (wt_program st = [] \<longrightarrow> wt_owner st = Joining \<or> finished st) \<and>
     (wt_program st \<noteq> [] \<longrightarrow> wt_owner st \<noteq> Joining) \<and>
     (wt_owner st = Starting \<longrightarrow> wt_running st \<or> wt_worker st = Beginning)"

lemma one_terminate_Cons:
  "one_terminate wc (t # ts) \<longleftrightarrow>
     (if ts = [] then t = Some (terminate_task wc) else ordinary wc t \<and> one_terminate wc ts)"
proof (cases "ts = []")
  case False
  show ?thesis
  proof
    assume "one_terminate wc (t # ts)"
    then obtain xs where "t # ts = xs @ [Some (terminate_task wc)]" "\<forall>t \<in> set xs. ordinary wc t"
      by (auto simp: one_terminate_def)
    with False show "if ts = [] then t = Some (terminate_task wc) else ordinary wc t \<and> one_terminate wc ts"
      by (cases xs) (auto simp: one_terminate_def)
  next
    assume "if ts = [] then t = Some (terminate_task wc) else ordinary wc t \<and> one_terminate wc ts"
    with False obtain xs where "ts = xs @ [Some (terminate_task wc)]" "\<forall>t \<in> set (t # xs). ordinary wc t"
      by (auto simp: one_terminate_def)
    then show "one_terminate wc (t # ts)"
      unfolding one_terminate_def by (intro exI [of _ "t # xs"]) simp
  qed
qed (auto simp: one_terminate_def)

lemma not_one_terminate_Nil [simp]: "\<not> one_terminate wc []"
  by (simp add: one_terminate_def)

lemma rest_of_program_cases:
  assumes "rest_of_program (r # rs)"
  obtains t where "r = Post t" "rest_of_program rs" "rs \<noteq> []"
  | "r = Stop" "rs = [Join]" | "r = Join" "rs = []"
proof -
  consider ts where "r # rs = map Post ts @ [Stop, Join]" | "r = Join" "rs = []"
    using assms by (auto simp: rest_of_program_def)
  then show ?thesis
  proof cases
    case 1
    with that show ?thesis by (cases ts) (auto simp: rest_of_program_def)
  qed (use that in blast)
qed

lemma rest_of_program_end [simp]: "rest_of_program [Join]" "rest_of_program []"
  by (simp_all add: rest_of_program_def)

lemma rest_of_program_posts [simp]: "rest_of_program (map Post ts @ [Stop, Join])"
  by (auto simp: rest_of_program_def)

lemma notified_worker [simp]:
  "worker_tasks (case pc of PopBlocked \<Rightarrow> Pop | pc \<Rightarrow> pc) = worker_tasks pc"
  "(case pc of PopBlocked \<Rightarrow> Pop | pc \<Rightarrow> pc) = Ended \<longleftrightarrow> pc = Ended"
  "(case pc of PopBlocked \<Rightarrow> Pop | pc \<Rightarrow> pc) = NotCreated \<longleftrightarrow> pc = NotCreated"
  "(case pc of PopBlocked \<Rightarrow> Pop | pc \<Rightarrow> pc) = Beginning \<longleftrightarrow> pc = Beginning"
  by (cases pc; simp)+

lemma notified_owner [simp]:
  "owner_tasks (case pc of PushBlocked t \<Rightarrow> Push t | pc \<Rightarrow> pc) = owner_tasks pc"
  "(case pc of PushBlocked t \<Rightarrow> Push t | pc \<Rightarrow> pc) = Ready \<longleftrightarrow> pc = Ready"
  "(case pc of PushBlocked t \<Rightarrow> Push t | pc \<Rightarrow> pc) = Starting \<longleftrightarrow> pc = Starting"
  "(case pc of PushBlocked t \<Rightarrow> Push t | pc \<Rightarrow> pc) = Joining \<longleftrightarrow> pc = Joining"
  by (cases pc; simp)+

lemma owner_living:
  assumes "owner_step wc st = Some st'" "living wc st"
  shows "living wc st'"
proof (cases "wt_owner st")
  case Ready
  with assms obtain r rs where r: "wt_program st = r # rs" "st' = begin_request wc r (st\<lparr>wt_program := rs\<rparr>)"
    by (auto simp: owner_step_def split: list.splits)
  with assms(2) have "rest_of_program (r # rs)" by (simp add: living_def)
  then show ?thesis
    by (cases rule: rest_of_program_cases)
      (use Ready r assms(2) in \<open>auto simp: living_def finished_def begin_request_def pending_tasks_def\<close>)
qed (use assms in \<open>auto simp: wq_defs living_def finished_def pending_tasks_def split: if_splits\<close>)

text \<open>A thread that is never stopped, which is how the web server uses it.\<close>

definition serve :: "bool \<Rightarrow> 't option list \<Rightarrow> 't owner_call list" where
  "serve bWaitForRunning ts = Start bWaitForRunning # map Post ts"

definition idle :: "('t, 'w) work_thread \<Rightarrow> bool" where
  "idle st \<longleftrightarrow> wt_worker st = PopBlocked \<and> wt_thread st = Some True \<and> wt_running st \<and>
     wt_owner st = Ready \<and> wt_program st = [] \<and> wt_queue st = []"

definition serving :: "('t, 'w) worker_class \<Rightarrow> ('t, 'w) work_thread \<Rightarrow> bool" where
  "serving wc st \<longleftrightarrow>
     wt_worker st \<noteq> NotCreated \<and> wt_worker st \<noteq> Ended \<and> (\<forall>r \<in> set (wt_program st). \<exists>t. r = Post t) \<and>
     (\<forall>t \<in> set (pending_tasks wc st). ordinary wc t) \<and> wt_thread st = Some True \<and>
     wt_owner st \<noteq> Joining \<and> (wt_running st \<or> wt_worker st = Beginning)"

lemma owner_serving:
  assumes "owner_step wc st = Some st'" "serving wc st"
  shows "serving wc st'"
proof (cases "wt_owner st")
  case Ready
  with assms obtain t rs where "wt_program st = Post t # rs"
      "st' = st\<lparr>wt_program := rs, wt_owner := Push t\<rparr>"
    by (auto simp: owner_step_def begin_request_def serving_def split: list.splits)
  with Ready assms(2) show ?thesis by (auto simp: serving_def pending_tasks_def)
qed (use assms in \<open>auto simp: wq_defs serving_def pending_tasks_def split: if_splits\<close>)

lemma worker_serving:
  assumes "Run_step wc st = Some st'" "serving wc st" "\<not> crashed st'"
  shows "serving wc st'"
proof (cases "wt_worker st")
  case (Handle t)
  with assms(2) have "ordinary wc t" by (simp add: serving_def pending_tasks_def)
  then obtain w where "st' = st\<lparr>wt_worker := Pop, wt_state := w\<rparr>"
    using Handle assms(1,3) by (auto simp: Run_step_def Run_task_def ordinary_def crashed_def split: sum.splits option.splits)
  with Handle assms(2) show ?thesis by (simp add: serving_def pending_tasks_def)
next
  case Pop
  with assms(1,2) show ?thesis
    by (auto simp: Run_step_def PopFront_locked_def serving_def pending_tasks_def split: list.splits)
qed (use assms in \<open>auto simp: Run_step_def PopFront_notify_def serving_def pending_tasks_def\<close>)

lemma serving_step:
  assumes "wq_step wc st l st'" "serving wc st"
  shows "serving wc st' \<or> crashed st'"
  using assms(1)
proof cases
  case wake_owner
  with assms(2) show ?thesis by (auto simp: serving_def pending_tasks_def)
next
  case wake_worker
  with assms(2) show ?thesis by (auto simp: serving_def pending_tasks_def)
qed (use assms(2) owner_serving worker_serving in \<open>auto split: if_splits\<close>)

lemma crashed_final: "crashed st \<Longrightarrow> \<not> wq_step wc st l st'"
  by (auto simp: crashed_def Run_step_def elim!: wq_stepE split: worker_pc.splits)

text \<open>
  What a derived class owes to the thread: its terminating task is recognised as such; and the queue
  has room for a task.
\<close>

locale worker_thread =
  fixes wc :: "('t, 'w) worker_class"
  assumes room: "0 < m_max_size wc"
    and is_terminate_task: "is_terminate wc (terminate_task wc)"
begin

lemma terminates: "\<not> ordinary wc (Some (terminate_task wc))"
  using is_terminate_task by (simp add: ordinary_def)

lemma worker_living:
  assumes "Run_step wc st = Some st'" "living wc st" "\<not> crashed st'"
  shows "living wc st'"
proof (cases "wt_worker st")
  case Pop
  with assms show ?thesis
    by (auto simp: Run_step_def PopFront_locked_def living_def finished_def pending_tasks_def split: list.splits)
next
  case (Handle t)
  let ?rest = "wt_queue st @ owner_tasks (wt_owner st) @ concat (map (request_tasks wc) (wt_program st))"
  have l: "one_terminate wc (t # ?rest)" "wt_thread st = Some True" "rest_of_program (wt_program st)"
    "wt_program st = [] \<longrightarrow> wt_owner st = Joining" "wt_program st \<noteq> [] \<longrightarrow> wt_owner st \<noteq> Joining"
    "wt_owner st = Starting \<longrightarrow> wt_running st"
    using Handle assms(2) by (simp_all add: living_def pending_tasks_def finished_def)
  show ?thesis
  proof (cases "ordinary wc t")
    case True
    then obtain w where "st' = st\<lparr>wt_worker := Pop, wt_state := w\<rparr>"
      using Handle assms(1,3) by (auto simp: Run_step_def Run_task_def ordinary_def crashed_def split: sum.splits option.splits)
    moreover have "one_terminate wc ?rest" using l(1) True terminates by (auto simp: one_terminate_Cons split: if_splits)
    ultimately show ?thesis using l by (simp add: living_def pending_tasks_def)
  next
    case False
    then have "st' = st\<lparr>wt_worker := Ended\<rparr>"
      using Handle assms(1) by (auto simp: Run_step_def Run_task_def ordinary_def split: option.splits)
    moreover have "?rest = []" using l(1) False by (auto simp: one_terminate_Cons split: if_splits)
    ultimately show ?thesis using l by (simp add: living_def pending_tasks_def)
  qed
qed (use assms in \<open>auto simp: Run_step_def PopFront_notify_def living_def finished_def pending_tasks_def\<close>)

lemma living_step:
  assumes "wq_step wc st l st'" "living wc st"
  shows "living wc st' \<or> crashed st'"
  using assms(1)
proof cases
  case wake_owner
  with assms(2) show ?thesis by (auto simp: living_def finished_def pending_tasks_def)
next
  case wake_worker
  with assms(2) show ?thesis by (auto simp: living_def finished_def pending_tasks_def)
qed (use assms(2) owner_living worker_living in \<open>auto split: if_splits\<close>)

text \<open>Two threads that both wait have finished.\<close>

lemma living_progress:
  assumes "living wc st" "no_lost_wakeup wc st" "stuck wc st" "\<not> crashed st"
  shows "finished st"
proof -
  have w: "wt_worker st = PopBlocked \<or> wt_worker st = Ended" and "owner_step wc st = None"
    using assms by (auto simp: stuck_def living_def Run_step_def crashed_def split: worker_pc.splits)
  then consider "wt_owner st = Ready" "wt_program st = []" | "wt_owner st = Starting" "\<not> wt_running st"
    | t where "wt_owner st = PushBlocked t" | "wt_owner st = Joining" "wt_worker st = PopBlocked"
    by (auto simp: owner_step_def split: owner_pc.splits list.splits if_splits)
  then show ?thesis
    by cases (use w assms(1,2) room in \<open>auto simp: living_def no_lost_wakeup_def pending_tasks_def\<close>)
qed


text \<open>
  The life cycle as a whole: however the two threads are scheduled, the number of steps is bounded
  but for spurious wake-ups; and when neither thread can go on, either a task's handler has faulted, or
  the thread has ended and been joined, with the state that handling the tasks in order gives.
\<close>

lemma life_cycle_ends:
  assumes "wq_run wc (WorkThread_new (life_cycle b ts) w) ls st" "\<forall>t \<in> set ts. ordinary wc t"
  shows "length ls \<le> 14 + 8 * length ts + 2 * length (filter spurious ls) \<and>
    (stuck wc st \<longrightarrow>
      (case handle_all wc ts w of Inl f \<Rightarrow> wt_worker st = Crashed f | Inr w' \<Rightarrow> finished st \<and> wt_state st = w'))"
proof -
  let ?new = "WorkThread_new (life_cycle b ts) w"
  have new: "made ?new" "no_lost_wakeup wc ?new" "cost ?new = 14 + 8 * length ts"
    by (simp_all add: made_def no_lost_wakeup_def cost_def WorkThread_new_def life_cycle_def comp_def sum_list_triv)
  have handle_all: "handle_all wc (ts @ [Some (terminate_task wc)]) x = handle_all wc ts x" for x
    using assms(2)
  proof (induction ts arbitrary: x)
    case (Cons t ts)
    then show ?case by (cases "handler_task wc t x") (simp_all add: ordinary_def res_simps)
  qed (simp add: is_terminate_task)
  have concat: "concat (map (request_tasks wc \<circ> Post) ts) = ts" by (induction ts) auto
  then have out: "outcome wc ?new = handle_all wc ts w"
    by (simp add: outcome_def pending_tasks_def WorkThread_new_def life_cycle_def handle_all)
  have inv: "(st = ?new \<or> living wc st \<or> crashed st) \<and> made st \<and> no_lost_wakeup wc st"
    using assms(1)
  proof (rule wq_run_invariant)
    fix st l st'
    assume s: "wq_step wc st l st'" "(st = ?new \<or> living wc st \<or> crashed st) \<and> made st \<and> no_lost_wakeup wc st"
    have "living wc st'" if "st = ?new"
      using s(1) that assms(2) concat
      by (auto simp: WorkThread_new_def life_cycle_def owner_step_def begin_request_def Run_step_def living_def
          pending_tasks_def one_terminate_def elim!: wq_stepE split: if_splits)
    with s living_step crashed_final made_step no_lost_wakeup_step
    show "(st' = ?new \<or> living wc st' \<or> crashed st') \<and> made st' \<and> no_lost_wakeup wc st'" by metis
  qed (use new in simp)
  have "\<not> stuck wc ?new"
    by (simp add: stuck_def owner_step_def WorkThread_new_def life_cycle_def crashed_def)
  with inv have "stuck wc st \<longrightarrow> crashed st \<or> finished st" using living_progress by blast
  moreover have "outcome wc st = handle_all wc ts w" using outcome_run [OF assms(1) new(1)] out by simp
  ultimately have "stuck wc st \<longrightarrow>
      (case handle_all wc ts w of Inl f \<Rightarrow> wt_worker st = Crashed f | Inr w' \<Rightarrow> finished st \<and> wt_state st = w')"
    by (auto simp: outcome_def crashed_def finished_def split: worker_pc.splits dest: sym)
  with cost_run [OF assms(1) new(1)] new(3) show ?thesis by simp
qed

text \<open>A served worker ends up waiting with nothing left to do.\<close>

lemma serving_progress:
  assumes "serving wc st" "no_lost_wakeup wc st" "stuck wc st" "\<not> crashed st"
  shows "idle st"
proof -
  have w: "wt_worker st = PopBlocked" and o: "owner_step wc st = None"
    using assms by (auto simp: stuck_def serving_def Run_step_def crashed_def split: worker_pc.splits)
  have "wt_owner st = Ready \<and> wt_program st = []"
    using o w assms(1,2) room
    by (auto simp: owner_step_def serving_def no_lost_wakeup_def split: owner_pc.splits list.splits if_splits)
  with w assms(1,2) show ?thesis by (auto simp: idle_def serving_def no_lost_wakeup_def)
qed

lemma serve_ends:
  assumes "wq_run wc (WorkThread_new (serve b ts) w) ls st" "\<forall>t \<in> set ts. ordinary wc t"
  shows "length ls \<le> 4 + 8 * length ts + 2 * length (filter spurious ls) \<and>
    (stuck wc st \<longrightarrow>
      (case handle_all wc ts w of Inl f \<Rightarrow> wt_worker st = Crashed f | Inr w' \<Rightarrow> idle st \<and> wt_state st = w'))"
proof -
  let ?new = "WorkThread_new (serve b ts) w"
  have new: "made ?new" "no_lost_wakeup wc ?new" "cost ?new = 4 + 8 * length ts"
    by (simp_all add: made_def no_lost_wakeup_def cost_def WorkThread_new_def serve_def comp_def sum_list_triv)
  have concat: "concat (map (request_tasks wc \<circ> Post) ts) = ts" by (induction ts) auto
  then have out: "outcome wc ?new = handle_all wc ts w"
    by (simp add: outcome_def pending_tasks_def WorkThread_new_def serve_def)
  have inv: "(st = ?new \<or> serving wc st \<or> crashed st) \<and> made st \<and> no_lost_wakeup wc st"
    using assms(1)
  proof (rule wq_run_invariant)
    fix st l st'
    assume s: "wq_step wc st l st'" "(st = ?new \<or> serving wc st \<or> crashed st) \<and> made st \<and> no_lost_wakeup wc st"
    have "serving wc st'" if "st = ?new"
      using s(1) that assms(2) concat
      by (auto simp: WorkThread_new_def serve_def owner_step_def begin_request_def Run_step_def serving_def
          pending_tasks_def elim!: wq_stepE split: if_splits)
    with s serving_step crashed_final made_step no_lost_wakeup_step
    show "(st' = ?new \<or> serving wc st' \<or> crashed st') \<and> made st' \<and> no_lost_wakeup wc st'" by metis
  qed (use new in simp)
  have "\<not> stuck wc ?new"
    by (simp add: stuck_def owner_step_def WorkThread_new_def serve_def crashed_def)
  with inv have "stuck wc st \<longrightarrow> crashed st \<or> idle st" using serving_progress by blast
  moreover have "outcome wc st = handle_all wc ts w" using outcome_run [OF assms(1) new(1)] out by simp
  ultimately have "stuck wc st \<longrightarrow>
      (case handle_all wc ts w of Inl f \<Rightarrow> wt_worker st = Crashed f | Inr w' \<Rightarrow> idle st \<and> wt_state st = w')"
    by (auto simp: outcome_def crashed_def idle_def pending_tasks_def split: worker_pc.splits dest: sym)
  with cost_run [OF assms(1) new(1)] new(3) show ?thesis by simp
qed

end

text \<open>Every state that is not stuck has a step, so that each run can be continued to its end.\<close>

lemma not_stuck_step:
  assumes "\<not> stuck wc st"
  obtains l st' where "wq_step wc st l st'" "\<not> spurious l"
  using assms unfolding stuck_def by (metis not_None_eq wq_step.intros(1,2) spurious.simps(1,2))

lemma run_to_end:
  assumes "made st"
  shows "\<exists>ls st'. wq_run wc st ls st' \<and> stuck wc st'"
  using assms
proof (induction "cost st" arbitrary: st rule: less_induct)
  case less
  show ?case
  proof (cases "stuck wc st")
    case False
    then obtain l st1 where s: "wq_step wc st l st1" "\<not> spurious l" by (rule not_stuck_step)
    with cost_step [OF s(1) less.prems] have "cost st1 < cost st" by simp
    from less.hyps [OF this made_step [OF s(1) less.prems]] s(1) show ?thesis by (meson wq_run.intros(2))
  qed (use wq_run.intros(1) in blast)
qed


section \<open>Any program\<close>

text \<open>
  C28. Whatever the owner does with its worker and however the two threads are scheduled, spurious
  wake-ups included: the queue never exceeds its capacity, nobody waits for a notification that will not
  come, and what the posted tasks are going to compute is what handling them in order computes.
\<close>

theorem queue_well_formed:
  assumes "wq_run wc (WorkThread_new program w) ls st"
  shows "no_lost_wakeup wc st \<and> outcome wc st = handle_all wc (concat (map (request_tasks wc) program)) w"
proof -
  have "made st \<and> no_lost_wakeup wc st"
    using assms by (rule wq_run_invariant)
      (auto simp: made_def no_lost_wakeup_def WorkThread_new_def intro: made_step no_lost_wakeup_step
        dest: made_step [unfolded made_def] no_lost_wakeup_step)
  moreover have "outcome wc st = outcome wc (WorkThread_new program w)"
    using assms by (rule outcome_run) (simp add: made_def WorkThread_new_def)
  ultimately show ?thesis by (simp add: outcome_def pending_tasks_def WorkThread_new_def)
qed

text \<open>A schedule, executed.\<close>

fun schedule ::
  "('t, 'w) worker_class \<Rightarrow> who list \<Rightarrow> ('t, 'w) work_thread \<Rightarrow> ('t, 'w) work_thread option" where
  "schedule wc [] st = Some st"
| "schedule wc (Owner # ls) st =
     (if crashed st then None else Option.bind (owner_step wc st) (schedule wc ls))"
| "schedule wc (Worker # ls) st = Option.bind (Run_step wc st) (schedule wc ls)"
| "schedule wc (l # ls) st = None"

lemma schedule_run: "schedule wc ls st = Some st' \<Longrightarrow> wq_run wc st ls st'"
  by (induction wc ls st rule: schedule.induct)
    (auto simp: wq_run_Cons bind_eq_Some_conv split: if_splits intro: wq_step.intros)

text \<open>A worker that adds up numbers, with room for one task: the owner has to wait for it.\<close>

definition sample_class :: "(int, int) worker_class" where
  "sample_class = \<lparr>m_max_size = 1, terminate_task = 0, is_terminate = (\<lambda>t. t = 0),
     handler_task = (\<lambda>t w. case t of None \<Rightarrow> Inl NullDeref | Some n \<Rightarrow> Inr (w + n))\<rparr>"

definition sample_schedule :: "who list" where
  "sample_schedule =
     [Owner, Worker, Worker, Owner, Owner, Owner, Owner, Owner, Owner, Worker, Worker, Owner, Owner, Worker,
      Worker, Worker, Owner, Worker, Owner, Owner, Owner, Worker, Worker, Worker, Owner, Owner]"

theorem queue_well_formed_witness:
  "\<exists>st. wq_run sample_class (WorkThread_new (life_cycle True [Some 5, Some 7]) 0) (take 16 sample_schedule) st \<and>
     no_lost_wakeup sample_class st \<and> outcome sample_class st = Inr 12"
proof -
  obtain st where "schedule sample_class (take 16 sample_schedule)
      (WorkThread_new (life_cycle True [Some 5, Some 7]) 0) = Some st"
    by (simp add: sample_schedule_def sample_class_def WorkThread_new_def life_cycle_def wq_defs crashed_def)
  note run = schedule_run [OF this]
  from run queue_well_formed [OF run] show ?thesis
    by (auto simp: life_cycle_def sample_class_def res_simps)
qed

end
