(* ===== verification/Rtmp_Worker.thy ===== *)
theory Rtmp_Worker
  imports Rtmp_Client Work_Queue
begin

text \<open>
  RtmpThread of src/web_server/rtmp as a WorkThread: the functions it supplies to its base class, and
  what the two threads do together.
\<close>

text \<open>
  A task carries what the allocator leaves and libav answers while it is handled. \<open>a\<close> are the unused
  answers of the terminating task. The queue is made with the default capacity \<open>INT32_MAX\<close>.
\<close>

type_synonym rtmp_job = "coder_ctx \<times> rtmp_env \<times> packet_move"
type_synonym rtmp_work = "rtmp_thread \<times> (device_id_t \<times> av_out) list"

fun RtmpThread_HandlerTask :: "rtmp_job option \<Rightarrow> rtmp_work \<Rightarrow> fault + rtmp_work" where
  "RtmpThread_HandlerTask None w = Inl NullDeref"
| "RtmpThread_HandlerTask (Some (left, env, task)) (th, outs) =
     rbind (HandlerTask left env task th) (\<lambda>(th', out). Inr (th', outs @ out))"

definition INT32_MAX :: nat where
  "INT32_MAX = 2147483647"

definition RtmpThread_class :: "coder_ctx \<times> rtmp_env \<Rightarrow> (rtmp_job, rtmp_work) worker_class" where
  "RtmpThread_class a =
     \<lparr>m_max_size = INT32_MAX, terminate_task = (fst a, snd a, CreateTerminateTask),
      is_terminate = (\<lambda>(left, env, task). IsTerminateTask task), handler_task = RtmpThread_HandlerTask\<rparr>"

interpretation rtmp: worker_thread "RtmpThread_class a"
  by unfold_locales (simp_all add: RtmpThread_class_def INT32_MAX_def IsTerminateTask_def CreateTerminateTask_def ipc_consts)

text \<open>The base class's view of the tasks is the worker's own.\<close>

lemma handle_all_work:
  assumes "thread_ok th" "jobs_ok js" "\<forall>(left, env, task) \<in> set js. \<not> IsTerminateTask task"
  shows "\<exists>th' outs' refused. work js th = Inr (th', outs', refused) \<and>
    handle_all (RtmpThread_class a) (map Some js) (th, outs) = Inr (th', outs @ outs')"
  using assms
proof (induction js arbitrary: th outs)
  case (Cons j js)
  obtain left env task where j: "j = (left, env, task)" by (cases j)
  obtain th1 out where s: "HandlerTask left env task th = Inr (th1, out)" "thread_ok th1" "jobs_ok js"
    using work_ConsE [OF Cons.prems(1) Cons.prems(2) [unfolded j]] by metis
  from Cons.IH [OF s(2,3), of "outs @ out"] Cons.prems(3) s(1) show ?case
    by (auto simp: j RtmpThread_class_def res_simps)
qed simp

lemma jobs_ordinary:
  "\<forall>(left, env, task) \<in> set js. \<not> IsTerminateTask task \<Longrightarrow>
    \<forall>t \<in> set (map Some js). ordinary (RtmpThread_class a) t"
  by (auto simp: ordinary_def RtmpThread_class_def)

text \<open>
  C29. The web server's worker, when the event loop starts the thread and then only posts tasks of
  the kind the worker can handle: each names a vehicle below 2^60 (none asks the thread to end), the audio
  packets among them are whole packets of G.711 of at most 1024 bytes (a long ADPCM or an undecodable G.726
  packet would crash the worker, C21), the output container has an audio stream and the encoder takes
  frames of 2048 bytes. However the two threads are scheduled, they take at most 4 steps, 8 for each task and
  2 for each spurious wake-up; and when neither can go on, the worker waits with an empty queue and
  has done exactly what handling the tasks one after the other does.
\<close>

theorem rtmp_worker_serves:
  assumes "thread_ok th" "jobs_ok js" "\<forall>(left, env, task) \<in> set js. \<not> IsTerminateTask task"
    and "wq_run (RtmpThread_class a) (WorkThread_new (serve b (map Some js)) (th, [])) ls st"
  shows "length ls \<le> 4 + 8 * length js + 2 * length (filter spurious ls) \<and>
    (stuck (RtmpThread_class a) st \<longrightarrow>
      idle st \<and> (\<exists>refused. work js th = Inr (fst (wt_state st), snd (wt_state st), refused)))"
  using rtmp.serve_ends [OF assms(4) jobs_ordinary [OF assms(3)]] handle_all_work [OF assms(1-3), of a "[]"]
  by auto

text \<open>And if it were stopped and joined, it would end in the same state.\<close>

lemma rtmp_worker_stops:
  assumes "thread_ok th" "jobs_ok js" "\<forall>(left, env, task) \<in> set js. \<not> IsTerminateTask task"
    and "wq_run (RtmpThread_class a) (WorkThread_new (life_cycle b (map Some js)) (th, [])) ls st"
    and "stuck (RtmpThread_class a) st"
  shows "finished st \<and> (\<exists>refused. work js th = Inr (fst (wt_state st), snd (wt_state st), refused))"
  using rtmp.life_cycle_ends [OF assms(4) jobs_ordinary [OF assms(3)]] handle_all_work [OF assms(1-3), of a "[]"] assms(5)
  by auto

theorem rtmp_worker_serves_witness:
  "\<exists>ls st. wq_run (RtmpThread_class (CtxNull, sample_env 0))
      (WorkThread_new (serve True [Some (CtxNull, sample_env 0, sample_task)]) (RtmpThread_new [114] [] True, [])) ls st \<and>
    idle st \<and> (\<exists>refused. work [(CtxNull, sample_env 0, sample_task)] (RtmpThread_new [114] [] True) =
      Inr (fst (wt_state st), snd (wt_state st), refused))"
proof -
  let ?wc = "RtmpThread_class (CtxNull, sample_env 0)" and ?js = "[(CtxNull, sample_env 0, sample_task)]"
    and ?th = "RtmpThread_new [114] [] True"
  have ok: "thread_ok ?th" "jobs_ok ?js"
    by (simp_all add: thread_ok_def RtmpThread_new_def jobs_ok_def sample_env_ok sample_task_ok)
  have other: "\<forall>(left, env, task) \<in> set ?js. \<not> IsTerminateTask task"
    by (simp add: IsTerminateTask_def sample_task_def ipc_consts)
  obtain ls st where r: "wq_run ?wc (WorkThread_new (serve True (map Some ?js)) (?th, [])) ls st" "stuck ?wc st"
    using run_to_end by (metis made_def WorkThread_new_def work_thread.select_convs(6))
  from rtmp_worker_serves [OF ok other r(1)] r show ?thesis by auto
qed

end
