(* ===== verification/Car_Topics.thy ===== *)
theory Car_Topics
  imports Subscription Device_Id
begin

text \<open>
  The web socket side of src/new_web_server: CarTopic and CarTopicManager (CarTopicManager.h) and
  CarWebSocketServer, which subscribes a connection to the vehicle its address names, distributes
  data to the subscribers of a topic, and reports the first and the last subscriber of a vehicle.  A
  connection handle is a number in the order of \<open>std::owner_less\<close>; what the library finds behind it is an
  argument.
\<close>

section \<open>Topics\<close>

type_synonym hdl = nat

datatype connection = Expired | NullConnection | Connection

text \<open>What the server does to the outside: sending, closing, and its subscription callback.\<close>

datatype ws_out = WsSend hdl "byte list" | WsClose hdl cstring | WsNotify cstring bool

record car_topic =
  tp_device_id :: device_id_t
  tp_websocket :: bool
  tp_hdls :: "(hdl, unit) smap"

definition CarTopic_new :: "device_id_t \<Rightarrow> bool \<Rightarrow> car_topic" where
  "CarTopic_new device_id websocket = \<lparr>tp_device_id = device_id, tp_websocket = websocket, tp_hdls = []\<rparr>"

definition CarTopic_AddSubscriber :: "hdl \<Rightarrow> car_topic \<Rightarrow> car_topic" where
  "CarTopic_AddSubscriber h t = t\<lparr>tp_hdls := sm_insert h () (tp_hdls t)\<rparr>"

definition CarTopic_RemoveSubscriber :: "hdl \<Rightarrow> car_topic \<Rightarrow> car_topic" where
  "CarTopic_RemoveSubscriber h t = t\<lparr>tp_hdls := sm_erase h (tp_hdls t)\<rparr>"

definition CarTopic_Count :: "car_topic \<Rightarrow> nat" where
  "CarTopic_Count t = length (tp_hdls t)"

definition CarTopic_IsEmpty :: "car_topic \<Rightarrow> bool" where
  "CarTopic_IsEmpty t = (CarTopic_Count t = 0)"

text \<open>\<open>get_con_from_hdl\<close> throws for an expired handle; a null pointer is dereferenced.\<close>

definition SendToHdl :: "(hdl \<Rightarrow> connection) \<Rightarrow> hdl \<Rightarrow> byte list \<Rightarrow> fault + ws_out" where
  "SendToHdl con h data =
     (case con h of
        Expired \<Rightarrow> Inl Exception
      | NullConnection \<Rightarrow> Inl NullDeref
      | Connection \<Rightarrow> Inr (WsSend h data))"

fun send_loop :: "(hdl \<Rightarrow> connection) \<Rightarrow> byte list \<Rightarrow> hdl list \<Rightarrow> fault + ws_out list" where
  "send_loop con data [] = Inr []"
| "send_loop con data (h # hs) =
     rbind (SendToHdl con h data) (\<lambda>out. rbind (send_loop con data hs) (\<lambda>outs. Inr (out # outs)))"

definition CarTopic_Publish :: "(hdl \<Rightarrow> connection) \<Rightarrow> byte list \<Rightarrow> car_topic \<Rightarrow> fault + ws_out list" where
  "CarTopic_Publish con data t =
     (if \<not> tp_websocket t then Inr [] else send_loop con data (sm_keys (tp_hdls t)))"

section \<open>The topic manager\<close>

record topic_manager =
  tm_websocket :: bool
  tm_topics :: "(device_id_t, car_topic) smap"

definition ExistsTopic :: "device_id_t \<Rightarrow> topic_manager \<Rightarrow> bool" where
  "ExistsTopic device_id m = (sm_find (tm_topics m) device_id \<noteq> None)"

definition GetTopic :: "device_id_t \<Rightarrow> bool \<Rightarrow> topic_manager \<Rightarrow> car_topic option \<times> topic_manager" where
  "GetTopic device_id bCreateIfNotExists m =
     (case sm_find (tm_topics m) device_id of
        Some topic \<Rightarrow> (Some topic, m)
      | None \<Rightarrow>
          if bCreateIfNotExists
          then (let topic = CarTopic_new device_id (tm_websocket m) in
                (Some topic, m\<lparr>tm_topics := sm_set device_id topic (tm_topics m)\<rparr>))
          else (None, m))"

definition RemoveTopic :: "device_id_t \<Rightarrow> topic_manager \<Rightarrow> topic_manager" where
  "RemoveTopic device_id m =
     (if sm_find (tm_topics m) device_id \<noteq> None then m\<lparr>tm_topics := sm_erase device_id (tm_topics m)\<rparr> else m)"

definition RemoveTopics :: "device_id_t list \<Rightarrow> topic_manager \<Rightarrow> topic_manager" where
  "RemoveTopics device_ids m = m\<lparr>tm_topics := fold sm_erase device_ids (tm_topics m)\<rparr>"

definition Topics_RemoveSubscriber :: "hdl \<Rightarrow> topic_manager \<Rightarrow> topic_manager" where
  "Topics_RemoveSubscriber h m =
     m\<lparr>tm_topics := map (\<lambda>(d, t). (d, CarTopic_RemoveSubscriber h t)) (tm_topics m)\<rparr>"

definition GetEmptyTopicList :: "topic_manager \<Rightarrow> device_id_t list" where
  "GetEmptyTopicList m = map fst (filter (\<lambda>(d, t). CarTopic_IsEmpty t) (tm_topics m))"

section \<open>The web socket server\<close>

text \<open>\<open>cw_notify\<close> tells whether the subscription callback is set.\<close>

record car_ws =
  cw_manager :: topic_manager
  cw_subscribers :: "(hdl, cstring) smap"
  cw_notify :: bool

definition CarWebSocketServer_new :: car_ws where
  "CarWebSocketServer_new = \<lparr>cw_manager = \<lparr>tm_websocket = True, tm_topics = []\<rparr>, cw_subscribers = [], cw_notify = False\<rparr>"

definition UpdateData ::
  "(hdl \<Rightarrow> connection) \<Rightarrow> device_id_t \<Rightarrow> byte list \<Rightarrow> car_ws \<Rightarrow> fault + ws_out list" where
  "UpdateData con device_id data cw =
     (case fst (GetTopic device_id False (cw_manager cw)) of
        None \<Rightarrow> Inr []
      | Some topic \<Rightarrow> CarTopic_Publish con data topic)"

definition AddHdlAndSubscribeCarDeviceId :: "hdl \<Rightarrow> cstring \<Rightarrow> car_ws \<Rightarrow> int \<times> car_ws \<times> ws_out list" where
  "AddHdlAndSubscribeCarDeviceId h strDeviceId cw =
     (let cw = cw\<lparr>cw_subscribers := sm_set h strDeviceId (cw_subscribers cw)\<rparr>;
          device_id = GenerateDeviceId strDeviceId;
          (topic, m, outs) =
            (if ExistsTopic device_id (cw_manager cw)
             then (case GetTopic device_id False (cw_manager cw) of (topic, m) \<Rightarrow> (topic, m, []))
             else (case GetTopic device_id True (cw_manager cw) of (topic, m) \<Rightarrow>
                     (topic, m, if cw_notify cw \<and> topic \<noteq> None then [WsNotify strDeviceId True] else []))) in
      case topic of
        Some t \<Rightarrow>
          (0, cw\<lparr>cw_manager := m\<lparr>tm_topics := sm_set device_id (CarTopic_AddSubscriber h t) (tm_topics m)\<rparr>\<rparr>, outs)
      | None \<Rightarrow> (-1, cw\<lparr>cw_manager := m\<rparr>, outs))"

definition strLive :: cstring where
  "strLive = ascii ''/live/''"

text \<open>\<open>conn->get_request().get_uri()\<close> is \<open>uri\<close>.\<close>

definition Ws_onOpen :: "(hdl \<Rightarrow> connection) \<Rightarrow> hdl \<Rightarrow> cstring \<Rightarrow> car_ws \<Rightarrow> fault + (car_ws \<times> ws_out list)" where
  "Ws_onOpen con h uri cw =
     (case con h of
        Expired \<Rightarrow> Inl Exception
      | NullConnection \<Rightarrow> Inr (cw, [])
      | Connection \<Rightarrow>
          if take (length strLive) uri = strLive
          then (let strDeviceId = drop (length strLive) uri in
                if length strDeviceId \<noteq> 14 then Inr (cw, [WsClose h (ascii ''invalid device_id'')])
                else Inr (snd (AddHdlAndSubscribeCarDeviceId h strDeviceId cw)))
          else Inr (cw, [WsClose h (ascii ''not support uri'')]))"

definition Ws_onMessage :: "(hdl \<Rightarrow> connection) \<Rightarrow> hdl \<Rightarrow> car_ws \<Rightarrow> fault + (car_ws \<times> ws_out list)" where
  "Ws_onMessage con h cw = (if con h = Expired then Inl Exception else Inr (cw, []))"

definition Ws_onError :: "hdl \<Rightarrow> car_ws \<Rightarrow> car_ws \<times> ws_out list" where
  "Ws_onError h cw = (cw, [])"

fun notify_loop :: "bool \<Rightarrow> device_id_t list \<Rightarrow> fault + ws_out list" where
  "notify_loop notify [] = Inr []"
| "notify_loop notify (d # ds) =
     rbind (if notify then rbind (GenerateDeviceIdStrByDeviceId d) (\<lambda>str. Inr [WsNotify str False]) else Inr [])
       (\<lambda>out. rbind (notify_loop notify ds) (\<lambda>outs. Inr (out @ outs)))"

definition RemoveHdlAndUnSubscribeCarDeviceId :: "hdl \<Rightarrow> car_ws \<Rightarrow> fault + (car_ws \<times> ws_out list)" where
  "RemoveHdlAndUnSubscribeCarDeviceId h cw =
     (let cw = cw\<lparr>cw_subscribers := sm_erase h (cw_subscribers cw)\<rparr>;
          m = Topics_RemoveSubscriber h (cw_manager cw);
          ids = GetEmptyTopicList m;
          cw = cw\<lparr>cw_manager := RemoveTopics ids m\<rparr> in
      rbind (notify_loop (cw_notify cw) ids) (\<lambda>outs. Inr (cw, outs)))"

definition Ws_onClose :: "hdl \<Rightarrow> car_ws \<Rightarrow> fault + (car_ws \<times> ws_out list)" where
  "Ws_onClose h cw = RemoveHdlAndUnSubscribeCarDeviceId h cw"

section \<open>Topics as a table of subscriptions\<close>

definition topics_holds :: "topic_manager \<Rightarrow> device_id_t \<Rightarrow> hdl \<Rightarrow> bool" where
  "topics_holds m d h \<longleftrightarrow> (\<exists>t. sm_find (tm_topics m) d = Some t \<and> sm_find (tp_hdls t) h = Some ())"

definition topics_wf :: "topic_manager \<Rightarrow> bool" where
  "topics_wf m \<longleftrightarrow> sm_wf (tm_topics m) \<and>
     (\<forall>d t. sm_find (tm_topics m) d = Some t \<longrightarrow> sm_wf (tp_hdls t) \<and> tp_websocket t = tm_websocket m)"

definition topics_add :: "device_id_t \<Rightarrow> hdl \<Rightarrow> topic_manager \<Rightarrow> topic_manager" where
  "topics_add d h m =
     (case GetTopic d True m of (t, m) \<Rightarrow>
        m\<lparr>tm_topics := sm_set d (CarTopic_AddSubscriber h (the t)) (tm_topics m)\<rparr>)"

definition topics_del :: "device_id_t \<Rightarrow> hdl \<Rightarrow> topic_manager \<Rightarrow> topic_manager" where
  "topics_del d h m =
     (case GetTopic d False m of
        (Some t, m) \<Rightarrow> m\<lparr>tm_topics := sm_set d (CarTopic_RemoveSubscriber h t) (tm_topics m)\<rparr>
      | (None, m) \<Rightarrow> m)"

lemmas topics_defs = topics_add_def topics_del_def topics_holds_def topics_wf_def GetTopic_def CarTopic_new_def
  CarTopic_AddSubscriber_def CarTopic_RemoveSubscriber_def Topics_RemoveSubscriber_def

interpretation topics: subscription_table topics_holds topics_add topics_del Topics_RemoveSubscriber topics_wf
proof
  show "topics_holds (topics_add t x s) t' x' \<longleftrightarrow> topics_holds s t' x' \<or> t = t' \<and> x = x'" for s t x t' x'
    by (auto simp: topics_defs Let_def split: option.splits)
  show "topics_holds (topics_del t x s) t' x' \<longleftrightarrow> topics_holds s t' x' \<and> \<not> (t = t' \<and> x = x')" for s t x t' x'
    by (auto simp: topics_defs split: option.splits if_splits)
  show "topics_holds (Topics_RemoveSubscriber x s) t' x' \<longleftrightarrow> topics_holds s t' x' \<and> x \<noteq> x'" for s x t' x'
    by (auto simp: topics_defs split: if_splits)
  show "topics_wf (topics_add t x s)" if "topics_wf s" for s t x
    using that by (auto simp: topics_defs Let_def split: option.splits)
  show "topics_wf (topics_del t x s)" if "topics_wf s" for s t x
    using that by (auto simp: topics_defs split: option.splits)
  show "topics_wf (Topics_RemoveSubscriber x s)" if "topics_wf s" for s x
    using that by (auto simp: topics_defs)
qed


text \<open>Between two handlers no topic is without a subscriber.\<close>

definition no_empty :: "topic_manager \<Rightarrow> bool" where
  "no_empty m \<longleftrightarrow> (\<forall>d. ExistsTopic d m \<longrightarrow> (\<exists>h. topics_holds m d h))"

lemma no_empty_exists: "no_empty m \<Longrightarrow> ExistsTopic d m \<longleftrightarrow> (\<exists>h. topics_holds m d h)"
  by (auto simp: no_empty_def topics_holds_def ExistsTopic_def)

lemma fold_erase: "fold sm_erase ds m = filter (\<lambda>(d, t). d \<notin> set ds) m"
proof (induction ds arbitrary: m)
  case (Cons d ds)
  have "filter (\<lambda>(d', t). d' \<notin> set ds) (sm_erase d m) = filter (\<lambda>(d', t). d' \<notin> set (d # ds)) m"
    unfolding sm_erase_def filter_filter by (rule filter_cong) auto
  with Cons show ?case by simp
qed simp

lemma empty_topic: "CarTopic_IsEmpty t \<longleftrightarrow> (\<forall>h. sm_find (tp_hdls t) h \<noteq> Some ())"
proof (cases "tp_hdls t")
  case (Cons p m)
  then have "sm_find (tp_hdls t) (fst p) = Some ()" by (cases p) simp
  with Cons show ?thesis by (auto simp: CarTopic_IsEmpty_def CarTopic_Count_def)
qed (simp add: CarTopic_IsEmpty_def CarTopic_Count_def)

lemma empty_list:
  assumes "topics_wf m"
  shows "d \<in> set (GetEmptyTopicList m) \<longleftrightarrow> ExistsTopic d m \<and> \<not> (\<exists>h. topics_holds m d h)"
proof -
  have wf: "sm_wf (tm_topics m)" using assms by (simp add: topics_wf_def)
  have "d \<in> set (GetEmptyTopicList m) \<longleftrightarrow> (\<exists>t. (d, t) \<in> set (tm_topics m) \<and> CarTopic_IsEmpty t)"
    by (force simp: GetEmptyTopicList_def)
  also have "\<dots> \<longleftrightarrow> (\<exists>t. sm_find (tm_topics m) d = Some t \<and> CarTopic_IsEmpty t)"
    using sm_wf_in_find [OF wf] sm_find_in by metis
  finally have "d \<in> set (GetEmptyTopicList m) \<longleftrightarrow> (\<exists>t. sm_find (tm_topics m) d = Some t \<and> CarTopic_IsEmpty t)" .
  then show ?thesis by (auto simp: empty_topic topics_holds_def ExistsTopic_def)
qed

lemma distinct_empty_list: "topics_wf m \<Longrightarrow> distinct (GetEmptyTopicList m)"
  unfolding GetEmptyTopicList_def topics_wf_def
  by (metis (no_types, lifting) sm_keys_def sm_wf_distinct sm_wf_filter)

text \<open>Dropping the empty topics loses no subscription.\<close>

lemma drop_empty:
  assumes "topics_wf m"
  shows "topics_wf (RemoveTopics (GetEmptyTopicList m) m)"
    "topics_holds (RemoveTopics (GetEmptyTopicList m) m) = topics_holds m"
    "no_empty (RemoveTopics (GetEmptyTopicList m) m)"
proof -
  let ?m = "RemoveTopics (GetEmptyTopicList m) m"
  have wf: "sm_wf (tm_topics m)" using assms by (simp add: topics_wf_def)
  have f: "sm_find (tm_topics ?m) d =
      (if d \<in> set (GetEmptyTopicList m) then None else sm_find (tm_topics m) d)" for d
    by (auto simp: RemoveTopics_def fold_erase sm_find_filter [OF wf] split: option.splits)
  then show wf': "topics_wf ?m" using assms by (auto simp: topics_wf_def RemoveTopics_def fold_erase split: if_splits)
  show h: "topics_holds ?m = topics_holds m"
    using f empty_list [OF assms] by (auto simp: fun_eq_iff topics_holds_def split: if_splits)
  show "no_empty ?m"
    using f empty_list [OF assms] by (auto simp: no_empty_def ExistsTopic_def h split: if_splits)
qed

section \<open>The handlers\<close>

text \<open>Topics are exact: who is in which is what the table of connections says.\<close>

definition cw_exact :: "car_ws \<Rightarrow> bool" where
  "cw_exact cw \<longleftrightarrow> topics_wf (cw_manager cw) \<and> no_empty (cw_manager cw) \<and>
     (\<forall>d h. topics_holds (cw_manager cw) d h \<longleftrightarrow>
       (\<exists>str. sm_find (cw_subscribers cw) h = Some str \<and> d = GenerateDeviceId str))"

text \<open>What jt1078_server makes of the notifications, which are passed on to it as requests.\<close>

fun notified :: "ws_out list \<Rightarrow> device_id_t \<Rightarrow> bool \<Rightarrow> bool" where
  "notified [] d b = b"
| "notified (WsNotify str sub # outs) d b = notified outs d (if GenerateDeviceIdByBuffer str = d then sub else b)"
| "notified (_ # outs) d b = notified outs d b"

lemma notified_append: "notified (os @ os') d b = notified os' d (notified os d b)"
  by (induction os d b rule: notified.induct) auto

lemma by_buffer: "GenerateDeviceIdByBuffer str = GenerateDeviceId str"
  by (simp add: GenerateDeviceIdByBuffer_def GenerateDeviceId_def)

lemma AddHdl_eq:
  "AddHdlAndSubscribeCarDeviceId h str cw =
    (0, cw\<lparr>cw_subscribers := sm_set h str (cw_subscribers cw),
           cw_manager := topics_add (GenerateDeviceId str) h (cw_manager cw)\<rparr>,
     if \<not> ExistsTopic (GenerateDeviceId str) (cw_manager cw) \<and> cw_notify cw then [WsNotify str True] else [])"
  by (auto simp: AddHdlAndSubscribeCarDeviceId_def topics_add_def GetTopic_def ExistsTopic_def Let_def split: option.splits)

lemma exact_add:
  assumes "cw_exact cw" "sm_find (cw_subscribers cw) h = None" "cw_notify cw"
    "AddHdlAndSubscribeCarDeviceId h str cw = (r, cw', outs)"
  shows "cw_exact cw'" "cw_notify cw'"
    "notified outs d (ExistsTopic d (cw_manager cw)) = ExistsTopic d (cw_manager cw')"
proof -
  let ?d = "GenerateDeviceId str" and ?m = "cw_manager cw"
  have cw': "cw' = cw\<lparr>cw_subscribers := sm_set h str (cw_subscribers cw), cw_manager := topics_add ?d h ?m\<rparr>"
    and outs: "outs = (if \<not> ExistsTopic ?d ?m then [WsNotify str True] else [])"
    using assms(3,4) by (simp_all add: AddHdl_eq)
  have wf: "topics_wf ?m" and ne: "no_empty ?m" using assms(1) by (simp_all add: cw_exact_def)
  have ex: "ExistsTopic d (topics_add ?d h ?m) \<longleftrightarrow> ExistsTopic d ?m \<or> d = ?d" for d
    by (auto simp: ExistsTopic_def topics_add_def GetTopic_def Let_def split: option.splits)
  have "no_empty (topics_add ?d h ?m)"
    using ne by (auto simp: no_empty_def ex topics.holds_add [OF wf])
  then show "cw_exact cw'"
    using assms(1,2) topics.inv_add [OF wf] unfolding cw_exact_def cw'
    by (auto simp: topics.holds_add [OF wf])
  show "cw_notify cw'" using assms(3) by (simp add: cw')
  show "notified outs d (ExistsTopic d (cw_manager cw)) = ExistsTopic d (cw_manager cw')"
    by (simp add: cw' ex outs by_buffer)
qed

lemma notify_loop_eq:
  "\<forall>d \<in> set ds. unat d < 2 ^ 56 \<Longrightarrow>
    notify_loop True ds = Inr (map (\<lambda>d. WsNotify (hex_str 14 (unat d)) False) ds)"
  by (induction ds) (simp_all add: GenerateDeviceIdStrByDeviceId_eq res_simps del: hex_str.simps)

lemma notify_loop_fault:
  "\<exists>d \<in> set ds. 2 ^ 60 \<le> unat d \<Longrightarrow> notify_loop True ds = Inl OutOfBounds"
proof (induction ds)
  case (Cons d ds)
  show ?case
  proof (cases "2 ^ 60 \<le> unat d")
    case False
    then have "length (hex_str (if unat d < 16 ^ 14 then 14 else if unat d < 16 ^ 15 then 15 else 16) (unat d)) < 16"
      by (auto simp del: hex_str.simps)
    moreover have "\<exists>s. (if 16 \<le> n then Inl f else Inr x) = Inr s" if "n < 16" for n :: nat and f :: fault and x :: cstring
      using that by simp
    ultimately obtain s where "GenerateDeviceIdStrByDeviceId d = Inr s"
      unfolding GenerateDeviceIdStrByDeviceId_def Let_def by blast
    with Cons False show ?thesis by (simp add: res_simps)
  qed (simp add: device_id_text_overflow res_simps)
qed simp


text \<open>Leaving: the subscriptions go, the topics that become empty are reported, the rest stays.\<close>

lemma exact_leave:
  assumes "cw_exact cw" "cw_notify cw"
    "cw0 = cw\<lparr>cw_subscribers := sm_erase h (cw_subscribers cw), cw_manager := Topics_RemoveSubscriber h (cw_manager cw)\<rparr>"
    "cw' = cw0\<lparr>cw_manager := RemoveTopics (GetEmptyTopicList (cw_manager cw0)) (cw_manager cw0)\<rparr>"
  shows "cw_exact cw'"
    "RemoveHdlAndUnSubscribeCarDeviceId h cw =
      rbind (notify_loop True (GetEmptyTopicList (cw_manager cw0))) (\<lambda>outs. Inr (cw', outs))"
    "d \<in> set (GetEmptyTopicList (cw_manager cw0)) \<longleftrightarrow> ExistsTopic d (cw_manager cw) \<and> \<not> ExistsTopic d (cw_manager cw')"
    "ExistsTopic d (cw_manager cw') \<Longrightarrow> ExistsTopic d (cw_manager cw)"
proof -
  let ?m = "cw_manager cw" and ?mid = "cw_manager cw0" and ?m' = "cw_manager cw'"
  have wf: "topics_wf ?m" and ne: "no_empty ?m" using assms(1) by (simp_all add: cw_exact_def)
  have m0: "?mid = Topics_RemoveSubscriber h ?m" and m': "?m' = RemoveTopics (GetEmptyTopicList ?mid) ?mid"
    by (simp_all add: assms(3,4))
  have wf0: "topics_wf ?mid" unfolding m0 by (rule topics.inv_gone [OF wf])
  have h0: "topics_holds ?mid d h' \<longleftrightarrow> topics_holds ?m d h' \<and> h \<noteq> h'" for d h'
    unfolding m0 by (rule topics.holds_gone [OF wf])
  note d = drop_empty [OF wf0, folded m']
  have s': "cw_subscribers cw' = sm_erase h (cw_subscribers cw)" by (simp add: assms(3,4))
  show "cw_exact cw'"
    using d assms(1) unfolding cw_exact_def s' by (auto simp: h0)
  show "RemoveHdlAndUnSubscribeCarDeviceId h cw =
      rbind (notify_loop True (GetEmptyTopicList ?mid)) (\<lambda>outs. Inr (cw', outs))"
    using assms(2) by (simp add: RemoveHdlAndUnSubscribeCarDeviceId_def Let_def assms(3,4))
  have e0: "ExistsTopic d ?mid \<longleftrightarrow> ExistsTopic d ?m" for d
    by (simp add: ExistsTopic_def m0 Topics_RemoveSubscriber_def)
  have e': "ExistsTopic d ?m' \<longleftrightarrow> (\<exists>h'. topics_holds ?mid d h')" for d
    using no_empty_exists [OF d(3)] d(2) by simp
  show "d \<in> set (GetEmptyTopicList ?mid) \<longleftrightarrow> ExistsTopic d ?m \<and> \<not> ExistsTopic d ?m'"
    using empty_list [OF wf0] by (simp add: e0 e')
  show "ExistsTopic d ?m' \<Longrightarrow> ExistsTopic d ?m"
    using no_empty_exists [OF ne] by (auto simp: e' h0)
qed

lemma notified_unsubs:
  "\<forall>d \<in> set ds. unat d < 2 ^ 56 \<Longrightarrow>
    notified (map (\<lambda>d. WsNotify (hex_str 14 (unat d)) False) ds) d b = (b \<and> d \<notin> set ds)"
  by (induction ds arbitrary: b) (auto simp: by_buffer device_text_reads_back simp del: hex_str.simps)

lemma exact_close:
  assumes "cw_exact cw" "cw_notify cw" "\<forall>d. ExistsTopic d (cw_manager cw) \<longrightarrow> unat d < 2 ^ 56"
  obtains cw' outs where "RemoveHdlAndUnSubscribeCarDeviceId h cw = Inr (cw', outs)" "cw_exact cw'" "cw_notify cw'"
    "cw_subscribers cw' = sm_erase h (cw_subscribers cw)"
    "\<forall>d. notified outs d (ExistsTopic d (cw_manager cw)) = ExistsTopic d (cw_manager cw')"
    "\<forall>d. ExistsTopic d (cw_manager cw') \<longrightarrow> ExistsTopic d (cw_manager cw)"
proof -
  define cw0 where "cw0 = cw\<lparr>cw_subscribers := sm_erase h (cw_subscribers cw),
    cw_manager := Topics_RemoveSubscriber h (cw_manager cw)\<rparr>"
  define cw' where "cw' = cw0\<lparr>cw_manager := RemoveTopics (GetEmptyTopicList (cw_manager cw0)) (cw_manager cw0)\<rparr>"
  define ds where "ds = GetEmptyTopicList (cw_manager cw0)"
  note l = exact_leave [OF assms(1,2) cw0_def cw'_def, folded ds_def]
  have small: "\<forall>d \<in> set ds. unat d < 2 ^ 56" using l(3) assms(3) by blast
  show ?thesis
  proof (rule that)
    show "RemoveHdlAndUnSubscribeCarDeviceId h cw = Inr (cw', map (\<lambda>d. WsNotify (hex_str 14 (unat d)) False) ds)"
      using l(2) notify_loop_eq [OF small] by (simp add: res_simps del: hex_str.simps)
    show "\<forall>d. notified (map (\<lambda>d. WsNotify (hex_str 14 (unat d)) False) ds) d (ExistsTopic d (cw_manager cw)) =
        ExistsTopic d (cw_manager cw')"
      using l(3,4) notified_unsubs [OF small] by blast
  qed (use l assms(2) in \<open>auto simp: cw'_def cw0_def\<close>)
qed

text \<open>
  An address may name an identifier whose text does not fit: closing the last connection of such a
  vehicle writes behind the buffer of \<open>GenerateDeviceIdStrByDeviceId\<close>.
\<close>

lemma exact_close_overflow:
  assumes "cw_exact cw" "cw_notify cw" "topics_holds (cw_manager cw) d h" "2 ^ 60 \<le> unat d"
    "\<forall>h'. topics_holds (cw_manager cw) d h' \<longrightarrow> h' = h"
  shows "RemoveHdlAndUnSubscribeCarDeviceId h cw = Inl OutOfBounds"
proof -
  define cw0 where "cw0 = cw\<lparr>cw_subscribers := sm_erase h (cw_subscribers cw),
    cw_manager := Topics_RemoveSubscriber h (cw_manager cw)\<rparr>"
  have wf: "topics_wf (cw_manager cw)" using assms(1) by (simp add: cw_exact_def)
  have wf0: "topics_wf (cw_manager cw0)" by (simp add: cw0_def topics.inv_gone [OF wf])
  have "ExistsTopic d (cw_manager cw0)"
    using assms(3) by (auto simp: cw0_def ExistsTopic_def Topics_RemoveSubscriber_def topics_holds_def)
  moreover have "\<not> topics_holds (cw_manager cw0) d h'" for h'
    using topics.holds_gone [OF wf, of h d h'] assms(5) by (auto simp: cw0_def)
  ultimately have "d \<in> set (GetEmptyTopicList (cw_manager cw0))" unfolding empty_list [OF wf0] by blast
  with notify_loop_fault assms(4) have "notify_loop True (GetEmptyTopicList (cw_manager cw0)) = Inl OutOfBounds" by blast
  then show ?thesis
    using exact_leave(2) [OF assms(1,2) cw0_def refl] by (simp add: res_simps)
qed

section \<open>Runs\<close>

datatype ws_event = WsOpen hdl cstring | WsMessage hdl | WsClosed hdl | WsError hdl

definition ws_step :: "(hdl \<Rightarrow> connection) \<Rightarrow> ws_event \<Rightarrow> car_ws \<Rightarrow> fault + (car_ws \<times> ws_out list)" where
  "ws_step con ev cw =
     (case ev of
        WsOpen h uri \<Rightarrow> Ws_onOpen con h uri cw
      | WsMessage h \<Rightarrow> Ws_onMessage con h cw
      | WsClosed h \<Rightarrow> Ws_onClose h cw
      | WsError h \<Rightarrow> Inr (Ws_onError h cw))"

fun ws_run :: "(hdl \<Rightarrow> connection) \<Rightarrow> ws_event list \<Rightarrow> car_ws \<Rightarrow> fault + (car_ws \<times> ws_out list)" where
  "ws_run con [] cw = Inr (cw, [])"
| "ws_run con (ev # evs) cw =
     rbind (ws_step con ev cw) (\<lambda>(cw, out). rbind (ws_run con evs cw) (\<lambda>(cw, outs). Inr (cw, out @ outs)))"

text \<open>
  The vehicle a connection has asked for: the text behind \<open>/live/\<close> of the address it opened with, if
  it is of the right length, until it closes.
\<close>

definition asked :: "cstring \<Rightarrow> cstring option" where
  "asked uri =
     (if take 6 uri = strLive \<and> length (drop 6 uri) = 14 then Some (drop 6 uri) else None)"

fun watching :: "hdl \<Rightarrow> ws_event list \<Rightarrow> cstring option \<Rightarrow> cstring option" where
  "watching h [] w = w"
| "watching h (ev # evs) w = watching h evs
     (case ev of
        WsOpen h' uri \<Rightarrow> if h' = h then asked uri else w
      | WsClosed h' \<Rightarrow> if h' = h then None else w
      | _ \<Rightarrow> w)"

text \<open>A handle opens once, and the texts name identifiers of at most 14 digits.\<close>

fun ws_evs_ok :: "hdl set \<Rightarrow> ws_event list \<Rightarrow> bool" where
  "ws_evs_ok seen [] = True"
| "ws_evs_ok seen (WsOpen h uri # evs) =
     (h \<notin> seen \<and> (case asked uri of None \<Rightarrow> True | Some str \<Rightarrow> unat (GenerateDeviceId str) < 2 ^ 56) \<and>
      ws_evs_ok (insert h seen) evs)"
| "ws_evs_ok seen (ev # evs) = ws_evs_ok seen evs"


definition ws_ok :: "hdl set \<Rightarrow> car_ws \<Rightarrow> bool" where
  "ws_ok seen cw \<longleftrightarrow> cw_exact cw \<and> cw_notify cw \<and> (\<forall>d. ExistsTopic d (cw_manager cw) \<longrightarrow> unat d < 2 ^ 56) \<and>
     (\<forall>h. h \<notin> seen \<longrightarrow> sm_find (cw_subscribers cw) h = None)"

lemma ws_ok_new: "ws_ok {} (CarWebSocketServer_new\<lparr>cw_notify := True\<rparr>)"
  by (simp add: ws_ok_def cw_exact_def topics_wf_def no_empty_def topics_holds_def ExistsTopic_def CarWebSocketServer_new_def)

lemma new_server [simp]:
  "sm_find (cw_subscribers CarWebSocketServer_new) h = None" "\<not> ExistsTopic d (cw_manager CarWebSocketServer_new)"
  by (simp_all add: CarWebSocketServer_new_def ExistsTopic_def)

lemma strLive_length [simp]: "length strLive = 6"
  by (simp add: strLive_def ascii_def)

lemma ws_step_ok:
  assumes "ws_ok seen cw" "\<forall>h. con h = Connection" "ws_evs_ok seen (ev # evs)"
  obtains cw' outs seen' where "ws_step con ev cw = Inr (cw', outs)" "ws_ok seen' cw'" "ws_evs_ok seen' evs"
    "\<forall>h. sm_find (cw_subscribers cw') h = watching h [ev] (sm_find (cw_subscribers cw) h)"
    "\<forall>d. notified outs d (ExistsTopic d (cw_manager cw)) = ExistsTopic d (cw_manager cw')"
proof (cases ev)
  case (WsOpen h uri)
  have new: "h \<notin> seen" "sm_find (cw_subscribers cw) h = None" "ws_evs_ok (insert h seen) evs"
    using assms(1,3) by (auto simp: WsOpen ws_ok_def)
  show ?thesis
  proof (cases "asked uri")
    case None
    then have "\<exists>outs. ws_step con ev cw = Inr (cw, outs) \<and> (\<forall>d b. notified outs d b = b)"
      using assms(2) by (auto simp: WsOpen ws_step_def Ws_onOpen_def asked_def Let_def split: if_splits)
    then show ?thesis
      using that [of cw _ "insert h seen"] assms(1) new None by (auto simp: WsOpen ws_ok_def)
  next
    case (Some str)
    then have u: "take 6 uri = strLive" "length str = 14" "str = drop 6 uri" by (auto simp: asked_def split: if_splits)
    obtain r cw' outs where a: "AddHdlAndSubscribeCarDeviceId h str cw = (r, cw', outs)"
      by (cases "AddHdlAndSubscribeCarDeviceId h str cw") auto
    have i: "cw_exact cw" "cw_notify cw" using assms(1) by (simp_all add: ws_ok_def)
    note e = exact_add [OF i(1) new(2) i(2) a]
    have small: "unat (GenerateDeviceId str) < 2 ^ 56" using assms(3) Some by (simp add: WsOpen)
    have cw': "cw' = cw\<lparr>cw_subscribers := sm_set h str (cw_subscribers cw),
        cw_manager := topics_add (GenerateDeviceId str) h (cw_manager cw)\<rparr>"
      using a by (simp add: AddHdl_eq)
    have ex: "ExistsTopic d (cw_manager cw') \<longleftrightarrow> ExistsTopic d (cw_manager cw) \<or> d = GenerateDeviceId str" for d
      by (auto simp: cw' ExistsTopic_def topics_add_def GetTopic_def Let_def split: option.splits)
    have "ws_step con ev cw = Inr (cw', outs)"
      using assms(2) u a by (simp add: WsOpen ws_step_def Ws_onOpen_def)
    moreover have "ws_ok (insert h seen) cw'"
      using assms(1) e(1,2) small ex by (auto simp: ws_ok_def cw')
    ultimately show ?thesis
      using that [of cw' outs "insert h seen"] new(3) e(3) Some by (auto simp: WsOpen cw')
  qed
next
  case (WsClosed h)
  have i: "cw_exact cw" "cw_notify cw" "\<forall>d. ExistsTopic d (cw_manager cw) \<longrightarrow> unat d < 2 ^ 56"
    using assms(1) by (simp_all add: ws_ok_def)
  obtain cw' outs where c: "RemoveHdlAndUnSubscribeCarDeviceId h cw = Inr (cw', outs)" "cw_exact cw'" "cw_notify cw'"
    "cw_subscribers cw' = sm_erase h (cw_subscribers cw)"
    "\<forall>d. notified outs d (ExistsTopic d (cw_manager cw)) = ExistsTopic d (cw_manager cw')"
    "\<forall>d. ExistsTopic d (cw_manager cw') \<longrightarrow> ExistsTopic d (cw_manager cw)"
    by (rule exact_close [OF i])
  then have "ws_ok seen cw'" using assms(1) by (auto simp: ws_ok_def)
  with c show ?thesis
    using that [of cw' outs seen] assms(3) by (auto simp: WsClosed ws_step_def Ws_onClose_def)
qed (use that [of cw "[]" seen] assms in \<open>auto simp: ws_step_def Ws_onMessage_def Ws_onError_def\<close>)

lemma watching_Cons: "watching h (ev # evs) w = watching h evs (watching h [ev] w)"
  by (cases ev) auto

lemma ws_run_ok:
  assumes "ws_ok seen cw" "\<forall>h. con h = Connection" "ws_evs_ok seen evs"
  shows "\<exists>cw' outs seen'. ws_run con evs cw = Inr (cw', outs) \<and> ws_ok seen' cw' \<and>
    (\<forall>h. sm_find (cw_subscribers cw') h = watching h evs (sm_find (cw_subscribers cw) h)) \<and>
    (\<forall>d. notified outs d (ExistsTopic d (cw_manager cw)) = ExistsTopic d (cw_manager cw'))"
  using assms(1,3)
proof (induction evs arbitrary: seen cw)
  case (Cons ev evs)
  obtain cw1 out1 seen1 where s: "ws_step con ev cw = Inr (cw1, out1)" "ws_ok seen1 cw1" "ws_evs_ok seen1 evs"
    "\<forall>h. sm_find (cw_subscribers cw1) h = watching h [ev] (sm_find (cw_subscribers cw) h)"
    "\<forall>d. notified out1 d (ExistsTopic d (cw_manager cw)) = ExistsTopic d (cw_manager cw1)"
    using ws_step_ok [OF Cons.prems(1) assms(2) Cons.prems(2)] by metis
  from Cons.IH [OF s(2,3)] show ?case
  proof (elim exE conjE, goal_cases)
    case (1 cw' outs seen')
    then show ?case
      using s by (auto simp: res_simps notified_append watching_Cons [of _ ev evs])
  qed
qed auto

text \<open>
  C30. The topics of the web socket server, when the texts asked for name identifiers below 2^56 (C31 is
  what happens otherwise), a handle opens once and every handle has a connection: any run of openings,
  messages, closings and failures ends without a fault; a connection is among the subscribers of exactly
  the vehicle it asked for when it opened, until it closes; a topic exists exactly for a vehicle somebody
  watches; and the notifications handed to the callback of the client of jt1078_server, followed in order,
  leave exactly these vehicles subscribed (what the client does with a notification is not part of this: it
  drops it while it is not connected).
\<close>

theorem car_topics_in_step:
  assumes "\<forall>h. con h = Connection" "ws_evs_ok {} evs"
  shows "\<exists>cw outs. ws_run con evs (CarWebSocketServer_new\<lparr>cw_notify := True\<rparr>) = Inr (cw, outs) \<and>
    (\<forall>d h. topics_holds (cw_manager cw) d h \<longleftrightarrow>
      (\<exists>str. watching h evs None = Some str \<and> d = GenerateDeviceId str)) \<and>
    (\<forall>d. ExistsTopic d (cw_manager cw) \<longleftrightarrow> (\<exists>h str. watching h evs None = Some str \<and> d = GenerateDeviceId str)) \<and>
    (\<forall>d. notified outs d False = ExistsTopic d (cw_manager cw))"
  using ws_run_ok [OF ws_ok_new assms]
proof (elim exE conjE, goal_cases)
  case (1 cw outs seen)
  have "cw_exact cw" using 1(2) by (simp add: ws_ok_def)
  then have h: "topics_holds (cw_manager cw) d h \<longleftrightarrow>
      (\<exists>str. watching h evs None = Some str \<and> d = GenerateDeviceId str)" for d h
    using 1(3) by (simp add: cw_exact_def)
  moreover have "no_empty (cw_manager cw)" using \<open>cw_exact cw\<close> by (simp add: cw_exact_def)
  ultimately show ?case using 1(1,4) by (simp add: no_empty_exists)
qed

theorem car_topics_in_step_witness:
  "\<exists>cw outs. ws_run (\<lambda>_. Connection)
      [WsOpen 1 (strLive @ ascii ''01380000100203''), WsOpen 2 (strLive @ ascii ''01380000100203''), WsClosed 1]
      (CarWebSocketServer_new\<lparr>cw_notify := True\<rparr>) = Inr (cw, outs) \<and>
    topics_holds (cw_manager cw) 0x01380000100203 2 \<and> notified outs 0x01380000100203 False"
proof -
  let ?evs = "[WsOpen 1 (strLive @ ascii ''01380000100203''), WsOpen 2 (strLive @ ascii ''01380000100203''), WsClosed 1]"
  have id: "GenerateDeviceId (ascii ''01380000100203'') = 0x01380000100203"
    by (simp add: GenerateDeviceId_def strtoull16_def is_space_def skip_sign_def skip_0x_def hex_value_def Let_def ascii_def)
  have as: "asked (strLive @ ascii ''01380000100203'') = Some (ascii ''01380000100203'')"
    by (simp add: asked_def ascii_def)
  have ok: "ws_evs_ok {} ?evs" by (simp add: as id)
  have w: "watching 2 ?evs None = Some (ascii ''01380000100203'')" by (simp add: as)
  have "\<forall>h. (\<lambda>_. Connection) h = Connection" by simp
  from car_topics_in_step [OF this ok] show ?thesis
  proof (elim exE conjE, goal_cases)
    case (1 cw outs)
    have "topics_holds (cw_manager cw) 0x01380000100203 2"
      by (rule iffD2 [OF 1(2) [rule_format]]) (intro exI conjI, rule w, rule id [symmetric])
    moreover have "ExistsTopic 0x01380000100203 (cw_manager cw)"
      by (rule iffD2 [OF 1(3) [rule_format]]) (intro exI conjI, rule w, rule id [symmetric])
    ultimately show ?case using 1(1,4) by blast
  qed
qed


lemma watching_absent: "\<forall>uri. WsOpen h uri \<notin> set evs \<Longrightarrow> watching h evs None = None"
  by (induction evs) (auto split: ws_event.splits)

text \<open>
  C31. Whoever connects can bring the server down: after any run as in C30, if a handle that was not used
  before connects and asks for a text whose identifier has 16 digits, as every text of a minus sign and
  a number other than 0 does, the server faults when that connection closes.
\<close>

theorem car_topics_negative_text:
  assumes "\<forall>h. con h = Connection" "ws_evs_ok {} evs" "\<forall>uri. WsOpen h uri \<notin> set evs"
    and "asked uri = Some str" "2 ^ 60 \<le> unat (GenerateDeviceId str)"
  shows "\<exists>cw outs. ws_run con evs (CarWebSocketServer_new\<lparr>cw_notify := True\<rparr>) = Inr (cw, outs) \<and>
    ws_run con [WsOpen h uri, WsClosed h] cw = Inl OutOfBounds"
  using ws_run_ok [OF ws_ok_new assms(1,2)]
proof (elim exE conjE, goal_cases)
  case (1 cw outs seen)
  let ?d = "GenerateDeviceId str"
  have i: "cw_exact cw" "cw_notify cw" and small: "\<forall>d. ExistsTopic d (cw_manager cw) \<longrightarrow> unat d < 2 ^ 56"
    using 1(2) by (simp_all add: ws_ok_def)
  have new: "sm_find (cw_subscribers cw) h = None" using 1(3) watching_absent [OF assms(3)] by simp
  obtain r cw' outs' where a: "AddHdlAndSubscribeCarDeviceId h str cw = (r, cw', outs')"
    by (cases "AddHdlAndSubscribeCarDeviceId h str cw") auto
  note e = exact_add [OF i(1) new i(2) a]
  have u: "take 6 uri = strLive" "length str = 14" "str = drop 6 uri" using assms(4) by (auto simp: asked_def split: if_splits)
  have o: "ws_step con (WsOpen h uri) cw = Inr (cw', outs')"
    using assms(1) u a by (simp add: ws_step_def Ws_onOpen_def)
  have wf: "topics_wf (cw_manager cw)" using i(1) by (simp add: cw_exact_def)
  have m: "cw_manager cw' = topics_add ?d h (cw_manager cw)" using a by (simp add: AddHdl_eq split: if_splits) auto
  have "\<not> ExistsTopic ?d (cw_manager cw)" using small assms(5) by fastforce
  then have th: "topics_holds (cw_manager cw') ?d h' \<longleftrightarrow> h' = h" for h'
    using topics.holds_add [OF wf, of ?d h ?d h'] by (auto simp: m topics_holds_def ExistsTopic_def)
  have "RemoveHdlAndUnSubscribeCarDeviceId h cw' = Inl OutOfBounds"
    by (rule exact_close_overflow [OF e(1,2) _ assms(5)]) (simp_all only: th simp_thms)
  then have "ws_step con (WsClosed h) cw' = Inl OutOfBounds" by (simp only: ws_step_def Ws_onClose_def ws_event.case)
  with o have "ws_run con [WsOpen h uri, WsClosed h] cw = Inl OutOfBounds" by (simp add: res_simps)
  with 1(1) show ?case by blast
qed

theorem car_topics_negative_text_witness:
  "ws_run (\<lambda>_. Connection) [WsOpen 1 (strLive @ ascii ''-0000000000001''), WsClosed 1]
    (CarWebSocketServer_new\<lparr>cw_notify := True\<rparr>) = Inl OutOfBounds"
proof -
  have as: "asked (strLive @ ascii ''-0000000000001'') = Some (ascii ''-0000000000001'')"
    by (simp add: asked_def ascii_def)
  have id: "GenerateDeviceId (ascii ''-0000000000001'') = - 1"
    by (simp add: GenerateDeviceId_def strtoull16_def is_space_def skip_sign_def skip_0x_def hex_value_def Let_def ascii_def)
  have "2 ^ 60 \<le> unat (GenerateDeviceId (ascii ''-0000000000001''))" unfolding id by (simp add: unsigned_minus_1_eq_mask mask_eq_exp_minus_1)
  from car_topics_negative_text [OF _ _ _ as this, of "\<lambda>_. Connection" "[]" 1] show ?thesis by simp
qed

end
