(* ===== verification/Car_Client.thy ===== *)
theory Car_Client
  imports Car_Topics Ipc_Packet
begin

text \<open>
  The client side of src/new_web_server and the server that joins both sides: the timer of AsioTimer.h,
  TcpConnection.h and TcpClient.h as the operations they keep in flight, CarTcpClient.cpp with the ipc
  decoder, and CarWebServer.cpp.  What asio answers (whether a name resolves, how much of a buffer is
  taken at once, what was read) are arguments.
\<close>

section \<open>The timer\<close>

text \<open>\<open>at_pending\<close> waits are running, \<open>at_aborted\<close> ones were cancelled and are going to be called back.\<close>

record asio_timer =
  at_waitting :: bool
  at_pending :: nat
  at_aborted :: nat

definition AsioTimer_new :: asio_timer where
  "AsioTimer_new = \<lparr>at_waitting = False, at_pending = 0, at_aborted = 0\<rparr>"

definition AsioTimer_Start :: "asio_timer \<Rightarrow> asio_timer" where
  "AsioTimer_Start t =
     (if at_waitting t then t
      else \<lparr>at_waitting = True, at_pending = 1, at_aborted = at_aborted t + at_pending t\<rparr>)"

definition AsioTimer_Stop :: "asio_timer \<Rightarrow> asio_timer" where
  "AsioTimer_Stop t = \<lparr>at_waitting = False, at_pending = 0, at_aborted = at_aborted t + at_pending t\<rparr>"

section \<open>The client\<close>

text \<open>
  \<open>cl_connects\<close> and \<open>cl_reads\<close> count the operations whose handler has not been called yet;
  \<open>cl_notify\<close> tells whether the data callback is set.
\<close>

record car_client =
  cl_seq :: u32
  cl_decoder :: ipc_decoder
  cl_notify :: bool
  cl_open :: bool
  cl_timer :: asio_timer
  cl_connects :: nat
  cl_reads :: nat

definition tcp_Close :: "car_client \<Rightarrow> car_client" where
  "tcp_Close c = (if cl_open c then c\<lparr>cl_open := False\<rparr> else c)"

text \<open>\<open>resolve\<close> throws when the name cannot be resolved.\<close>

definition tcp_Connect :: "bool \<Rightarrow> car_client \<Rightarrow> fault + car_client" where
  "tcp_Connect resolved c =
     (if \<not> resolved then Inl Exception else Inr (c\<lparr>cl_open := True, cl_connects := cl_connects c + 1\<rparr>))"

definition ReConnect :: "bool \<Rightarrow> car_client \<Rightarrow> fault + car_client" where
  "ReConnect resolved c = tcp_Connect resolved (tcp_Close c)"

definition AsyncRead :: "car_client \<Rightarrow> car_client" where
  "AsyncRead c = c\<lparr>cl_reads := cl_reads c + 1\<rparr>"

text \<open>The constructor leaves the sequence number uninitialised: \<open>junk\<close>.\<close>

definition CarTcpClient_new :: "u32 \<Rightarrow> bool \<Rightarrow> fault + car_client" where
  "CarTcpClient_new junk resolved =
     tcp_Connect resolved \<lparr>cl_seq = junk, cl_decoder = ipc_decoder_new, cl_notify = False, cl_open = False,
       cl_timer = AsioTimer_new, cl_connects = 0, cl_reads = 0\<rparr>"

text \<open>
  \<open>AsyncWrite\<close> passes asio a buffer that belongs to its caller. \<open>Some n\<close>: so many bytes are written before
  it returns, and the rest would be read after the caller's packet, a local variable, is gone. \<open>None\<close>:
  the write fails, of which \<open>HandlerWriteError\<close> is told later.
\<close>

type_synonym taken = "nat option \<times> nat option"

definition AsyncWrite :: "nat option \<Rightarrow> byte list \<Rightarrow> fault + byte list" where
  "AsyncWrite taken data =
     (case taken of None \<Rightarrow> Inr [] | Some n \<Rightarrow> if n < length data then Inl UseAfterFree else Inr data)"

definition car_GetNewSendIpcPktSeqId :: "car_client \<Rightarrow> u32 \<times> car_client" where
  "car_GetNewSendIpcPktSeqId c =
     (let c = (if cl_seq c = INVALID_PKT_SEQ_ID then c\<lparr>cl_seq := 0\<rparr> else c\<lparr>cl_seq := cl_seq c + 1\<rparr>) in
      (cl_seq c, c))"

definition car_SendPacket ::
  "taken \<Rightarrow> u32 \<Rightarrow> cstring \<Rightarrow> car_client \<Rightarrow> fault + (byte list \<times> car_client)" where
  "car_SendPacket taken msk data c =
     (case car_GetNewSendIpcPktSeqId c of (seq, c) \<Rightarrow>
        (let pkt = packet_new\<lparr>m_uPktType := msk, m_uDataLength := of_nat (length data), m_uPktSeqId := seq\<rparr> in
         rbind (AsyncWrite (fst taken) (packet_header_bytes pkt)) (\<lambda>h.
           rbind (AsyncWrite (snd taken) data) (\<lambda>d. Inr (h @ d, c)))))"

definition SendSubscribeRequest :: "taken \<Rightarrow> cstring \<Rightarrow> car_client \<Rightarrow> fault + (byte list \<times> car_client)" where
  "SendSubscribeRequest taken strDeviceId c = car_SendPacket taken IPC_PKT_TYPE_SUBSCRIBE_DEVICE_ID strDeviceId c"

definition SendUnSubscribeRequest :: "taken \<Rightarrow> cstring \<Rightarrow> car_client \<Rightarrow> fault + (byte list \<times> car_client)" where
  "SendUnSubscribeRequest taken strDeviceId c = car_SendPacket taken IPC_PKT_TYPE_UNSUBSCRIBE_DEVICE_ID strDeviceId c"

text \<open>
  What is handed to the data callback: the identifier and the bytes behind it. The length is a
  \<open>size_t\<close>, so that less than 8 bytes of data make it wrap; reading behind the packet's data is a fault.
\<close>

definition ProcessIpcPacketCompleted :: "bool \<Rightarrow> ipc_packet \<Rightarrow> fault + (device_id_t \<times> byte list) option" where
  "ProcessIpcPacketCompleted notify packet =
     (if m_uPktType packet AND IPC_PKT_TYPE_MASK = IPC_PKT_TYPE_JT1078_PACKET \<and> notify
      then (let p = m_data packet; len = ucast (m_uDataLength packet) - (8 :: u64) in
            if length p < 8 \<or> length p < 8 + unat len then Inl OutOfBounds
            else Inr (Some (of_nat (le_nat (take 8 p)), take (unat len) (drop 8 p))))
      else Inr None)"

fun process_packets :: "bool \<Rightarrow> ipc_packet list \<Rightarrow> fault + (device_id_t \<times> byte list) list" where
  "process_packets notify [] = Inr []"
| "process_packets notify (p # ps) =
     rbind (ProcessIpcPacketCompleted notify p) (\<lambda>out. rbind (process_packets notify ps) (\<lambda>outs.
       Inr ((case out of None \<Rightarrow> [] | Some x \<Rightarrow> [x]) @ outs)))"

text \<open>Any end of the loop but \<open>kNeedMoreData\<close> is only logged.\<close>

definition HandlerReadBuffer :: "byte list \<Rightarrow> car_client \<Rightarrow> fault + (car_client \<times> (device_id_t \<times> byte list) list)" where
  "HandlerReadBuffer data c =
     (case ipc_PushBuffer data (cl_decoder c) of (e, d) \<Rightarrow>
        if e = ipcBufferFull then Inr (c\<lparr>cl_decoder := d\<rparr>, [])
        else (case drain ipc_Decode ipcNoError ipc_GetPacket d of
                None \<Rightarrow> Inl NoReturn
              | Some (ps, out) \<Rightarrow>
                  rbind (process_packets (cl_notify c) ps) (\<lambda>outs.
                    rbind out (\<lambda>(e, d). Inr (c\<lparr>cl_decoder := d\<rparr>, outs)))))"

definition HandlerReadError :: "car_client \<Rightarrow> car_client" where
  "HandlerReadError c = (let c = tcp_Close c in c\<lparr>cl_timer := AsioTimer_Start (cl_timer c)\<rparr>)"

definition HandlerWriteError :: "car_client \<Rightarrow> car_client" where
  "HandlerWriteError c = (let c = tcp_Close c in c\<lparr>cl_timer := AsioTimer_Start (cl_timer c)\<rparr>)"

definition HandlerConnect :: "bool \<Rightarrow> car_client \<Rightarrow> car_client" where
  "HandlerConnect ec c =
     (if ec then c\<lparr>cl_timer := AsioTimer_Start (cl_timer c)\<rparr> else AsyncRead c)"

definition OnTimerReconnectJt1078Server :: "bool \<Rightarrow> car_client \<Rightarrow> fault + car_client" where
  "OnTimerReconnectJt1078Server resolved c = ReConnect resolved c"

text \<open>The timer's callback, also called when the wait was cancelled: the function, then the flag.\<close>

definition timer_callback :: "bool \<Rightarrow> car_client \<Rightarrow> fault + car_client" where
  "timer_callback resolved c =
     rbind (OnTimerReconnectJt1078Server resolved c) (\<lambda>c.
       Inr (c\<lparr>cl_timer := (cl_timer c)\<lparr>at_waitting := False\<rparr>\<rparr>))"

section \<open>The server\<close>

record car_server =
  cs_ws :: car_ws
  cs_client :: "car_client option"

definition HandlerJt1078Data ::
  "(hdl \<Rightarrow> connection) \<Rightarrow> device_id_t \<Rightarrow> byte list \<Rightarrow> car_server \<Rightarrow> fault + ws_out list" where
  "HandlerJt1078Data con device_id data cs = UpdateData con device_id data (cs_ws cs)"

definition HandlerWsConnSubscribe ::
  "taken \<Rightarrow> cstring \<Rightarrow> bool \<Rightarrow> car_server \<Rightarrow> fault + (byte list \<times> car_server)" where
  "HandlerWsConnSubscribe taken strDeviceId bSubscribe cs =
     (case cs_client cs of
        None \<Rightarrow> Inr ([], cs)
      | Some c \<Rightarrow>
          rbind (if bSubscribe then SendSubscribeRequest taken strDeviceId c
                 else SendUnSubscribeRequest taken strDeviceId c) (\<lambda>(bytes, c).
            Inr (bytes, cs\<lparr>cs_client := Some c\<rparr>)))"

definition CarWebServer_Listen :: "car_server \<Rightarrow> car_server" where
  "CarWebServer_Listen cs = cs\<lparr>cs_ws := CarWebSocketServer_new\<lparr>cw_notify := True\<rparr>\<rparr>"

definition CarWebServer_ConnectServer :: "u32 \<Rightarrow> bool \<Rightarrow> car_server \<Rightarrow> fault + car_server" where
  "CarWebServer_ConnectServer junk resolved cs =
     rbind (CarTcpClient_new junk resolved) (\<lambda>c. Inr (cs\<lparr>cs_client := Some (c\<lparr>cl_notify := True\<rparr>)\<rparr>))"


text \<open>The notifications of the web socket side, each with the answers to its two writes.\<close>

fun pass_on :: "taken list \<Rightarrow> ws_out list \<Rightarrow> car_server \<Rightarrow> fault + (byte list \<times> car_server)" where
  "pass_on ts [] cs = Inr ([], cs)"
| "pass_on ts (WsNotify str sub # outs) cs =
     (case ts of
        [] \<Rightarrow> Inr ([], cs)
      | t # ts \<Rightarrow> rbind (HandlerWsConnSubscribe t str sub cs) (\<lambda>(b, cs).
          rbind (pass_on ts outs cs) (\<lambda>(bs, cs). Inr (b @ bs, cs))))"
| "pass_on ts (_ # outs) cs = pass_on ts outs cs"

text \<open>The decoded packets, each distributed to the subscribers of its topic.\<close>

fun distribute ::
  "(hdl \<Rightarrow> connection) \<Rightarrow> (device_id_t \<times> byte list) list \<Rightarrow> car_server \<Rightarrow> fault + ws_out list" where
  "distribute con [] cs = Inr []"
| "distribute con ((d, data) # xs) cs =
     rbind (HandlerJt1078Data con d data cs) (\<lambda>out. rbind (distribute con xs cs) (\<lambda>outs. Inr (out @ outs)))"

section \<open>Events\<close>

text \<open>
  The handlers asio may call next: \<open>Connected ec\<close> for a connect in flight, \<open>ReadDone\<close> and \<open>ReadFailed\<close> for
  a read, \<open>WriteFailed\<close>, and the timer's callback, with what the resolver answers inside it.
\<close>

datatype client_event =
    Connected bool | ReadDone "byte list" | ReadFailed | WriteFailed | TimerFired bool | TimerAborted bool

definition feasible :: "client_event \<Rightarrow> car_client \<Rightarrow> bool" where
  "feasible ev c =
     (case ev of
        Connected ec \<Rightarrow> 0 < cl_connects c
      | ReadDone data \<Rightarrow> 0 < cl_reads c \<and> length data = 1024
      | ReadFailed \<Rightarrow> 0 < cl_reads c
      | WriteFailed \<Rightarrow> True
      | TimerFired resolved \<Rightarrow> 0 < at_pending (cl_timer c)
      | TimerAborted resolved \<Rightarrow> 0 < at_aborted (cl_timer c))"

definition client_step :: "client_event \<Rightarrow> car_client \<Rightarrow> fault + (car_client \<times> (device_id_t \<times> byte list) list)" where
  "client_step ev c =
     (case ev of
        Connected ec \<Rightarrow> Inr (HandlerConnect ec (c\<lparr>cl_connects := cl_connects c - 1\<rparr>), [])
      | ReadDone data \<Rightarrow>
          rbind (HandlerReadBuffer data (c\<lparr>cl_reads := cl_reads c - 1\<rparr>)) (\<lambda>(c, outs). Inr (AsyncRead c, outs))
      | ReadFailed \<Rightarrow> Inr (HandlerReadError (c\<lparr>cl_reads := cl_reads c - 1\<rparr>), [])
      | WriteFailed \<Rightarrow> Inr (HandlerWriteError c, [])
      | TimerFired resolved \<Rightarrow>
          rbind (timer_callback resolved (c\<lparr>cl_timer := (cl_timer c)\<lparr>at_pending := at_pending (cl_timer c) - 1\<rparr>\<rparr>))
            (\<lambda>c. Inr (c, []))
      | TimerAborted resolved \<Rightarrow>
          rbind (timer_callback resolved (c\<lparr>cl_timer := (cl_timer c)\<lparr>at_aborted := at_aborted (cl_timer c) - 1\<rparr>\<rparr>))
            (\<lambda>c. Inr (c, [])))"

inductive client_reaches :: "car_client \<Rightarrow> car_client \<Rightarrow> bool" where
  reaches_refl: "client_reaches c c"
| reaches_step: "client_reaches c c' \<Longrightarrow> feasible ev c' \<Longrightarrow> client_step ev c' = Inr (c'', outs) \<Longrightarrow> client_reaches c c''"

text \<open>
  One timer at a time: the flag is set exactly while a wait runs, none was cancelled, and some
  operation is in flight, so that a handler is going to be called.
\<close>

definition trying :: "car_client \<Rightarrow> bool" where
  "trying c \<longleftrightarrow> at_pending (cl_timer c) = (if at_waitting (cl_timer c) then 1 else 0) \<and> at_aborted (cl_timer c) = 0 \<and>
     0 < cl_connects c + cl_reads c + at_pending (cl_timer c)"

lemma HandlerReadBuffer_keeps:
  "HandlerReadBuffer data c = Inr (c', outs) \<Longrightarrow> \<exists>d. c' = c\<lparr>cl_decoder := d\<rparr>"
  by (auto simp: HandlerReadBuffer_def rbind_eq_Inr split: prod.splits if_splits option.splits)

lemma AsioTimer_pending:
  "at_pending t = (if at_waitting t then 1 else 0) \<Longrightarrow> at_aborted t = 0 \<Longrightarrow>
    AsioTimer_Start t = \<lparr>at_waitting = True, at_pending = 1, at_aborted = 0\<rparr>"
  by (cases t) (auto simp: AsioTimer_Start_def)

lemma trying_step:
  assumes "trying c" "feasible ev c" "client_step ev c = Inr (c', outs)"
  shows "trying c'"
proof (cases ev)
  case (ReadDone data)
  then obtain c1 where "HandlerReadBuffer data (c\<lparr>cl_reads := cl_reads c - 1\<rparr>) = Inr (c1, outs)" "c' = AsyncRead c1"
    using assms(3) by (auto simp: client_step_def rbind_eq_Inr)
  with HandlerReadBuffer_keeps assms(1) show ?thesis by (fastforce simp: trying_def AsyncRead_def)
next
  case (TimerFired b)
  with assms show ?thesis
    by (auto simp: trying_def feasible_def client_step_def timer_callback_def OnTimerReconnectJt1078Server_def ReConnect_def
        tcp_Connect_def tcp_Close_def rbind_eq_Inr split: if_splits)
next
  case (TimerAborted b)
  with assms show ?thesis by (simp add: trying_def feasible_def)
next
  case (Connected ec)
  with assms show ?thesis
    by (cases ec) (auto simp: trying_def feasible_def client_step_def HandlerConnect_def AsyncRead_def AsioTimer_pending)
qed (use assms in \<open>auto simp: trying_def feasible_def client_step_def HandlerConnect_def AsyncRead_def HandlerReadError_def
      HandlerWriteError_def tcp_Close_def AsioTimer_pending Let_def\<close>)


text \<open>
  C32. The client of the new web server never gives up: after any run of its handlers from its construction a connect or a
  read is in flight, or the timer runs and its callback makes a new attempt, provided names resolve; the
  flag of the timer tells the truth throughout.
\<close>

theorem car_client_keeps_trying:
  assumes "CarTcpClient_new junk True = Inr c" "client_reaches c c'"
  shows "(0 < cl_connects c' + cl_reads c' \<or>
      feasible (TimerFired True) c' \<and>
      (\<exists>c''. client_step (TimerFired True) c' = Inr (c'', []) \<and> 0 < cl_connects c'' \<and> \<not> at_waitting (cl_timer c''))) \<and>
    (at_waitting (cl_timer c') \<longleftrightarrow> at_pending (cl_timer c') = 1)"
proof -
  have "trying c" using assms(1) by (auto simp: CarTcpClient_new_def tcp_Connect_def trying_def AsioTimer_new_def)
  with assms(2) have "trying c'"
    by (induction rule: client_reaches.induct) (auto intro: trying_step)
  then show ?thesis
    by (auto simp: trying_def feasible_def client_step_def timer_callback_def OnTimerReconnectJt1078Server_def
        ReConnect_def tcp_Connect_def tcp_Close_def res_simps split: if_splits)
qed

theorem car_client_keeps_trying_witness:
  "\<exists>c c' c''. CarTcpClient_new 7 True = Inr c \<and> client_reaches c c' \<and> cl_connects c' + cl_reads c' = 0 \<and>
    client_step (TimerFired True) c' = Inr (c'', []) \<and> 0 < cl_connects c''"
proof -
  obtain c where c: "CarTcpClient_new 7 True = Inr c" by (simp add: CarTcpClient_new_def tcp_Connect_def)
  define c' where "c' = HandlerConnect True (c\<lparr>cl_connects := cl_connects c - 1\<rparr>)"
  have n: "cl_connects c' + cl_reads c' = 0" and f: "feasible (Connected True) c"
    using c by (auto simp: c'_def HandlerConnect_def CarTcpClient_new_def tcp_Connect_def feasible_def)
  have r: "client_reaches c c'"
    by (rule reaches_step [OF reaches_refl f]) (simp add: client_step_def c'_def)
  from car_client_keeps_trying [OF c r] n c r show ?thesis by auto
qed

text \<open>A timer that is started by its own callback does not start, and ends up not running.\<close>

lemma restart_in_callback:
  assumes "at_waitting t"
  shows "(AsioTimer_Start t)\<lparr>at_waitting := False\<rparr> = t\<lparr>at_waitting := False\<rparr>"
  using assms by (simp add: AsioTimer_Start_def)

end
