(* ===== verification/Car_Web.thy ===== *)
theory Car_Web
  imports Car_Client Forward_Server
begin

text \<open>
  The new web server as a whole (src/new_web_server/CarWebServer.cpp): the events of its two sides, the
  requests it sends to jt1078_server, and the way of a vehicle's packet from the forward server's
  connection to the web socket connections.
\<close>

datatype server_event = Ws ws_event "taken list" | Client client_event

definition cs_step ::
  "(hdl \<Rightarrow> connection) \<Rightarrow> server_event \<Rightarrow> car_server \<Rightarrow> fault + (car_server \<times> ws_out list \<times> byte list)" where
  "cs_step con ev cs =
     (case ev of
        Ws e ts \<Rightarrow>
          rbind (ws_step con e (cs_ws cs)) (\<lambda>(w, outs).
            rbind (pass_on ts outs (cs\<lparr>cs_ws := w\<rparr>)) (\<lambda>(bytes, cs). Inr (cs, outs, bytes)))
      | Client e \<Rightarrow>
          (case cs_client cs of
             None \<Rightarrow> Inr (cs, [], [])
           | Some c \<Rightarrow>
               rbind (client_step e c) (\<lambda>(c, xs).
                 let cs = cs\<lparr>cs_client := Some c\<rparr> in
                 rbind (distribute con xs cs) (\<lambda>outs. Inr (cs, outs, [])))))"

fun cs_run ::
  "(hdl \<Rightarrow> connection) \<Rightarrow> server_event list \<Rightarrow> car_server \<Rightarrow> fault + (car_server \<times> ws_out list \<times> byte list)" where
  "cs_run con [] cs = Inr (cs, [], [])"
| "cs_run con (ev # evs) cs =
     rbind (cs_step con ev cs) (\<lambda>(cs, out, b).
       rbind (cs_run con evs cs) (\<lambda>(cs, outs, bs). Inr (cs, out @ outs, b @ bs)))"

text \<open>What a connection is sent.\<close>

fun received :: "hdl \<Rightarrow> ws_out list \<Rightarrow> byte list list" where
  "received h [] = []"
| "received h (WsSend h' data # outs) = (if h' = h then [data] else []) @ received h outs"
| "received h (_ # outs) = received h outs"

lemma received_append [simp]: "received h (xs @ ys) = received h xs @ received h ys"
  by (induction h xs rule: received.induct) auto

section \<open>Distribution\<close>

lemma send_loop_all:
  "\<forall>h. con h = Connection \<Longrightarrow> send_loop con data hs = Inr (map (\<lambda>h. WsSend h data) hs)"
  by (induction hs) (simp_all add: SendToHdl_def res_simps)

lemma received_sends: "distinct hs \<Longrightarrow> received h (map (\<lambda>h. WsSend h data) hs) = (if h \<in> set hs then [data] else [])"
  by (induction hs) auto

lemma UpdateData_received:
  assumes "\<forall>h. con h = Connection" "topics_wf (cw_manager cw)" "tm_websocket (cw_manager cw)"
  shows "\<exists>outs. UpdateData con d data cw = Inr outs \<and>
    (\<forall>h. received h outs = (if topics_holds (cw_manager cw) d h then [data] else []))"
proof (cases "sm_find (tm_topics (cw_manager cw)) d")
  case None
  then show ?thesis by (simp add: UpdateData_def GetTopic_def topics_holds_def)
next
  case (Some t)
  with assms(2,3) have t: "sm_wf (tp_hdls t)" "tp_websocket t" by (auto simp: topics_wf_def)
  have "h \<in> set (sm_keys (tp_hdls t)) \<longleftrightarrow> topics_holds (cw_manager cw) d h" for h
    using Some sm_find_None [of "tp_hdls t" h] by (auto simp: topics_holds_def)
  with Some t show ?thesis
    by (simp add: UpdateData_def GetTopic_def CarTopic_Publish_def send_loop_all [OF assms(1)]
        received_sends sm_wf_distinct)
qed

lemma distribute_received:
  assumes "\<forall>h. con h = Connection" "topics_wf (cw_manager (cs_ws cs))" "tm_websocket (cw_manager (cs_ws cs))"
  shows "\<exists>outs. distribute con xs cs = Inr outs \<and>
    (\<forall>h. received h outs = map snd (filter (\<lambda>(d, data). topics_holds (cw_manager (cs_ws cs)) d h) xs))"
proof (induction xs)
  case (Cons x xs)
  obtain d data where x: "x = (d, data)" by (cases x)
  obtain o1 where o1: "UpdateData con d data (cs_ws cs) = Inr o1"
      "\<forall>h. received h o1 = (if topics_holds (cw_manager (cs_ws cs)) d h then [data] else [])"
    using UpdateData_received [OF assms] by blast
  from Cons obtain o2 where "distribute con xs cs = Inr o2"
      "\<forall>h. received h o2 = map snd (filter (\<lambda>(d, data). topics_holds (cw_manager (cs_ws cs)) d h) xs)" by blast
  with o1 show ?case by (simp add: x HandlerJt1078Data_def res_simps)
qed simp

section \<open>From the stream to the connections\<close>

lemma process_append:
  "process_packets n ps = Inr xs \<Longrightarrow> process_packets n qs = Inr ys \<Longrightarrow> process_packets n (ps @ qs) = Inr (xs @ ys)"
  by (induction ps arbitrary: xs) (auto simp: rbind_eq_Inr res_simps)

lemma process_split:
  "process_packets n (ps @ qs) = Inr zs \<Longrightarrow> \<exists>xs ys. process_packets n ps = Inr xs \<and> process_packets n qs = Inr ys \<and> zs = xs @ ys"
  by (induction ps arbitrary: zs) (fastforce simp: rbind_eq_Inr)+

text \<open>A run of reads does what one decoder and one distribution over all packets do.\<close>

lemma run_feed:
  assumes "feed_all ipc_PushBuffer ipc_Decode ipcNoError ipcNeedMoreData ipc_GetPacket chunks d = Some (ps, Inr (ipcNeedMoreData, d'))"
    and "process_packets True ps = Inr xs" "\<forall>h. con h = Connection"
    and "cs_client cs = Some c" "cl_decoder c = d" "cl_notify c" "0 < cl_reads c"
    and "topics_wf (cw_manager (cs_ws cs))" "tm_websocket (cw_manager (cs_ws cs))"
  shows "\<exists>cs' outs. cs_run con (map (\<lambda>k. Client (ReadDone k)) chunks) cs = Inr (cs', outs, []) \<and>
    (\<forall>h. received h outs = map snd (filter (\<lambda>(d, data). topics_holds (cw_manager (cs_ws cs)) d h) xs))"
  using assms
proof (induction chunks arbitrary: d ps xs cs c)
  case (Cons k ks)
  obtain e d1 where push: "ipc_PushBuffer k d = (e, d1)" by (cases "ipc_PushBuffer k d")
  have e: "e = ipcNoError \<or> e = ipcBufferFull" using push by (auto simp: ipc_PushBuffer_def Let_def split: if_splits)
  obtain a b where ab: "feed ipc_PushBuffer ipc_Decode ipcNoError ipc_GetPacket k d = Some (a, b)"
    using Cons.prems(1) by (auto simp: bind_eq_Some_conv)
  with Cons.prems(1) obtain f2 where b: "b = Inr (ipcNeedMoreData, f2)"
    by (cases b) (auto simp: bind_eq_Some_conv split: if_splits)
  obtain ps1 d2 ps2 where f: "e = ipcNoError" "drain ipc_Decode ipcNoError ipc_GetPacket d1 = Some (ps1, Inr (ipcNeedMoreData, d2))"
      "feed_all ipc_PushBuffer ipc_Decode ipcNoError ipcNeedMoreData ipc_GetPacket ks d2 = Some (ps2, Inr (ipcNeedMoreData, d'))"
      "ps = ps1 @ ps2"
    using Cons.prems(1) push e ab b by (auto simp: feed_def bind_eq_Some_conv split: if_splits)
  obtain x1 x2 where x: "process_packets True ps1 = Inr x1" "process_packets True ps2 = Inr x2" "xs = x1 @ x2"
    using process_split Cons.prems(2) f(4) by blast
  define c1 where "c1 = c\<lparr>cl_reads := cl_reads c - 1, cl_decoder := d2\<rparr>"
  define cs1 where "cs1 = cs\<lparr>cs_client := Some (AsyncRead c1)\<rparr>"
  have "client_step (ReadDone k) c = Inr (AsyncRead c1, x1)"
    using push f(1,2) x(1) Cons.prems(5,6) by (simp add: client_step_def HandlerReadBuffer_def res_simps c1_def)
  moreover obtain o1 where o1: "distribute con x1 cs1 = Inr o1"
      "\<forall>h. received h o1 = map snd (filter (\<lambda>(d, data). topics_holds (cw_manager (cs_ws cs1)) d h) x1)"
    using distribute_received [of con cs1 x1] Cons.prems(3,8,9) by (auto simp: cs1_def)
  ultimately have s: "cs_step con (Client (ReadDone k)) cs = Inr (cs1, o1, [])"
    using Cons.prems(4) by (simp add: cs_step_def res_simps cs1_def Let_def)
  have "\<exists>cs' outs. cs_run con (map (\<lambda>k. Client (ReadDone k)) ks) cs1 = Inr (cs', outs, []) \<and>
      (\<forall>h. received h outs = map snd (filter (\<lambda>(d, data). topics_holds (cw_manager (cs_ws cs1)) d h) x2))"
    by (rule Cons.IH [OF f(3) x(2) Cons.prems(3), of cs1 "AsyncRead c1"])
      (use Cons.prems(6,8,9) in \<open>simp_all add: cs1_def c1_def AsyncRead_def\<close>)
  then show ?case
    using s o1(2) by (auto simp: res_simps x(3) cs1_def)
qed (auto simp: feed_def)


text \<open>A relayed packet: the identifier, and header and body of the vehicle's packet.\<close>

type_synonym relayed = "u32 \<times> jt_packet \<times> device_id_t"

definition relayed_ipc :: "relayed \<Rightarrow> ipc_packet" where
  "relayed_ipc x = (case x of (seq, pkt, did) \<Rightarrow> relay_packet seq pkt did)"

definition relayed_data :: "relayed \<Rightarrow> device_id_t \<times> byte list" where
  "relayed_data x = (case x of (seq, pkt, did) \<Rightarrow> (did, header_bytes (m_header pkt) @ m_body pkt))"

lemma process_relayed:
  assumes "\<forall>(seq, pkt, did) \<in> set items. relay_ok pkt"
  shows "process_packets True (map relayed_ipc items) = Inr (map relayed_data items)"
  using assms
proof (induction items)
  case (Cons x items)
  obtain seq pkt did where x: "x = (seq, pkt, did)" by (cases x)
  have ok: "relay_ok pkt" using Cons.prems by (simp add: x)
  let ?n = "length (m_body pkt)"
  have l: "?n \<le> 950" "unat (WdBodyLen (m_header pkt)) = ?n" "length (header_bytes (m_header pkt)) = 30"
    using ok by (simp_all add: relay_ok_def jt_consts header_fields_ok_def length_header_bytes)
  have "unat (ucast (of_nat (38 + ?n) :: u32) - 8 :: u64) = 30 + ?n"
  proof -
    have "(ucast (of_nat (38 + ?n) :: u32) :: u64) = of_nat (38 + ?n)"
      using l(1) by (simp only: word_unat_eq_iff unsigned_ucast_eq unat_of_nat) (simp add: take_bit_nat_eq_self)
    then have "(ucast (of_nat (38 + ?n) :: u32) - 8 :: u64) = of_nat (30 + ?n)" by simp
    with l(1) show ?thesis by (simp only: unat_of_nat) simp
  qed
  moreover have "m_uPktType (relay_packet seq pkt did) AND IPC_PKT_TYPE_MASK = IPC_PKT_TYPE_JT1078_PACKET"
    by (simp add: relay_packet_def Let_def ipc_consts)
  ultimately have "ProcessIpcPacketCompleted True (relay_packet seq pkt did) =
      Inr (Some (did, header_bytes (m_header pkt) @ m_body pkt))"
    using l by (simp add: ProcessIpcPacketCompleted_def relay_packet_def Let_def word_le_roundtrip del: of_nat_add)
  with Cons show ?case by (simp add: x relayed_ipc_def relayed_data_def res_simps)
qed simp


text \<open>What has arrived of the relayed packets, and that no whole packet is left over.\<close>

lemma arrived:
  assumes "concat (map ipc_encode ps) = s @ t" "\<And>p. p \<in> set ps \<Longrightarrow> ipc_pkt_wf p \<and> length (m_data p) \<le> 1008"
  shows "\<exists>k r. ipc_safe s \<and> parse_all ipc_parse s = (take k ps, False, r) \<and> k \<le> length ps \<and>
    (k < length ps \<longrightarrow> length s < length (concat (map ipc_encode (take (Suc k) ps))))"
proof -
  have w: "ipc_safe (s @ t)" "parse_all ipc_parse (s @ t) = (ps, False, [])"
    using ipc_safe_concat [of ps] assms by simp_all
  obtain qs b r where q: "parse_all ipc_parse s = (qs, b, r)" by (cases "parse_all ipc_parse s")
  have nb: "\<not> b"
  proof
    assume b
    with q ipcp.parse_all_bad_append [of s qs r t] w(2) show False by simp
  qed
  then obtain qs' where qs': "ps = qs @ qs'"
    using ipcp.parse_all_append [of s qs r t] q w(2) by (auto split: prod.splits)
  have "length s < length (concat (map ipc_encode (take (Suc (length qs)) ps)))" if "length qs < length ps"
  proof (rule ccontr)
    assume long: "\<not> ?thesis"
    let ?p = "ps ! length qs"
    have tk: "take (Suc (length qs)) ps = qs @ [?p]" using take_Suc_conv_app_nth [OF that] by (simp add: qs')
    define m where "m = concat (map ipc_encode (qs @ [?p]))"
    obtain m' where "concat (map ipc_encode ps) = m @ m'"
      unfolding m_def tk [symmetric] by (metis append_take_drop_id concat_append map_append)
    moreover have "length m \<le> length s" using long by (simp add: m_def tk)
    ultimately obtain u where u: "s = m @ u" using assms(1) by (metis append_eq_append_conv_if append_take_drop_id)
    have "\<And>p. p \<in> set (qs @ [?p]) \<Longrightarrow> ipc_pkt_wf p \<and> length (m_data p) \<le> 1008"
      using assms(2) tk set_take_subset [of "Suc (length qs)" ps] by (metis subsetD)
    then have "parse_all ipc_parse m = (qs @ [?p], False, [])" unfolding m_def using ipc_safe_concat [of "qs @ [?p]"] by blast
    then have "fst (parse_all ipc_parse s) \<noteq> qs"
      using ipcp.parse_all_append [of m "qs @ [?p]" "[]" u] by (auto simp: u split: prod.splits)
    with q show False by simp
  qed
  with q nb qs' ipc_safe_prefix [OF w(1)] show ?thesis
    by (intro exI [of _ "length qs"] exI [of _ r]) auto
qed

text \<open>
  From the vehicle to the browser. While the topics stay as they are, a connection that
  watches a set of vehicles is sent, whole and in order, the header and the body of exactly the relayed
  packets of these vehicles, of all packets whose last byte has arrived, however the stream was cut into
  reads; and nothing faults.
\<close>

theorem car_web_delivers:
  assumes "\<forall>h. con h = Connection" "topics_wf (cw_manager (cs_ws cs))" "tm_websocket (cw_manager (cs_ws cs))"
    and "cs_client cs = Some c" "cl_decoder c = ipc_decoder_new" "cl_notify c" "0 < cl_reads c"
    and "\<forall>(seq, pkt, did) \<in> set items. relay_ok pkt"
    and "concat (map (ipc_encode \<circ> relayed_ipc) items) = concat chunks @ rest" "\<forall>k \<in> set chunks. length k \<le> 1024"
  shows "\<exists>n cs' outs. cs_run con (map (\<lambda>k. Client (ReadDone k)) chunks) cs = Inr (cs', outs, []) \<and>
    (\<forall>h. received h outs =
      [header_bytes (m_header pkt) @ m_body pkt. (seq, pkt, did) \<leftarrow> take n items, topics_holds (cw_manager (cs_ws cs)) did h]) \<and>
    n \<le> length items \<and>
    (n < length items \<longrightarrow>
      length (concat chunks) < length (concat (map (ipc_encode \<circ> relayed_ipc) (take (Suc n) items))))"
proof -
  let ?ps = "map relayed_ipc items"
  have wf: "ipc_pkt_wf p \<and> length (m_data p) \<le> 1008" if "p \<in> set ?ps" for p
  proof -
    obtain seq pkt did where p: "(seq, pkt, did) \<in> set items" "p = relay_packet seq pkt did"
      using \<open>p \<in> set ?ps\<close> by (auto simp: relayed_ipc_def)
    with assms(8) have "relay_ok pkt" by blast
    from relay_packet_wf [OF this, of seq did] p(2) show ?thesis by simp
  qed
  obtain n r where
    n: "ipc_safe (concat chunks)" "parse_all ipc_parse (concat chunks) = (take n ?ps, False, r)" "n \<le> length items"
      "n < length items \<longrightarrow> length (concat chunks) < length (concat (map ipc_encode (take (Suc n) ?ps)))"
    using arrived [of ?ps "concat chunks" rest, OF _ wf] assms(9) by auto
  obtain d' where "feed_all ipc_PushBuffer ipc_Decode ipcNoError ipcNeedMoreData ipc_GetPacket chunks ipc_decoder_new
      = Some (take n ?ps, Inr (ipcNeedMoreData, d'))"
    using ipcd.feed_all_parse_all [OF ipc_rel_new _ n(1) _ n(2)] assms(10) by force
  moreover have "process_packets True (take n ?ps) = Inr (map relayed_data (take n items))"
    unfolding take_map by (rule process_relayed) (use assms(8) in \<open>auto dest: in_set_takeD\<close>)
  ultimately obtain cs' outs where r: "cs_run con (map (\<lambda>k. Client (ReadDone k)) chunks) cs = Inr (cs', outs, [])"
      "\<forall>h. received h outs = map snd (filter (\<lambda>(d, data). topics_holds (cw_manager (cs_ws cs)) d h)
        (map relayed_data (take n items)))"
    using run_feed [OF _ _ assms(1,4,5,6,7,2,3)] by blast
  have "map snd (filter (\<lambda>(d, data). P d) (map relayed_data xs)) =
      [header_bytes (m_header pkt) @ m_body pkt. (seq, pkt, did) \<leftarrow> xs, P did]" for P xs
    by (induction xs) (auto simp: relayed_data_def)
  with r n(3,4) show ?thesis by (auto simp: take_map comp_def)
qed

definition sample_car_client :: car_client where
  "sample_car_client = \<lparr>cl_seq = 0, cl_decoder = ipc_decoder_new, cl_notify = True, cl_open = True,
     cl_timer = AsioTimer_new, cl_connects = 0, cl_reads = 1\<rparr>"

definition sample_car_server :: car_server where
  "sample_car_server = \<lparr>cs_ws = CarWebSocketServer_new\<lparr>cw_manager := topics_add 5 1 (cw_manager CarWebSocketServer_new)\<rparr>,
     cs_client = Some sample_car_client\<rparr>"

theorem car_web_delivers_witness:
  "\<exists>cs outs. cs_run (\<lambda>_. Connection) [Client (ReadDone (ipc_encode (relay_packet 3 jt_sample 5)))] sample_car_server =
      Inr (cs, outs, []) \<and>
    received 1 outs = [header_bytes (m_header jt_sample) @ m_body jt_sample] \<and> received 2 outs = []"
proof -
  let ?m = "cw_manager (cs_ws sample_car_server)" and ?k = "ipc_encode (relay_packet 3 jt_sample 5)"
  have new: "topics_wf (cw_manager CarWebSocketServer_new)" "\<not> topics_holds (cw_manager CarWebSocketServer_new) d h" for d h
    by (simp_all add: CarWebSocketServer_new_def topics_wf_def topics_holds_def)
  have m: "?m = topics_add 5 1 (cw_manager CarWebSocketServer_new)" by (simp add: sample_car_server_def)
  have t: "topics_wf ?m" "topics_holds ?m d h \<longleftrightarrow> d = 5 \<and> h = 1" for d h
    unfolding m using topics.inv_add [OF new(1)] topics.holds_add [OF new(1)] new(2) by auto
  have w: "tm_websocket ?m"
    by (simp add: m topics_add_def GetTopic_def CarWebSocketServer_new_def Let_def)
  have ok: "\<forall>(seq, pkt, did) \<in> set [(3 :: u32, jt_sample, 5 :: device_id_t)]. relay_ok pkt"
    by (simp add: relay_ok_def header_fields_ok_def jt_sample_def header_Clear_def jt_consts)
  have "length ?k \<le> 1024"
    using relay_packet_wf(2) [of jt_sample 3 5] ok by (simp add: ipc_encode_def)
  then have c: "\<forall>k \<in> set [?k]. length k \<le> 1024" by simp
  have i: "concat (map (ipc_encode \<circ> relayed_ipc) [(3, jt_sample, 5)]) = concat [?k] @ []" by (simp add: relayed_ipc_def)
  have cl: "cs_client sample_car_server = Some sample_car_client" "cl_decoder sample_car_client = ipc_decoder_new"
    "cl_notify sample_car_client" "0 < cl_reads sample_car_client"
    by (simp_all add: sample_car_server_def sample_car_client_def)
  have "\<forall>h. (\<lambda>_. Connection) h = Connection" by simp
  from car_web_delivers [OF this t(1) w cl ok i c] show ?thesis
  proof (elim exE conjE, goal_cases)
    case (1 n cs outs)
    from 1(4) have "take n [(3 :: u32, jt_sample, 5 :: device_id_t)] = [(3, jt_sample, 5)]"
      by (cases n) (auto simp: relayed_ipc_def)
    with 1(1,2) t(2) show ?case by auto
  qed
qed

section \<open>Requests\<close>

text \<open>The packets that the notifications become.\<close>

fun request_packets :: "u32 \<Rightarrow> ws_out list \<Rightarrow> ipc_packet list" where
  "request_packets n [] = []"
| "request_packets n (WsNotify str sub # outs) =
     (let n = (if n = INVALID_PKT_SEQ_ID then 0 else n + 1) in
      packet_new\<lparr>m_uPktType := (if sub then IPC_PKT_TYPE_SUBSCRIBE_DEVICE_ID else IPC_PKT_TYPE_UNSUBSCRIBE_DEVICE_ID),
        m_uDataLength := of_nat (length str), m_uPktSeqId := n, m_data := str\<rparr> # request_packets n outs)"
| "request_packets n (_ # outs) = request_packets n outs"

lemma pass_on_encodes:
  assumes "cs_client cs = Some c" "\<forall>str sub. WsNotify str sub \<in> set outs \<longrightarrow> length str \<le> n" "16 \<le> n"
    "length outs \<le> length ts" "\<forall>t \<in> set ts. t = (Some n, Some n)"
  shows "\<exists>cs'. pass_on ts outs cs = Inr (concat (map ipc_encode (request_packets (cl_seq c) outs)), cs') \<and> cs_ws cs' = cs_ws cs"
  using assms
proof (induction ts outs cs arbitrary: c rule: pass_on.induct)
  case (2 ts str sub outs cs)
  then obtain ts' where ts: "ts = (Some n, Some n) # ts'" by (cases ts) auto
  define c' where "c' = c\<lparr>cl_seq := (if cl_seq c = INVALID_PKT_SEQ_ID then 0 else cl_seq c + 1)\<rparr>"
  let ?p = "packet_new\<lparr>m_uPktType := (if sub then IPC_PKT_TYPE_SUBSCRIBE_DEVICE_ID else IPC_PKT_TYPE_UNSUBSCRIBE_DEVICE_ID),
        m_uDataLength := of_nat (length str), m_uPktSeqId := cl_seq c', m_data := str\<rparr>"
  have len: "length str \<le> n" using 2(3) by auto
  have "HandlerWsConnSubscribe (Some n, Some n) str sub cs = Inr (ipc_encode ?p, cs\<lparr>cs_client := Some c'\<rparr>)"
    using 2(2,4) len
    by (auto simp: HandlerWsConnSubscribe_def SendSubscribeRequest_def SendUnSubscribeRequest_def car_SendPacket_def
        car_GetNewSendIpcPktSeqId_def AsyncWrite_def ipc_encode_def packet_header_bytes_def res_simps c'_def Let_def)
  moreover have "\<exists>cs'. pass_on ts' outs (cs\<lparr>cs_client := Some c'\<rparr>) =
      Inr (concat (map ipc_encode (request_packets (cl_seq c') outs)), cs') \<and> cs_ws cs' = cs_ws (cs\<lparr>cs_client := Some c'\<rparr>)"
  proof (rule 2(1) [OF ts])
    show "\<forall>str sub. WsNotify str sub \<in> set outs \<longrightarrow> length str \<le> n" using 2(3) by auto
    show "16 \<le> n" by fact
    show "length outs \<le> length ts'" using 2(5) by (simp add: ts)
    show "\<forall>t \<in> set ts'. t = (Some n, Some n)" using 2(6) by (simp add: ts)
  qed simp
  ultimately show ?case by (auto simp: ts res_simps c'_def Let_def)
qed (auto simp: Let_def)

end
