(* ===== verification/Timers.thy ===== *)
theory Timers
  imports Prelude
begin

text \<open>
  The one-shot timers of src/core/timer: EventWatcher, which owns a libevent event, and
  TimerEventWatcher, which refuses to be started while it waits.  Of libevent the model keeps
  whether the event has been assigned to a base and whether it is pending; a timeout event that is
  not persistent stops being pending when it fires.
\<close>

record event_state =
  ev_assigned :: bool
  ev_pending :: bool

text \<open>\<open>tw_event\<close> is \<open>m_event\<close>; \<open>tw_cancel\<close> tells whether a cancel callback is set.\<close>

record timer_watcher =
  tw_event :: "event_state option"
  tw_waiting :: bool
  tw_cancel :: bool

definition TimerEventWatcher_new :: timer_watcher where
  "TimerEventWatcher_new =
     \<lparr>tw_event = Some \<lparr>ev_assigned = False, ev_pending = False\<rparr>, tw_waiting = False, tw_cancel = False\<rparr>"

text \<open>\<open>ok\<close> is libevent's answer to \<open>event_assign\<close>.\<close>

definition DoInit :: "bool \<Rightarrow> timer_watcher \<Rightarrow> fault + (bool \<times> timer_watcher)" where
  "DoInit ok w =
     (case tw_event w of
        None \<Rightarrow> Inl NullDeref
      | Some ev \<Rightarrow>
          if ev_assigned ev then Inr (True, w)
          else if \<not> ok then Inr (False, w)
          else Inr (True, w\<lparr>tw_event := Some (ev\<lparr>ev_assigned := True\<rparr>)\<rparr>))"

text \<open>\<open>event_add\<close> on a pending event only sets the timeout again.\<close>

definition Watcher_Init :: "bool \<Rightarrow> timer_watcher \<Rightarrow> fault + (bool \<times> timer_watcher)" where
  "Watcher_Init ok w =
     rbind (DoInit ok w) (\<lambda>(r, w).
       if \<not> r then Inr (False, w)
       else (case tw_event w of
               None \<Rightarrow> Inl NullDeref
             | Some ev \<Rightarrow> Inr (True, w\<lparr>tw_event := Some (ev\<lparr>ev_pending := True\<rparr>)\<rparr>)))"

definition FreeEvent :: "timer_watcher \<Rightarrow> timer_watcher" where
  "FreeEvent w =
     (case tw_event w of
        None \<Rightarrow> w
      | Some ev \<Rightarrow> if ev_pending ev then w\<lparr>tw_event := None\<rparr> else w)"

text \<open>The second component: whether the cancel callback was called.\<close>

definition Watcher_Cancel :: "timer_watcher \<Rightarrow> timer_watcher \<times> bool" where
  "Watcher_Cancel w = (if tw_event w = None then (w, False) else (FreeEvent w, tw_cancel w))"

definition StartTimer :: "bool \<Rightarrow> timer_watcher \<Rightarrow> fault + (bool \<times> timer_watcher)" where
  "StartTimer ok w = (if tw_waiting w then Inr (False, w) else Watcher_Init ok (w\<lparr>tw_waiting := True\<rparr>))"

text \<open>The callback, up to the handler, when libevent reports a pending event.\<close>

definition OnTimer :: "timer_watcher \<Rightarrow> timer_watcher" where
  "OnTimer w = w\<lparr>tw_event := map_option (\<lambda>ev. ev\<lparr>ev_pending := False\<rparr>) (tw_event w), tw_waiting := False\<rparr>"

definition timer_due :: "timer_watcher \<Rightarrow> bool" where
  "timer_due w = (case tw_event w of None \<Rightarrow> False | Some ev \<Rightarrow> ev_pending ev)"

section \<open>Lemmas\<close>

lemmas timer_defs = TimerEventWatcher_new_def DoInit_def Watcher_Init_def FreeEvent_def Watcher_Cancel_def StartTimer_def
  OnTimer_def timer_due_def

text \<open>A timer that is never cancelled: it has its event, and while it waits the event is pending.\<close>

definition timer_ok :: "timer_watcher \<Rightarrow> bool" where
  "timer_ok w \<longleftrightarrow> tw_event w \<noteq> None \<and> (tw_waiting w \<longrightarrow> timer_due w)"

lemma timer_ok_new [simp]: "timer_ok TimerEventWatcher_new"
  by (simp add: timer_ok_def timer_defs)

lemma timer_ok_OnTimer: "timer_ok w \<Longrightarrow> timer_ok (OnTimer w) \<and> \<not> timer_due (OnTimer w) \<and> \<not> tw_waiting (OnTimer w)"
  by (auto simp: timer_ok_def timer_defs)

lemma Watcher_Init_ok:
  "tw_event w = Some ev \<Longrightarrow>
    Watcher_Init True w = Inr (True, w\<lparr>tw_event := Some (ev\<lparr>ev_assigned := True, ev_pending := True\<rparr>)\<rparr>)"
  by (cases "ev_assigned ev") (simp_all add: Watcher_Init_def DoInit_def res_simps)

lemma timer_ok_Init:
  assumes "timer_ok w"
  obtains w' where "Watcher_Init True w = Inr (True, w')" "timer_ok w'" "timer_due w'" "tw_waiting w' = tw_waiting w"
proof -
  obtain ev where ev: "tw_event w = Some ev" using assms by (auto simp: timer_ok_def)
  show ?thesis
    by (rule that [OF Watcher_Init_ok [OF ev]]) (simp_all add: timer_ok_def timer_due_def)
qed

lemma timer_ok_StartTimer:
  assumes "timer_ok w"
  obtains r w' where "StartTimer True w = Inr (r, w')" "timer_ok w'" "timer_due w'" "tw_waiting w'"
proof (cases "tw_waiting w")
  case True
  with that [of False w] assms show ?thesis by (simp add: StartTimer_def timer_ok_def)
next
  case False
  obtain ev where ev: "tw_event (w\<lparr>tw_waiting := True\<rparr>) = Some ev" using assms by (auto simp: timer_ok_def)
  show ?thesis
    by (rule that [of True], simp only: StartTimer_def False if_False, rule Watcher_Init_ok [OF ev])
      (simp_all add: timer_ok_def timer_due_def)
qed

text \<open>
  Cancelling a running timer deletes the event but leaves the flag: the timer cannot be started
  again, and a second cancellation does nothing.
\<close>

lemma cancelled_for_good:
  assumes "tw_waiting w" "timer_due w"
  shows "StartTimer ok (fst (Watcher_Cancel w)) = Inr (False, fst (Watcher_Cancel w))"
    "\<not> timer_due (fst (Watcher_Cancel w))"
    "Watcher_Cancel (fst (Watcher_Cancel w)) = (fst (Watcher_Cancel w), False)"
  using assms by (auto simp: timer_defs split: option.splits)

text \<open>A timer that was started by \<open>Init\<close> and cancelled dereferences its deleted event when it is started.\<close>

lemma cancelled_after_Init:
  assumes "\<not> tw_waiting w" "timer_due w"
  shows "StartTimer ok (fst (Watcher_Cancel w)) = Inl NullDeref"
  using assms by (auto simp: timer_defs res_simps split: option.splits)

end
