(* ===== verification/Redis_Mq.thy ===== *)
theory Redis_Mq
  imports Timers Device_Id
begin

text \<open>
  The message queue of src/core/database: CRedisClient, which formats commands into buffers of fixed
  size and hands them to hiredis, and CRedisMqServer with its reconnection.  Contexts of hiredis
  are numbered; hiredis frees a context after the callback that reports a failed connection or a
  disconnection, so that \<open>m_ctx\<close> may point to one that is no longer live.
\<close>

section \<open>Commands\<close>

datatype redis_cmd = CmdAuth | CmdSelect | CmdRpush | CmdLpop | CmdXgroupCreate | CmdXgroupDestroy | CmdXreadGroup

fun dec_digits :: "nat \<Rightarrow> cstring" where
  "dec_digits n = (if n < 10 then [of_nat (48 + n)] else dec_digits (n div 10) @ [of_nat (48 + n mod 10)])"

declare dec_digits.simps [simp del]

definition dec_int :: "int \<Rightarrow> cstring" where
  "dec_int i = (if i < 0 then 45 # dec_digits (nat (- i)) else dec_digits (nat i))"

text \<open>
  \<open>snprintf(buf, sizeof(buf) - 1, ...)\<close> of \<open>text\<close>, then \<open>buf[n] = '\0'\<close> with the length that was wanted. The
  result is the C string in the buffer.
\<close>

definition snprintf_terminated :: "nat \<Rightarrow> cstring \<Rightarrow> fault + cstring" where
  "snprintf_terminated room text =
     (if room \<le> length text then Inl OutOfBounds else Inr (take (room - 2) text))"

text \<open>The buffer is hiredis' format string; a directive but \<open>%%\<close> would read an argument that is not there.\<close>

fun has_directive :: "cstring \<Rightarrow> bool" where
  "has_directive (a # b # s) = (if a = 37 then b \<noteq> 37 \<or> has_directive s else has_directive (b # s))"
| "has_directive _ = False"

record redis_mq =
  mq_passport :: cstring
  mq_index :: nat
  mq_ctx :: "nat option"
  mq_connected :: bool
  mq_timer :: timer_watcher
  mq_live :: "nat list"
  mq_next :: nat

type_synonym redis_out = "nat \<times> redis_cmd \<times> cstring"

text \<open>\<open>ok\<close> is whether hiredis takes the command.\<close>

definition Init_And_Send_SRedisFetchInfo ::
  "bool \<Rightarrow> cstring \<Rightarrow> redis_cmd \<Rightarrow> redis_mq \<Rightarrow> fault + (bool \<times> redis_out list)" where
  "Init_And_Send_SRedisFetchInfo ok buf type st =
     (case mq_ctx st of
        None \<Rightarrow> Inl NullDeref
      | Some k \<Rightarrow>
          if k \<notin> set (mq_live st) then Inl UseAfterFree
          else if has_directive buf then Inl BadCall
          else Inr (ok, if ok then [(k, type, buf)] else []))"

definition redis_Auth :: "bool \<Rightarrow> cstring \<Rightarrow> redis_mq \<Rightarrow> fault + (bool \<times> redis_out list)" where
  "redis_Auth ok passport st =
     (if passport = [] then Inr (False, [])
      else rbind (snprintf_terminated 32 (ascii ''auth '' @ passport)) (\<lambda>buf.
        Init_And_Send_SRedisFetchInfo ok buf CmdAuth st))"

definition redis_Select :: "bool \<Rightarrow> nat \<Rightarrow> redis_mq \<Rightarrow> fault + (bool \<times> redis_out list)" where
  "redis_Select ok index st =
     rbind (snprintf_terminated 10 (ascii ''select '' @ dec_digits index)) (\<lambda>buf.
       Init_And_Send_SRedisFetchInfo ok buf CmdSelect st)"

definition redis_CreateGroup :: "bool \<Rightarrow> cstring \<Rightarrow> cstring \<Rightarrow> redis_mq \<Rightarrow> fault + (bool \<times> redis_out list)" where
  "redis_CreateGroup ok stream grp st =
     rbind (snprintf_terminated 64 (ascii ''xgroup create '' @ stream @ ascii '' '' @ grp @ ascii '' $ MKSTREAM'')) (\<lambda>buf.
       Init_And_Send_SRedisFetchInfo ok buf CmdXgroupCreate st)"

definition redis_DestroyGroup :: "bool \<Rightarrow> cstring \<Rightarrow> cstring \<Rightarrow> redis_mq \<Rightarrow> fault + (bool \<times> redis_out list)" where
  "redis_DestroyGroup ok stream grp st =
     rbind (snprintf_terminated 64 (ascii ''xgroup destroy '' @ stream @ ascii '' '' @ grp)) (\<lambda>buf.
       Init_And_Send_SRedisFetchInfo ok buf CmdXgroupDestroy st)"

text \<open>
  \<open>XreadGroup\<close> does not terminate the buffer itself; the copy of the command takes \<open>n\<close> bytes of the buffer.
\<close>

definition redis_XreadGroup ::
  "bool \<Rightarrow> cstring \<Rightarrow> cstring \<Rightarrow> cstring \<Rightarrow> int \<Rightarrow> int \<Rightarrow> redis_mq \<Rightarrow> fault + (bool \<times> redis_out list)" where
  "redis_XreadGroup ok stream grp consumer count block_timeout st =
     (let text = ascii ''xreadgroup group '' @ grp @ ascii '' '' @ consumer @ ascii '' count '' @ dec_int count @
        (if 0 \<le> block_timeout then ascii '' block '' @ dec_int block_timeout else []) @
        ascii '' streams '' @ stream @ ascii '' >'' in
      if 128 < length text then Inl OutOfBounds
      else Init_And_Send_SRedisFetchInfo ok (take 126 text) CmdXreadGroup st)"

definition redis_RpushList :: "bool \<Rightarrow> cstring \<Rightarrow> cstring \<Rightarrow> redis_mq \<Rightarrow> fault + (bool \<times> redis_out list)" where
  "redis_RpushList ok lst args st =
     rbind (snprintf_terminated (2048 + 512) (ascii ''rpush '' @ lst @ ascii '' '' @ args)) (\<lambda>buf.
       Init_And_Send_SRedisFetchInfo ok buf CmdRpush st)"

definition redis_LpopList :: "bool \<Rightarrow> cstring \<Rightarrow> redis_mq \<Rightarrow> fault + (bool \<times> redis_out list)" where
  "redis_LpopList ok lst st =
     rbind (snprintf_terminated 108 (ascii ''lpop '' @ lst)) (\<lambda>buf.
       Init_And_Send_SRedisFetchInfo ok buf CmdLpop st)"

section \<open>Connecting\<close>

text \<open>
  What hiredis answers to an attempt: whether there is a context, whether it can be attached to the
  loop, whether the callbacks can be set. Without a context its error text is read all the same.
\<close>

record connect_answer =
  ca_made :: bool
  ca_attached :: bool
  ca_callbacks :: bool

definition redis_AsyncConnect :: "connect_answer \<Rightarrow> redis_mq \<Rightarrow> fault + (bool \<times> redis_mq)" where
  "redis_AsyncConnect ans st =
     (if \<not> ca_made ans then Inl NullDeref
      else Inr (ca_attached ans \<and> ca_callbacks ans,
        st\<lparr>mq_ctx := Some (mq_next st), mq_live := mq_next st # mq_live st, mq_next := mq_next st + 1\<rparr>))"

definition redis_Disconnect :: "redis_mq \<Rightarrow> redis_mq" where
  "redis_Disconnect st =
     (if mq_connected st then st\<lparr>mq_ctx := None, mq_connected := False\<rparr> else st)"

text \<open>\<open>Destory\<close>, which resets the client, whose destructor frees or disconnects the context.\<close>

definition redis_Destory :: "redis_mq \<Rightarrow> redis_mq" where
  "redis_Destory st =
     (let st = (if mq_connected st then redis_Disconnect st
                else (case mq_ctx st of
                        None \<Rightarrow> st
                      | Some k \<Rightarrow> st\<lparr>mq_live := removeAll k (mq_live st), mq_ctx := None\<rparr>)) in
      st\<lparr>mq_passport := [], mq_index := 0\<rparr>)"

text \<open>\<open>Init\<close>: the timer is armed directly, not by \<open>StartTimer\<close>.\<close>

definition RedisMq_Init ::
  "cstring \<Rightarrow> nat \<Rightarrow> connect_answer \<Rightarrow> bool \<Rightarrow> fault + (bool \<times> redis_mq)" where
  "RedisMq_Init passport index ans assigned =
     (let st = \<lparr>mq_passport = passport, mq_index = index, mq_ctx = None, mq_connected = False,
                mq_timer = TimerEventWatcher_new, mq_live = [], mq_next = 0\<rparr> in
      rbind (redis_AsyncConnect ans st) (\<lambda>(r, st).
        if \<not> r then Inr (False, redis_Destory st)
        else rbind (Watcher_Init assigned (mq_timer st)) (\<lambda>(r, w). Inr (r, st\<lparr>mq_timer := w\<rparr>))))"

definition mq_start_timer :: "redis_mq \<Rightarrow> fault + redis_mq" where
  "mq_start_timer st = rbind (StartTimer True (mq_timer st)) (\<lambda>(_, w). Inr (st\<lparr>mq_timer := w\<rparr>))"

definition RedisMq_OnConnect :: "bool \<Rightarrow> bool \<Rightarrow> redis_mq \<Rightarrow> fault + (redis_mq \<times> redis_out list)" where
  "RedisMq_OnConnect ok bOk st =
     (let st = st\<lparr>mq_connected := bOk\<rparr> in
      if bOk then
        rbind (if mq_passport st \<noteq> [] then redis_Auth ok (mq_passport st) st else redis_Select ok (mq_index st) st)
          (\<lambda>(_, outs). Inr (st, outs))
      else rbind (mq_start_timer st) (\<lambda>st. Inr (st, [])))"

definition RedisMq_OnDisconnect :: "bool \<Rightarrow> redis_mq \<Rightarrow> fault + (redis_mq \<times> redis_out list)" where
  "RedisMq_OnDisconnect bOk st =
     (let st = st\<lparr>mq_connected := False\<rparr> in
      if bOk then Inr (st\<lparr>mq_connected := False\<rparr>, [])
      else rbind (mq_start_timer st) (\<lambda>st. Inr (st, [])))"

definition RedisMq_OnAuth :: "bool \<Rightarrow> bool \<Rightarrow> redis_mq \<Rightarrow> fault + (redis_mq \<times> redis_out list)" where
  "RedisMq_OnAuth ok is_error st =
     (if is_error then Inr (st\<lparr>mq_connected := False\<rparr>, [])
      else rbind (redis_Select ok (mq_index st) st) (\<lambda>(_, outs). Inr (st, outs)))"

definition RedisMq_OnSelect :: "bool \<Rightarrow> redis_mq \<Rightarrow> redis_mq \<times> redis_out list" where
  "RedisMq_OnSelect is_error st = (if is_error then (st\<lparr>mq_connected := False\<rparr>, []) else (st, []))"

definition RedisMq_RpushList :: "bool \<Rightarrow> cstring \<Rightarrow> cstring \<Rightarrow> redis_mq \<Rightarrow> fault + (redis_mq \<times> redis_out list)" where
  "RedisMq_RpushList ok lst data st = rbind (redis_RpushList ok lst data st) (\<lambda>(_, outs). Inr (st, outs))"

definition RedisMq_OnReconnectTimer :: "connect_answer \<Rightarrow> redis_mq \<Rightarrow> fault + redis_mq" where
  "RedisMq_OnReconnectTimer ans st =
     (if mq_connected st then Inr st else rbind (redis_AsyncConnect ans st) (\<lambda>(_, st). Inr st))"

text \<open>\<open>RedisCommandCallback\<close>: no reply, or whether it is an error.\<close>

definition RedisCommandCallback :: "bool \<Rightarrow> redis_cmd \<Rightarrow> bool option \<Rightarrow> redis_mq \<Rightarrow> fault + (redis_mq \<times> redis_out list)" where
  "RedisCommandCallback ok type reply st =
     (case reply of
        None \<Rightarrow> Inr (st, [])
      | Some is_error \<Rightarrow>
          (case type of
             CmdAuth \<Rightarrow> RedisMq_OnAuth ok is_error st
           | CmdSelect \<Rightarrow> Inr (RedisMq_OnSelect is_error st)
           | _ \<Rightarrow> Inr (st, [])))"


section \<open>Events\<close>

text \<open>
  hiredis reports the end of an attempt, a disconnection or a reply for a live context, and frees a
  context that failed or is disconnected after the callback; libevent reports the timer when it is due;
  the service pushes commands.
\<close>

datatype mq_event =
    MqConnect nat bool | MqDisconnect nat bool | MqReply nat redis_cmd "bool option" | MqTimer connect_answer
  | MqPush cstring cstring

definition mq_free :: "nat \<Rightarrow> redis_mq \<Rightarrow> redis_mq" where
  "mq_free k st = st\<lparr>mq_live := removeAll k (mq_live st)\<rparr>"

definition mq_step :: "mq_event \<Rightarrow> redis_mq \<Rightarrow> fault + (redis_mq \<times> redis_out list)" where
  "mq_step ev st =
     (case ev of
        MqConnect k bOk \<Rightarrow>
          rbind (RedisMq_OnConnect True bOk st) (\<lambda>(st, outs). Inr (if bOk then st else mq_free k st, outs))
      | MqDisconnect k bOk \<Rightarrow> rbind (RedisMq_OnDisconnect bOk st) (\<lambda>(st, outs). Inr (mq_free k st, outs))
      | MqReply k type reply \<Rightarrow> RedisCommandCallback True type reply st
      | MqTimer ans \<Rightarrow>
          rbind (RedisMq_OnReconnectTimer ans (st\<lparr>mq_timer := OnTimer (mq_timer st)\<rparr>)) (\<lambda>st. Inr (st, []))
      | MqPush lst data \<Rightarrow> RedisMq_RpushList True lst data st)"

fun mq_run :: "mq_event list \<Rightarrow> redis_mq \<Rightarrow> fault + (redis_mq \<times> redis_out list)" where
  "mq_run [] st = Inr (st, [])"
| "mq_run (ev # evs) st =
     rbind (mq_step ev st) (\<lambda>(st, out). rbind (mq_run evs st) (\<lambda>(st, outs). Inr (st, out @ outs)))"

section \<open>Formatting\<close>

lemma dec_digits_length: "n < 10 ^ Suc k \<Longrightarrow> length (dec_digits n) \<le> Suc k"
proof (induction k arbitrary: n)
  case 0
  then show ?case by (simp add: dec_digits.simps [of n])
next
  case (Suc k)
  show ?case
  proof (cases "n < 10")
    case False
    have "n div 10 < 10 ^ Suc k" using Suc.prems by (simp add: div_less_iff_less_mult mult.commute)
    from Suc.IH [OF this] False show ?thesis by (simp add: dec_digits.simps [of n])
  qed (simp add: dec_digits.simps [of n])
qed

lemma dec_digits_length_ge: "10 ^ k \<le> n \<Longrightarrow> Suc k \<le> length (dec_digits n)"
proof (induction k arbitrary: n)
  case 0
  then show ?case by (simp add: dec_digits.simps [of n])
next
  case (Suc k)
  then have "10 ^ k \<le> n div 10" by (simp add: less_eq_div_iff_mult_less_eq mult.commute)
  moreover have "10 \<le> n" using Suc.prems by (simp add: order_trans [of 10 "10 * 10 ^ k" n])
  ultimately show ?case using Suc.IH [of "n div 10"] by (simp add: dec_digits.simps [of n])
qed

lemma select_text:
  "snprintf_terminated 10 (ascii ''select '' @ dec_digits index) =
    (if index < 10 then Inr (ascii ''select '' @ [of_nat (48 + index)])
     else if index < 100 then Inr (ascii ''select '' @ [of_nat (48 + index div 10)])
     else Inl OutOfBounds)"
proof -
  have l: "length (ascii ''select '') = 7" by (simp add: ascii_def)
  consider "index < 10" | "10 \<le> index" "index < 100" | "100 \<le> index" by linarith
  then show ?thesis
  proof cases
    case 1
    then show ?thesis using l by (simp add: snprintf_terminated_def dec_digits.simps [of index])
  next
    case 2
    then have "index div 10 < 10" by linarith
    with 2 have "dec_digits index = [of_nat (48 + index div 10), of_nat (48 + index mod 10)]"
      by (simp add: dec_digits.simps [of index] dec_digits.simps [of "index div 10"])
    then show ?thesis using 2 l by (simp add: snprintf_terminated_def)
  next
    case 3
    then have "3 \<le> length (dec_digits index)" using dec_digits_length_ge [of 2 index] by simp
    with 3 l show ?thesis by (simp add: snprintf_terminated_def)
  qed
qed

lemma has_directive_append: "37 \<notin> set s \<Longrightarrow> has_directive (s @ t) = has_directive t"
proof (induction s)
  case (Cons a s)
  then show ?case by (cases "s @ t") auto
qed simp


section \<open>Properties\<close>

text \<open>
  Selecting a database over a live connection: the number is sent as configured only below 10;
  from 10 to 99 its last digit is cut off and another database is selected, and from 100 on the
  terminator is written behind the buffer.
\<close>

theorem redis_select_database:
  assumes "mq_ctx st = Some k" "k \<in> set (mq_live st)"
  shows "redis_Select True index st =
    (if index < 100
     then Inr (True, [(k, CmdSelect, ascii ''select '' @ dec_digits (if index < 10 then index else index div 10))])
     else Inl OutOfBounds)"
proof -
  have d: "dec_digits n = [of_nat (48 + n)]" if "n < 10" for n using that by (simp add: dec_digits.simps [of n])
  have p: "\<not> has_directive (ascii ''select '' @ [x])" for x
    by (simp add: has_directive_append ascii_def)
  have "index div 10 < 10" if "index < 100" using that by linarith
  with assms d show ?thesis
    by (auto simp: redis_Select_def select_text Init_And_Send_SRedisFetchInfo_def p res_simps)
qed

theorem redis_select_database_witness:
  "\<exists>st. mq_ctx st = Some 0 \<and>
    redis_Select True 12 st = Inr (True, [(0, CmdSelect, ascii ''select '' @ dec_digits 1)])"
proof -
  define st where "st = \<lparr>mq_passport = [], mq_index = 12, mq_ctx = Some 0, mq_connected = True,
    mq_timer = TimerEventWatcher_new, mq_live = [0], mq_next = 1\<rparr>"
  then have "mq_ctx st = Some 0" "0 \<in> set (mq_live st)" by simp_all
  with redis_select_database [of st 0 12] show ?thesis by auto
qed

definition rpush_text :: "cstring \<Rightarrow> cstring \<Rightarrow> cstring" where
  "rpush_text lst data = ascii ''rpush '' @ lst @ ascii '' '' @ data"

lemma rpush_dead:
  assumes "mq_ctx st = Some k" "k \<notin> set (mq_live st)" "length (rpush_text lst data) < 2560"
  shows "mq_step (MqPush lst data) st = Inl UseAfterFree"
  using assms
  by (simp add: mq_step_def RedisMq_RpushList_def redis_RpushList_def snprintf_terminated_def rpush_text_def
      Init_And_Send_SRedisFetchInfo_def res_simps)

lemma rpush_live:
  assumes "mq_ctx st = Some k" "k \<in> set (mq_live st)" "length (rpush_text lst data) < 2560"
    "\<not> has_directive (take 2558 (rpush_text lst data))"
  shows "mq_step (MqPush lst data) st = Inr (st, [(k, CmdRpush, take 2558 (rpush_text lst data))])"
  using assms
  by (simp add: mq_step_def RedisMq_RpushList_def redis_RpushList_def snprintf_terminated_def rpush_text_def
      Init_And_Send_SRedisFetchInfo_def res_simps)

text \<open>
  C36. Losing redis. When the context in use fails to connect or is disconnected by the server, a
  command pushed from then on (of less than 2560 bytes) uses the freed context; but the timer is due, and
  when its attempt gets a new context the command is accepted again: redis is given its text, cut to 2558
  bytes, if there is no formatting directive in it.
\<close>

theorem redis_down_push:
  assumes "mq_ctx st = Some k" "k < mq_next st" "timer_ok (mq_timer st)"
    and "ev = MqConnect k False \<or> ev = MqDisconnect k False"
    and "length (rpush_text lst data) < 2560" "\<not> has_directive (take 2558 (rpush_text lst data))"
    and "ca_made ans"
  shows "\<exists>down up. mq_step ev st = Inr (down, []) \<and> mq_step (MqPush lst data) down = Inl UseAfterFree \<and>
    timer_due (mq_timer down) \<and> mq_step (MqTimer ans) down = Inr (up, []) \<and>
    mq_step (MqPush lst data) up = Inr (up, [(mq_next st, CmdRpush, take 2558 (rpush_text lst data))])"
proof -
  obtain r w where w: "StartTimer True (mq_timer st) = Inr (r, w)" "timer_ok w" "timer_due w"
    by (rule timer_ok_StartTimer [OF assms(3)])
  define down where "down = mq_free k (st\<lparr>mq_connected := False, mq_timer := w\<rparr>)"
  define up where "up = down\<lparr>mq_timer := OnTimer w, mq_ctx := Some (mq_next st),
    mq_live := mq_next st # mq_live down, mq_next := mq_next st + 1\<rparr>"
  have "mq_step ev st = Inr (down, [])"
    using assms(4) w(1)
    by (auto simp: mq_step_def RedisMq_OnConnect_def RedisMq_OnDisconnect_def mq_start_timer_def res_simps down_def Let_def)
  moreover have "mq_step (MqPush lst data) down = Inl UseAfterFree"
    by (rule rpush_dead [of _ k]) (use assms(1,5) in \<open>simp_all add: down_def mq_free_def\<close>)
  moreover have "timer_due (mq_timer down)" using w(3) by (simp add: down_def mq_free_def)
  moreover have "mq_step (MqTimer ans) down = Inr (up, [])"
    using assms(7) by (simp add: mq_step_def RedisMq_OnReconnectTimer_def redis_AsyncConnect_def res_simps up_def down_def mq_free_def)
  moreover have "mq_step (MqPush lst data) up = Inr (up, [(mq_next st, CmdRpush, take 2558 (rpush_text lst data))])"
    by (rule rpush_live) (use assms(5,6) in \<open>simp_all add: up_def\<close>)
  ultimately show ?thesis by blast
qed

theorem redis_down_push_witness:
  "\<exists>st down up. RedisMq_Init [] 0 \<lparr>ca_made = True, ca_attached = True, ca_callbacks = True\<rparr> True = Inr (True, st) \<and>
    mq_step (MqConnect 0 False) st = Inr (down, []) \<and>
    mq_step (MqPush (ascii ''l'') (ascii ''x'')) down = Inl UseAfterFree \<and>
    mq_step (MqTimer \<lparr>ca_made = True, ca_attached = True, ca_callbacks = True\<rparr>) down = Inr (up, []) \<and>
    mq_step (MqPush (ascii ''l'') (ascii ''x'')) up = Inr (up, [(1, CmdRpush, ascii ''rpush l x'')])"
proof -
  let ?ans = "\<lparr>ca_made = True, ca_attached = True, ca_callbacks = True\<rparr>"
  obtain st where st: "RedisMq_Init [] 0 ?ans True = Inr (True, st)" "mq_ctx st = Some 0" "mq_next st = 1" "timer_ok (mq_timer st)"
    by (auto simp: RedisMq_Init_def redis_AsyncConnect_def TimerEventWatcher_new_def Watcher_Init_def DoInit_def res_simps
        timer_ok_def timer_due_def)
  have t: "rpush_text (ascii ''l'') (ascii ''x'') = ascii ''rpush l x''" by (simp add: rpush_text_def ascii_def)
  have d: "\<not> has_directive (take 2558 (rpush_text (ascii ''l'') (ascii ''x'')))" "length (rpush_text (ascii ''l'') (ascii ''x'')) < 2560"
    "take 2558 (rpush_text (ascii ''l'') (ascii ''x'')) = ascii ''rpush l x''"
    unfolding t by (simp_all add: ascii_def)
  have lt: "0 < mq_next st" and m: "ca_made ?ans" using st(3) by simp_all
  from redis_down_push [OF st(2) lt st(4) _ d(2,1) m, of "MqConnect 0 False"] show ?thesis
    using st(1,3) d(3) by auto
qed

end
