(* ===== verification/Pipe.thy ===== *)
theory Pipe
  imports Byte_Buffer
begin

text \<open>
  The pipes between the threads of a MasterServer and its WorkServers (src/core/pipe and
  src/core/server): the descriptors, the channel that writes packets with \<open>writev\<close> and reads them in
  two states, and the two ends a master makes for each worker.  The kernel's answers are arguments.
\<close>

section \<open>Descriptors\<close>

definition PIPE_INVALID_FD :: int where "PIPE_INVALID_FD = -1"

type_synonym fd_pair = "int \<times> int"

record pipe_fds =
  pf_master :: fd_pair
  pf_thread :: fd_pair

definition PipeFds_new :: pipe_fds where
  "PipeFds_new = \<lparr>pf_master = (PIPE_INVALID_FD, PIPE_INVALID_FD), pf_thread = (PIPE_INVALID_FD, PIPE_INVALID_FD)\<rparr>"

text \<open>The pair afterwards and the descriptors that were closed.\<close>

definition ClosePipeFds :: "fd_pair \<Rightarrow> fd_pair \<times> int list" where
  "ClosePipeFds fds =
     ((if fst fds > PIPE_INVALID_FD then PIPE_INVALID_FD else fst fds, if snd fds > PIPE_INVALID_FD then PIPE_INVALID_FD else snd fds),
      filter (\<lambda>fd. fd > PIPE_INVALID_FD) [fst fds, snd fds])"

text \<open>\<open>a1\<close> and \<open>a2\<close> are the answers to the two \<open>pipe2\<close> calls: the pair, or an error.\<close>

definition PipeFds_Init :: "fd_pair option \<Rightarrow> fd_pair option \<Rightarrow> pipe_fds \<Rightarrow> bool \<times> pipe_fds \<times> int list" where
  "PipeFds_Init a1 a2 p =
     (case a1 of
        None \<Rightarrow> (False, p, [])
      | Some m \<Rightarrow>
          (case a2 of
             None \<Rightarrow> (case ClosePipeFds m of (m, closed) \<Rightarrow> (False, p\<lparr>pf_master := m\<rparr>, closed))
           | Some t \<Rightarrow> (True, p\<lparr>pf_master := m, pf_thread := t\<rparr>, [])))"

definition PipeFds_destroy :: "pipe_fds \<Rightarrow> pipe_fds \<times> int list" where
  "PipeFds_destroy p =
     (case (ClosePipeFds (pf_thread p), ClosePipeFds (pf_master p)) of
        ((t, ct), (m, cm)) \<Rightarrow> (p\<lparr>pf_thread := t, pf_master := m\<rparr>, ct @ cm))"

definition GetPipeThreadReadFd :: "pipe_fds \<Rightarrow> int" where "GetPipeThreadReadFd p = fst (pf_master p)"
definition GetPipeThreadWriteFd :: "pipe_fds \<Rightarrow> int" where "GetPipeThreadWriteFd p = snd (pf_thread p)"
definition GetPipeMasterReadFd :: "pipe_fds \<Rightarrow> int" where "GetPipeMasterReadFd p = fst (pf_thread p)"
definition GetPipeMasterWriteFd :: "pipe_fds \<Rightarrow> int" where "GetPipeMasterWriteFd p = snd (pf_master p)"

section \<open>Packets\<close>

text \<open>\<open>PipePacket\<close>, packed, followed by its data.\<close>

record pipe_packet =
  pp_head_length :: u32
  pp_data_length :: u32
  pp_type :: u32
  pp_data :: "byte list"

definition sizeof_PipePacket :: nat where "sizeof_PipePacket = 12"

definition PIPE_PKT_TYPE_INVALID :: u32 where "PIPE_PKT_TYPE_INVALID = 0"
definition PIPE_PKT_STOP_THREAD :: u32 where "PIPE_PKT_STOP_THREAD = 1"

definition PipePacket_new :: pipe_packet where
  "PipePacket_new = \<lparr>pp_head_length = of_nat sizeof_PipePacket, pp_data_length = 0,
     pp_type = PIPE_PKT_TYPE_INVALID, pp_data = []\<rparr>"

definition pipe_header_bytes :: "pipe_packet \<Rightarrow> byte list" where
  "pipe_header_bytes p = w_le 4 (pp_head_length p) @ w_le 4 (pp_data_length p) @ w_le 4 (pp_type p)"

section \<open>The channel\<close>

datatype pipe_status = PipeReadHeader | PipeReadData

text \<open>
  \<open>pc_eventloop\<close>, \<open>pc_read_event\<close> and \<open>pc_handler\<close> tell whether the pointer or function is set. \<open>m_tmp_pkt\<close>
  is assigned before each use and left out.
\<close>

record pipe_channel =
  pc_eventloop :: bool
  pc_read_fd :: int
  pc_write_fd :: int
  pc_status :: pipe_status
  pc_read_event :: bool
  pc_howmuch :: int
  pc_left :: int
  pc_buffer :: buffer
  pc_handler :: bool

definition PIPE_READ_BUFF_SIZE :: int where "PIPE_READ_BUFF_SIZE = 1024"

definition PipeChannel_new :: "int \<Rightarrow> int \<Rightarrow> pipe_channel" where
  "PipeChannel_new rfd wfd =
     \<lparr>pc_eventloop = False, pc_read_fd = rfd, pc_write_fd = wfd, pc_status = PipeReadHeader, pc_read_event = False,
      pc_howmuch = int sizeof_PipePacket, pc_left = 0, pc_buffer = Buffer_new, pc_handler = False\<rparr>"

definition PipeChannel_Clear :: "pipe_channel \<Rightarrow> pipe_channel" where
  "PipeChannel_Clear c =
     c\<lparr>pc_read_fd := (if pc_read_fd c > 0 then PIPE_INVALID_FD else pc_read_fd c),
       pc_write_fd := (if pc_write_fd c > 0 then PIPE_INVALID_FD else pc_write_fd c),
       pc_read_event := False, pc_eventloop := False, pc_status := PipeReadHeader,
       pc_howmuch := int sizeof_PipePacket, pc_left := 0, pc_buffer := Buffer_Clear (pc_buffer c)\<rparr>"

text \<open>\<open>eventloop\<close>: the pointer is not null; \<open>ev\<close>: libevent makes the read event.\<close>

definition PipeChannel_Init :: "bool \<Rightarrow> bool \<Rightarrow> pipe_channel \<Rightarrow> bool \<times> pipe_channel" where
  "PipeChannel_Init eventloop ev c =
     (if \<not> eventloop then (False, c)
      else if \<not> ev then (False, PipeChannel_Clear (c\<lparr>pc_eventloop := True\<rparr>))
      else (True, c\<lparr>pc_eventloop := True, pc_read_event := True\<rparr>))"

text \<open>\<open>ret\<close> is \<open>writev\<close>'s answer, which is returned; the second component is what went into the pipe.\<close>

definition WriteBuffer :: "int \<Rightarrow> u32 \<Rightarrow> byte list \<Rightarrow> int \<times> byte list" where
  "WriteBuffer ret type buffer =
     (let packet = PipePacket_new\<lparr>pp_data_length := of_nat (length buffer), pp_type := type\<rparr> in
      (ret, take (nat ret) (pipe_header_bytes packet @ buffer)))"

definition pipe_packet_of :: "byte list \<Rightarrow> pipe_packet" where
  "pipe_packet_of bs = \<lparr>pp_head_length = of_nat (le_nat (take 4 bs)), pp_data_length = of_nat (le_nat (take 4 (drop 4 bs))),
     pp_type = of_nat (le_nat (take 4 (drop 8 bs))), pp_data = drop 12 bs\<rparr>"

text \<open>How much \<open>OnRead\<close> asks for.\<close>

definition pipe_ntoread :: "pipe_channel \<Rightarrow> int" where
  "pipe_ntoread c =
     (let ntoread = min (pc_howmuch c) PIPE_READ_BUFF_SIZE in
      if pc_left c \<noteq> 0 then min (pc_left c) ntoread else ntoread)"

text \<open>The result: the channel, the packet handed to the handler, and the unused answers of the kernel.\<close>

definition PipeChannel_OnRead ::
  "byte list sys list \<Rightarrow> pipe_channel \<Rightarrow> (pipe_channel \<times> pipe_packet option \<times> byte list sys list) option" where
  "PipeChannel_OnRead rs c =
     map_option (\<lambda>(nread, b, rs).
       if nread \<le> 0 then (c\<lparr>pc_buffer := b\<rparr>, None, rs)
       else (let left = (if pc_left c \<noteq> 0 then pc_left c - nread else pc_howmuch c - nread);
                 c = c\<lparr>pc_buffer := b, pc_left := left\<rparr> in
         if left \<noteq> 0 then (c, None, rs)
         else (case pc_status c of
                 PipeReadHeader \<Rightarrow>
                   (c\<lparr>pc_howmuch := uint (pp_data_length (pipe_packet_of (GetBuffer b))), pc_status := PipeReadData\<rparr>, None, rs)
               | PipeReadData \<Rightarrow>
                   (c\<lparr>pc_howmuch := int sizeof_PipePacket, pc_status := PipeReadHeader, pc_buffer := Buffer_Clear b\<rparr>,
                    if pc_handler c then Some (pipe_packet_of (GetBuffer b)) else None, rs))))
       (GetDataFromFd (pc_read_fd c) (pipe_ntoread c) rs (pc_buffer c))"

text \<open>
  Reads one after the other from a pipe that holds \<open>s\<close>: in each the kernel is ready to deliver up to \<open>n\<close>
  bytes. The result: the channel, what is still in the pipe, and the packets handled.
\<close>

fun pipe_reads ::
  "nat list \<Rightarrow> byte list \<Rightarrow> pipe_channel \<Rightarrow> (pipe_channel \<times> byte list \<times> pipe_packet list) option" where
  "pipe_reads [] s c = Some (c, s, [])"
| "pipe_reads (n # ns) s c =
     Option.bind (PipeChannel_OnRead [SysOk (take n s)] c) (\<lambda>(c', p, _).
       Option.bind (pipe_reads ns (drop (min n (nat (pipe_ntoread c))) s) c') (\<lambda>(c'', s', ps).
         Some (c'', s', (case p of None \<Rightarrow> [] | Some p \<Rightarrow> [p]) @ ps)))"

section \<open>Reading keeps in step with the packets\<close>

definition pipe_encode :: "pipe_packet \<Rightarrow> byte list" where
  "pipe_encode p = pipe_header_bytes p @ pp_data p"

definition pipe_body :: "byte list \<Rightarrow> nat" where
  "pipe_body bs = unat (pp_data_length (pipe_packet_of bs))"

definition pipe_inv :: "pipe_channel \<Rightarrow> bool" where
  "pipe_inv c \<longleftrightarrow> buf_ok (pc_buffer c) \<and> 0 \<le> pc_read_fd c \<and> pc_handler c \<and>
     (let n = length (GetBuffer (pc_buffer c)); d = pipe_body (GetBuffer (pc_buffer c)) in
      case pc_status c of
        PipeReadHeader \<Rightarrow> n < 12 \<and> pc_howmuch c = 12 \<and> pc_left c = (if n = 0 then 0 else 12 - int n)
      | PipeReadData \<Rightarrow> 12 \<le> n \<and> (n = 12 \<or> n < 12 + d) \<and> pc_howmuch c = int d \<and>
          pc_left c = (if n = 12 then 0 else 12 + int d - int n))"

text \<open>Bytes still missing from the header or from the packet.\<close>

definition pipe_missing :: "pipe_channel \<Rightarrow> nat" where
  "pipe_missing c =
     (let n = length (GetBuffer (pc_buffer c)) in
      case pc_status c of PipeReadHeader \<Rightarrow> 12 - n | PipeReadData \<Rightarrow> 12 + pipe_body (GetBuffer (pc_buffer c)) - n)"

lemma pipe_body_append: "12 \<le> length bs \<Longrightarrow> pipe_body (bs @ cs) = pipe_body bs"
  by (simp add: pipe_body_def pipe_packet_of_def)

lemma pipe_asks: "pipe_inv c \<Longrightarrow> pipe_ntoread c = int (min (pipe_missing c) 1024)"
  by (auto simp: pipe_inv_def pipe_missing_def pipe_ntoread_def Let_def PIPE_READ_BUFF_SIZE_def split: pipe_status.splits if_splits)

definition got :: "byte list \<Rightarrow> pipe_channel \<Rightarrow> byte list" where
  "got bs c = take (min (pipe_missing c) 1024) bs"

lemma pipe_read_step:
  assumes "pipe_inv c"
  shows "\<exists>c' p. PipeChannel_OnRead [SysOk bs] c = Some (c', p, []) \<and> pipe_inv c' \<and>
    (case p of
       None \<Rightarrow> GetBuffer (pc_buffer c') = GetBuffer (pc_buffer c) @ got bs c
     | Some p \<Rightarrow> GetBuffer (pc_buffer c') = [] \<and> p = pipe_packet_of (GetBuffer (pc_buffer c) @ got bs c) \<and>
         length (pp_data p) = unat (pp_data_length p) \<and> 12 \<le> length (GetBuffer (pc_buffer c) @ got bs c) \<and> pp_data p \<noteq> [])"
proof -
  let ?B = "GetBuffer (pc_buffer c)"
  have ok: "buf_ok (pc_buffer c)" "0 \<le> pc_read_fd c" "pc_handler c" using assms by (simp_all add: pipe_inv_def)
  have m: "int MAX_SIZE_ONCE_READ = 5120" by (simp add: MAX_SIZE_ONCE_READ_def)
  have "GetDataFromFd (pc_read_fd c) (pipe_ntoread c) [SysOk bs] (pc_buffer c) =
      (if got bs c = [] then Some (0, pc_buffer c, []) else Some (int (length (got bs c)), Append (got bs c) (pc_buffer c), []))"
    using ok(2) by (simp add: GetDataFromFd_def pipe_asks [OF assms] got_def m Let_def min_def)
  note read = this
  show ?thesis
  proof (cases "got bs c = []")
    case True
    then show ?thesis using assms by (simp add: PipeChannel_OnRead_def read)
  next
    case False
    define k where "k = length (got bs c)"
    have k: "0 < k" "k \<le> pipe_missing c" using False by (simp_all add: k_def got_def)
    have B: "GetBuffer (Append (got bs c) (pc_buffer c)) = ?B @ got bs c" "buf_ok (Append (got bs c) (pc_buffer c))"
      using ok(1) by (simp_all add: buf_simps)
    have left: "pc_left c \<noteq> 0 \<Longrightarrow> pc_left c = int (pipe_missing c)" "pc_left c = 0 \<Longrightarrow> pc_howmuch c = int (pipe_missing c)"
      using assms k by (auto simp: pipe_inv_def pipe_missing_def Let_def split: pipe_status.splits if_splits)
    note run = PipeChannel_OnRead_def read False k_def [symmetric] Let_def B(1) ok(3)
    show ?thesis
    proof (cases "k = pipe_missing c")
      case short: False
      have "PipeChannel_OnRead [SysOk bs] c =
          Some (c\<lparr>pc_buffer := Append (got bs c) (pc_buffer c), pc_left := int (pipe_missing c) - int k\<rparr>, None, [])"
        using k short left by (cases "pc_left c = 0") (simp_all add: run)
      moreover have "pipe_inv (c\<lparr>pc_buffer := Append (got bs c) (pc_buffer c), pc_left := int (pipe_missing c) - int k\<rparr>)"
        using assms k short B
        by (auto simp: pipe_inv_def pipe_missing_def Let_def k_def pipe_body_append split: pipe_status.splits if_splits)
      ultimately show ?thesis using B(1) by simp
    next
      case full: True
      show ?thesis
      proof (cases "pc_status c")
        case PipeReadHeader
        let ?c = "c\<lparr>pc_buffer := Append (got bs c) (pc_buffer c), pc_left := 0,
          pc_howmuch := uint (pp_data_length (pipe_packet_of (?B @ got bs c))), pc_status := PipeReadData\<rparr>"
        have "PipeChannel_OnRead [SysOk bs] c = Some (?c, None, [])"
          using k full PipeReadHeader left by (cases "pc_left c = 0") (simp_all add: run)
        moreover have "pipe_inv ?c"
          using assms k full B PipeReadHeader
          by (auto simp: pipe_inv_def pipe_missing_def Let_def k_def pipe_body_def)
        ultimately show ?thesis using B(1) by simp
      next
        case PipeReadData
        let ?c = "c\<lparr>pc_buffer := Buffer_Clear (Append (got bs c) (pc_buffer c)), pc_left := 0,
          pc_howmuch := int sizeof_PipePacket, pc_status := PipeReadHeader\<rparr>"
        have "PipeChannel_OnRead [SysOk bs] c = Some (?c, Some (pipe_packet_of (?B @ got bs c)), [])"
          using k full PipeReadData left by (cases "pc_left c = 0") (simp_all add: run)
        moreover have "pipe_inv ?c" using assms by (simp add: pipe_inv_def sizeof_PipePacket_def buf_simps)
        moreover have n: "12 \<le> length ?B" "length (?B @ got bs c) = 12 + pipe_body ?B"
          using assms k full PipeReadData by (auto simp: pipe_inv_def pipe_missing_def Let_def k_def)
        moreover have "length (pp_data (pipe_packet_of (?B @ got bs c))) = unat (pp_data_length (pipe_packet_of (?B @ got bs c)))"
          using n pipe_body_append [OF n(1), of "got bs c"] by (simp add: pipe_packet_of_def pipe_body_def)
        moreover have "pp_data (pipe_packet_of (?B @ got bs c)) \<noteq> []"
          using n k full PipeReadData by (auto simp: pipe_packet_of_def pipe_missing_def Let_def)
        ultimately show ?thesis by (simp add: buf_simps)
      qed
    qed
  qed
qed


definition pipe_pkt_wf :: "pipe_packet \<Rightarrow> bool" where
  "pipe_pkt_wf p \<longleftrightarrow> length (pp_data p) = unat (pp_data_length p)"

lemma pipe_of_encode: "pipe_pkt_wf p \<Longrightarrow> pipe_packet_of (pipe_encode p) = p"
  by (simp add: pipe_packet_of_def pipe_encode_def pipe_header_bytes_def word_le_roundtrip)

lemma pipe_encode_of:
  assumes "12 \<le> length bs"
  shows "pipe_encode (pipe_packet_of bs) = bs"
proof -
  have e: "w_le 4 (of_nat (le_nat xs) :: u32) = xs" if "length xs = 4" for xs
    using w_le_roundtrip [of xs 4, where 'a = 32] that by simp
  have "bs = take 4 bs @ drop 4 bs" by simp
  moreover have "drop 4 bs = take 4 (drop 4 bs) @ drop 8 bs"
    using append_take_drop_id [of 4 "drop 4 bs"] by simp
  moreover have "drop 8 bs = take 4 (drop 8 bs) @ drop 12 bs"
    using append_take_drop_id [of 4 "drop 8 bs"] by simp
  ultimately have "bs = take 4 bs @ take 4 (drop 4 bs) @ take 4 (drop 8 bs) @ drop 12 bs" by metis
  then show ?thesis
    using assms by (simp add: pipe_encode_def pipe_packet_of_def pipe_header_bytes_def e)
qed

lemma length_pipe_encode: "length (pipe_encode p) = 12 + length (pp_data p)"
  by (simp add: pipe_encode_def pipe_header_bytes_def)

lemma pipe_body_encode: "pipe_pkt_wf p \<Longrightarrow> pipe_body (pipe_encode p @ t) = length (pp_data p)"
  using pipe_body_append [of "pipe_encode p" t] by (simp add: length_pipe_encode pipe_body_def pipe_of_encode pipe_pkt_wf_def)

text \<open>Packets are not prefixes of each other.\<close>

lemma pipe_encode_prefix:
  assumes "pipe_pkt_wf p" "pipe_pkt_wf q" "pipe_encode p @ x = pipe_encode q @ y"
  shows "p = q \<and> x = y"
proof -
  have "length (pp_data p) = length (pp_data q)"
    using pipe_body_encode [OF assms(1), of x] pipe_body_encode [OF assms(2), of y] assms(3) by simp
  then have "length (pipe_encode p) = length (pipe_encode q)" by (simp add: length_pipe_encode)
  with assms(3) have "pipe_encode p = pipe_encode q" "x = y" by auto
  with pipe_of_encode assms(1,2) show ?thesis by metis
qed

definition pipe_pkts_ok :: "pipe_packet list \<Rightarrow> bool" where
  "pipe_pkts_ok qs \<longleftrightarrow> (\<forall>q \<in> set qs. pipe_pkt_wf q \<and> pp_data q \<noteq> [])"

text \<open>What the buffer holds is the beginning of the next packet.\<close>

lemma pipe_buffer_short:
  assumes "pipe_inv c" "GetBuffer (pc_buffer c) @ s = concat (map pipe_encode qs)" "pipe_pkts_ok qs"
  shows "0 < pipe_missing c \<or> qs = []" "s = [] \<Longrightarrow> qs = []"
proof -
  let ?B = "GetBuffer (pc_buffer c)"
  have *: "0 < pipe_missing c \<and> s \<noteq> []" if "qs \<noteq> []"
  proof (cases qs)
    case (Cons q qs')
    have q: "pipe_pkt_wf q" "pp_data q \<noteq> []" using assms(3) by (simp_all add: Cons pipe_pkts_ok_def)
    have e: "?B @ s = pipe_encode q @ concat (map pipe_encode qs')" using assms(2) by (simp add: Cons)
    have l: "0 < length (pp_data q)" using q(2) by simp
    show ?thesis
    proof (cases "pc_status c")
      case PipeReadHeader
      then have "length ?B < 12" using assms(1) by (simp add: pipe_inv_def Let_def)
      moreover have "12 \<le> length (?B @ s)" by (simp add: e length_pipe_encode)
      ultimately show ?thesis using PipeReadHeader by (auto simp: pipe_missing_def Let_def)
    next
      case PipeReadData
      then have B: "12 \<le> length ?B" "length ?B = 12 \<or> length ?B < 12 + pipe_body ?B"
        using assms(1) by (simp_all add: pipe_inv_def Let_def)
      have d: "pipe_body ?B = length (pp_data q)"
        using pipe_body_append [OF B(1), of s] pipe_body_encode [OF q(1)] by (simp add: e)
      moreover have "12 + length (pp_data q) \<le> length (?B @ s)" by (simp add: e length_pipe_encode)
      ultimately show ?thesis using PipeReadData B l by (auto simp: pipe_missing_def Let_def)
    qed
  qed (use that in simp)
  then show "0 < pipe_missing c \<or> qs = []" "s = [] \<Longrightarrow> qs = []" by blast+
qed

lemma pipe_reads_all:
  assumes "pipe_inv c" "GetBuffer (pc_buffer c) @ s = concat (map pipe_encode qs)" "pipe_pkts_ok qs"
    "\<forall>n \<in> set ns. 0 < n" "length s \<le> length ns"
  shows "\<exists>c'. pipe_reads ns s c = Some (c', [], qs) \<and> pipe_inv c' \<and> GetBuffer (pc_buffer c') = []"
  using assms
proof (induction ns arbitrary: s c qs)
  case Nil
  with pipe_buffer_short(2) [OF Nil.prems(1-3)] show ?case by simp
next
  case (Cons n ns)
  let ?B = "GetBuffer (pc_buffer c)" and ?g = "got (take n s) c"
  obtain c1 p where r: "PipeChannel_OnRead [SysOk (take n s)] c = Some (c1, p, [])" "pipe_inv c1"
    "case p of
       None \<Rightarrow> GetBuffer (pc_buffer c1) = ?B @ ?g
     | Some p \<Rightarrow> GetBuffer (pc_buffer c1) = [] \<and> p = pipe_packet_of (?B @ ?g) \<and>
         length (pp_data p) = unat (pp_data_length p) \<and> 12 \<le> length (?B @ ?g) \<and> pp_data p \<noteq> []"
    using pipe_read_step [OF Cons.prems(1)] by blast
  define s1 where "s1 = drop (min n (nat (pipe_ntoread c))) s"
  have g: "?g = take (min n (nat (pipe_ntoread c))) s"
    by (simp add: got_def pipe_asks [OF Cons.prems(1)] min.commute)
  then have split: "?g @ s1 = s" by (simp add: s1_def)
  have "length s1 \<le> length ns"
  proof (cases "s = []")
    case False
    with pipe_buffer_short(1) [OF Cons.prems(1-3)] Cons.prems(2) have "0 < pipe_missing c" by auto
    with Cons.prems(4,5) False show ?thesis
      by (auto simp: s1_def pipe_asks [OF Cons.prems(1)])
  qed (simp add: s1_def)
  note ih = Cons.IH [OF r(2) _ _ _ this]
  show ?case
  proof (cases p)
    case None
    then have "GetBuffer (pc_buffer c1) @ s1 = concat (map pipe_encode qs)" using r(3) split Cons.prems(2) by simp
    from ih [OF this Cons.prems(3)] Cons.prems(4) r(1) None show ?thesis by (auto simp: s1_def)
  next
    case (Some p1)
    have "GetBuffer (pc_buffer c1) = [] \<and> p1 = pipe_packet_of (?B @ ?g) \<and>
        length (pp_data p1) = unat (pp_data_length p1) \<and> 12 \<le> length (?B @ ?g) \<and> pp_data p1 \<noteq> []"
      using r(3) unfolding Some option.case by blast
    then have p1: "GetBuffer (pc_buffer c1) = []" "p1 = pipe_packet_of (?B @ ?g)" "pipe_pkt_wf p1" "12 \<le> length (?B @ ?g)"
      unfolding pipe_pkt_wf_def by blast+
    have e: "pipe_encode p1 @ s1 = concat (map pipe_encode qs)"
      using pipe_encode_of [OF p1(4)] split Cons.prems(2) by (simp add: p1(2))
    then obtain q qs' where qs: "qs = q # qs'" by (cases qs) (auto simp: length_pipe_encode dest: arg_cong [of _ _ length])
    with pipe_encode_prefix [OF p1(3), of q s1] e Cons.prems(3) have "p1 = q" "s1 = concat (map pipe_encode qs')"
      by (auto simp: pipe_pkts_ok_def)
    with ih [of qs'] p1(1) Cons.prems(3,4) r(1) Some qs show ?thesis by (auto simp: s1_def pipe_pkts_ok_def)
  qed
qed

text \<open>
  A packet without data: the header makes the channel wait for 0 bytes, and it then asks the kernel for 0
  bytes for ever, whatever the pipe holds.
\<close>

lemma empty_body_stalls:
  assumes "pipe_inv c" "pc_status c = PipeReadData" "pc_howmuch c = 0"
  shows "\<exists>c'. pipe_reads ns s c = Some (c', s, []) \<and> GetBuffer (pc_buffer c') = GetBuffer (pc_buffer c)"
  using assms
proof (induction ns arbitrary: c)
  case (Cons n ns)
  have z: "pipe_missing c = 0" using Cons.prems by (auto simp: pipe_inv_def pipe_missing_def Let_def split: if_splits)
  then have a: "pipe_ntoread c = 0" by (simp add: pipe_asks [OF Cons.prems(1)])
  have "PipeChannel_OnRead [SysOk (take n s)] c = Some (c, None, [])"
    using Cons.prems(1) by (simp add: PipeChannel_OnRead_def GetDataFromFd_def a pipe_inv_def Let_def)
  with Cons.IH [OF Cons.prems] show ?case by (auto simp: a)
qed simp

section \<open>Master and worker\<close>

text \<open>\<open>SetOnPipePktCompleted\<close> and the two ends that \<open>CreateWorkServer\<close> makes: the master's and the worker's.\<close>

definition SetOnPipePktCompleted :: "bool \<Rightarrow> pipe_channel \<Rightarrow> pipe_channel" where
  "SetOnPipePktCompleted handler c = c\<lparr>pc_handler := handler\<rparr>"

text \<open>
  \<open>handler\<close>: the master has a handler at this moment, which is copied; \<open>ev\<close>: libevent makes the event.
  The answers of \<open>PipeFds::Init\<close> and of \<open>PipeChannel::Init\<close> are not looked at. The worker's end has its
  handler set and is opened by \<open>WorkServer_Run\<close>, in the worker's thread.
\<close>

definition CreateWorkServer :: "fd_pair option \<Rightarrow> fd_pair option \<Rightarrow> bool \<Rightarrow> bool \<Rightarrow> pipe_channel \<times> pipe_channel \<times> pipe_fds" where
  "CreateWorkServer a1 a2 handler ev =
     (let fds = fst (snd (PipeFds_Init a1 a2 PipeFds_new));
          master = PipeChannel_new (GetPipeMasterReadFd fds) (GetPipeMasterWriteFd fds);
          work = PipeChannel_new (GetPipeThreadReadFd fds) (GetPipeThreadWriteFd fds) in
      (snd (PipeChannel_Init True ev (SetOnPipePktCompleted handler master)), work, fds))"

definition WorkServer_Run :: "bool \<Rightarrow> pipe_channel \<Rightarrow> pipe_channel" where
  "WorkServer_Run ev work = snd (PipeChannel_Init True ev (SetOnPipePktCompleted True work))"

definition SendMsgToWorkThread :: "int \<Rightarrow> u32 \<Rightarrow> byte list \<Rightarrow> int \<times> byte list" where
  "SendMsgToWorkThread ret type msg = WriteBuffer ret type msg"

definition stop_thread_msg :: "byte list" where
  "stop_thread_msg = map of_char ''stop thread''"

definition NotifyStopThread :: "int \<Rightarrow> bool \<times> byte list" where
  "NotifyStopThread ret =
     (let msg = stop_thread_msg; (n, sent) = SendMsgToWorkThread ret PIPE_PKT_STOP_THREAD msg in
      (uint (of_int n :: 64 word) = int (length msg), sent))"

text \<open>What the master writes goes to the worker and the other way round: each end reads the pipe the other writes.\<close>

lemma ends_are_crossed:
  assumes "CreateWorkServer (Some (mr, mw)) (Some (tr, tw)) h True = (master, work, fds)"
  shows "pc_write_fd master = mw \<and> pc_read_fd work = mr \<and> pc_write_fd work = tw \<and> pc_read_fd master = tr"
  using assms
  by (auto simp: CreateWorkServer_def PipeFds_Init_def PipeFds_new_def PipeChannel_new_def SetOnPipePktCompleted_def
      PipeChannel_Init_def GetPipeMasterReadFd_def GetPipeMasterWriteFd_def GetPipeThreadReadFd_def
      GetPipeThreadWriteFd_def Let_def)

text \<open>A stop request that is written completely is reported as failed: the count includes the header.\<close>

lemma stop_request_reported_as_failed:
  "NotifyStopThread 23 = (False, pipe_header_bytes (PipePacket_new\<lparr>pp_data_length := 11, pp_type := PIPE_PKT_STOP_THREAD\<rparr>) @ stop_thread_msg)"
  by (simp add: NotifyStopThread_def SendMsgToWorkThread_def WriteBuffer_def Let_def pipe_header_bytes_def stop_thread_msg_def
      PipePacket_new_def sizeof_PipePacket_def)

text \<open>What the pipe holds after the messages \<open>ms\<close> have been written completely.\<close>

definition pipe_stream :: "(u32 \<times> byte list) list \<Rightarrow> byte list" where
  "pipe_stream ms = concat (map (\<lambda>(t, d). snd (SendMsgToWorkThread (12 + int (length d)) t d)) ms)"

definition pipe_packets :: "(u32 \<times> byte list) list \<Rightarrow> pipe_packet list" where
  "pipe_packets ms =
     map (\<lambda>(t, d). \<lparr>pp_head_length = 12, pp_data_length = of_nat (length d), pp_type = t, pp_data = d\<rparr>) ms"

lemma pipe_stream_encodes: "pipe_stream ms = concat (map pipe_encode (pipe_packets ms))"
proof -
  have "snd (SendMsgToWorkThread (12 + int (length d)) t d) =
      pipe_encode \<lparr>pp_head_length = 12, pp_data_length = of_nat (length d), pp_type = t, pp_data = d\<rparr>" for t d
    by (simp add: SendMsgToWorkThread_def WriteBuffer_def pipe_encode_def pipe_header_bytes_def Let_def PipePacket_new_def
        sizeof_PipePacket_def nat_add_distrib)
  then show ?thesis by (induction ms) (auto simp: pipe_stream_def pipe_packets_def)
qed

text \<open>The worker's end, once opened, satisfies the invariant with an empty buffer.\<close>

lemma worker_end_opened:
  assumes "0 \<le> mr" "CreateWorkServer (Some (mr, mw)) a2 h ev = (master, work, fds)" "a2 \<noteq> None"
  shows "pipe_inv (WorkServer_Run True work)" "GetBuffer (pc_buffer (WorkServer_Run True work)) = []"
  using assms
  by (auto simp: CreateWorkServer_def PipeFds_Init_def PipeFds_new_def PipeChannel_new_def SetOnPipePktCompleted_def
      PipeChannel_Init_def GetPipeThreadReadFd_def WorkServer_Run_def pipe_inv_def Let_def sizeof_PipePacket_def buf_simps)

text \<open>
  C33. What a master sends its worker arrives: when the messages, each with some data of less than 2^32
  bytes, have been written completely, and the pipe is read as often as there are bytes, in whatever
  portions the kernel delivers them, then the worker handles exactly these messages, with their types
  and data, in the order they were sent, and nothing is left in the pipe.
\<close>

theorem pipe_delivers:
  assumes "CreateWorkServer (Some (mr, mw)) (Some (tr, tw)) h ev = (master, work, fds)" "0 \<le> mr"
    and "\<forall>m \<in> set ms. snd m \<noteq> [] \<and> length (snd m) < 2 ^ 32"
    and "\<forall>n \<in> set ns. 0 < n" "length (pipe_stream ms) \<le> length ns"
  shows "\<exists>c' ps. pipe_reads ns (pipe_stream ms) (WorkServer_Run True work) = Some (c', [], ps) \<and>
    map (\<lambda>p. (pp_type p, pp_data p)) ps = ms"
proof -
  note w = worker_end_opened [OF assms(2,1), simplified]
  have ok: "pipe_pkts_ok (pipe_packets ms)"
    using assms(3) by (auto simp: pipe_pkts_ok_def pipe_packets_def pipe_pkt_wf_def unat_of_nat)
  have "map (\<lambda>p. (pp_type p, pp_data p)) (pipe_packets ms) = ms"
    by (induction ms) (auto simp: pipe_packets_def)
  with pipe_reads_all [OF w(1), of "pipe_stream ms" "pipe_packets ms" ns] w(2) ok assms(4,5)
  show ?thesis by (auto simp: pipe_stream_encodes)
qed

lemma pipe_delivers_witness:
  "\<exists>c' ps. pipe_reads (replicate 30 7) (pipe_stream [(6, [1, 2]), (7, [3])])
      (WorkServer_Run True (fst (snd (CreateWorkServer (Some (5, 6)) (Some (7, 8)) False True)))) = Some (c', [], ps) \<and>
    map (\<lambda>p. (pp_type p, pp_data p)) ps = [(6, [1, 2]), (7, [3])]"
  by (rule pipe_delivers [where h = False and ev = True and mr = 5 and mw = 6 and tr = 7 and tw = 8
        and master = "fst (CreateWorkServer (Some (5, 6)) (Some (7, 8)) False True)"
        and fds = "snd (snd (CreateWorkServer (Some (5, 6)) (Some (7, 8)) False True))"])
    (simp_all add: pipe_stream_encodes pipe_packets_def length_pipe_encode)

end
