(* ===== verification/Vehicle_Path.thy ===== *)
theory Vehicle_Path
  imports Jt1078_Server Car_Web
begin

text \<open>
  The way of a vehicle's data through jt1078_server: the message callback of a vehicle's session, the
  packets it decodes, their identifier, their publication on the forward server and what goes out on a
  subscriber's connection (\<open>CarSession::OnMessage\<close>, \<open>Jt1078Server::OnPacketCompleted\<close> and \<open>OnPacketError\<close>,
  \<open>Jt1078Service::Notify1078Packet\<close>), and from there through new_web_server to a browser.
\<close>

section \<open>One vehicle's messages\<close>

definition service_cars :: "bool \<Rightarrow> jt1078_service \<Rightarrow> jt1078_server" where
  "service_cars r sv = (if r then sv_jt1078_realtime sv else sv_jt1078_history sv)"

definition set_service_cars :: "bool \<Rightarrow> jt1078_server \<Rightarrow> jt1078_service \<Rightarrow> jt1078_service" where
  "set_service_cars r js sv =
     (if r then sv\<lparr>sv_jt1078_realtime := js\<rparr> else sv\<lparr>sv_jt1078_history := js\<rparr>)"

definition service_forward :: "bool \<Rightarrow> jt1078_service \<Rightarrow> forward_server" where
  "service_forward r sv = (if r then sv_forward_realtime sv else sv_forward_history sv)"

text \<open>
  The notifications of one message, in order; for each there is the kernel's answer to every
  subscriber's connection.
\<close>

fun notify_all ::
  "(session_id \<Rightarrow> nat sys list) list \<Rightarrow> (device_id_t \<times> jt_packet) list \<Rightarrow> bool \<Rightarrow> jt1078_service \<Rightarrow> heap \<Rightarrow>
    (jt1078_service \<times> heap \<times> (session_id \<times> byte list) list) option" where
  "notify_all anss [] r sv h = Some (sv, h, [])"
| "notify_all [] (n # ns) r sv h = None"
| "notify_all (ans # anss) (n # ns) r sv h =
     Option.bind (Notify1078Packet ans (fst n) (snd n) r sv h) (\<lambda>(sv, h, outs).
       map_option (\<lambda>(sv, h, outs'). (sv, h, outs @ outs')) (notify_all anss ns r sv h))"

text \<open>
  A message of the vehicle's session \<open>cid\<close>, if it is still there. An error comes after the packets and
  removes the session.
\<close>

definition Service_car_message ::
  "bool \<Rightarrow> session_id \<Rightarrow> byte list \<times> (session_id \<Rightarrow> nat sys list) list \<Rightarrow> jt1078_service \<Rightarrow> heap \<Rightarrow>
    (fault + (jt1078_service \<times> heap \<times> (session_id \<times> byte list) list)) option" where
  "Service_car_message r cid m sv h =
     (case GetCar cid (js_manager (service_cars r sv)) of
        None \<Rightarrow> Some (Inr (sv, h, []))
      | Some car \<Rightarrow>
          Option.bind (CarSession_OnMessage (Append (fst m) Buffer_new) car) (\<lambda>(evs, out).
            case out of
              Inl f \<Rightarrow> Some (Inl f)
            | Inr car \<Rightarrow>
                (case car_packets evs car of (car, ns) \<Rightarrow>
                   (let js = service_cars r sv;
                        js = js\<lparr>js_manager := AddCar car (js_manager js)\<rparr>;
                        js = foldl (\<lambda>js ev. case ev of CarPacket _ \<Rightarrow> js | CarError e \<Rightarrow> Car_OnPacketError cid e js) js evs in
                    map_option Inr (notify_all (snd m) ns r (set_service_cars r js sv) h)))))"

fun Service_car_run ::
  "bool \<Rightarrow> session_id \<Rightarrow> (byte list \<times> (session_id \<Rightarrow> nat sys list) list) list \<Rightarrow> jt1078_service \<Rightarrow> heap \<Rightarrow>
    (fault + (jt1078_service \<times> heap \<times> (session_id \<times> byte list) list)) option" where
  "Service_car_run r cid [] sv h = Some (Inr (sv, h, []))"
| "Service_car_run r cid (m # ms) sv h =
     Option.bind (Service_car_message r cid m sv h) (\<lambda>x. case x of
         Inl f \<Rightarrow> Some (Inl f)
       | Inr (sv, h, outs) \<Rightarrow>
           map_option (map_sum id (\<lambda>(sv, h, outs'). (sv, h, outs @ outs'))) (Service_car_run r cid ms sv h))"

section \<open>Publishing to one subscriber\<close>

definition sent :: "session_id \<Rightarrow> (session_id \<times> byte list) list \<Rightarrow> byte list" where
  "sent sid outs = concat (map snd (filter (\<lambda>e. fst e = sid) outs))"

lemma sent_append [simp]: "sent sid (outs @ outs') = sent sid outs @ sent sid outs'"
  by (simp add: sent_def)

lemma Channel_SendMsg_keys:
  "Channel_SendMsg ans pkt did m h = Some (m', h', outs) \<Longrightarrow> map fst outs = map fst m"
  by (induction m arbitrary: h m' outs) (auto simp: Let_def bind_eq_Some_conv split: if_splits)

lemma sent_single:
  assumes "distinct (map fst outs)"
  shows "(sid, x) \<in> set outs \<Longrightarrow> sent sid outs = x" "sid \<notin> fst ` set outs \<Longrightarrow> sent sid outs = []"
proof -
  have none: "filter (\<lambda>e. fst e = sid) outs = []" if "sid \<notin> fst ` set outs" for outs :: "(session_id \<times> byte list) list"
    using that by (auto simp: filter_empty_conv)
  then show "sid \<notin> fst ` set outs \<Longrightarrow> sent sid outs = []" by (simp add: sent_def)
  show "sent sid outs = x" if "(sid, x) \<in> set outs"
    using that assms by (induction outs) (auto simp: sent_def none intro: rev_image_eqI)
qed

text \<open>What a publication does for one subscriber.\<close>

lemma publish_one:
  assumes "fs_inv fs" "Publisher_Publish ans did pkt fs h = Some (fs', h', outs)"
  shows "fs_inv fs'" (is ?I)
    and "concat (ts_pending (h sid)) @
      (if fs_holds fs did sid \<and> ts_can_write (h sid) \<and> ts_can_write (h' sid) then relay_wire (h sid) (pkt, did) else [])
      = sent sid outs @ concat (ts_pending (h' sid))" (is ?C)
    and "fs_holds fs' did sid \<longleftrightarrow> fs_holds fs did sid \<and> ts_can_write (h' sid)" (is ?H)
    and "\<not> ts_can_write (h sid) \<longrightarrow> h' sid = h sid" (is ?U)
proof -
  have *: "?I \<and> ?C \<and> ?H \<and> ?U"
  proof (cases "sm_find (fs_channels fs) did")
    case None
    with assms show ?thesis by (auto simp: Publisher_Publish_def fs_holds_def sent_def)
  next
    case (Some m)
    with assms(2) obtain m' where m': "Channel_SendMsg ans pkt did m h = Some (m', h', outs)"
      "fs' = fs\<lparr>fs_channels := sm_set did m' (fs_channels fs)\<rparr>"
      by (auto simp: Publisher_Publish_def)
    have wf: "sm_wf m" using fs_inv_find [OF assms(1) Some] .
    then have d: "distinct (map fst m)" using sm_wf_distinct by (simp add: sm_keys_def)
    note spec = Channel_SendMsg_spec [OF d m'(1)]
    note keys = Channel_SendMsg_keys [OF m'(1)]
    then have dd: "distinct (map fst outs)" using d by simp
    have in_outs: "sid \<in> fst ` set outs \<longleftrightarrow> sid \<in> fst ` set m" using keys by (metis list.set_map)
    have h1: "fs_holds fs did sid \<longleftrightarrow> sid \<in> fst ` set m"
      using sm_find_None [of m sid] by (auto simp: fs_holds_def Some sm_keys_def)
    have inv: "fs_inv fs'" unfolding m'(2) using spec wf by (auto intro!: fs_inv_set [OF assms(1)])
    have h2: "fs_holds fs' did sid \<longleftrightarrow> sid \<in> fst ` set m \<and> ts_can_write (h' sid)"
      using conjunct1 [OF spec] sm_find_None [of m' sid] by (auto simp: fs_holds_def m'(2) sm_keys_def)
    have ?C
    proof (cases "sid \<in> fst ` set m")
      case False
      then show ?thesis using spec sent_single(2) [OF dd] in_outs h1 by auto
    next
      case True
      show ?thesis
      proof (cases "ts_can_write (h sid)")
        case cw: True
        then obtain ret out rs' where s: "Subscriber_SendMsg (ans sid) pkt did (h sid) = Some (ret, out, h' sid, rs')"
          "(sid, out) \<in> set outs"
          using spec True by (metis (no_types, lifting))
        show ?thesis
          using Subscriber_SendMsg_conserves(1,2) [OF s(1)] cw sent_single(1) [OF dd s(2)] h1 True by auto
      next
        case ncw: False
        have "Channel_SendMsg ans pkt did m h = Some (m', h', outs) \<Longrightarrow> \<not> ts_can_write (h sid) \<Longrightarrow>
            (sid, x) \<in> set outs \<Longrightarrow> distinct (map fst m) \<Longrightarrow> x = []" for m h m' outs x
        proof (induction m arbitrary: h m' outs)
          case (Cons q m)
          then show ?case
            using Channel_SendMsg_keys [of ans pkt did m]
            by (fastforce simp: Let_def bind_eq_Some_conv split: if_splits)
        qed simp
        from this [OF m'(1) ncw _ d] obtain x where "(sid, x) \<in> set outs" "x = []"
          using True in_outs by force
        then show ?thesis using sent_single(1) [OF dd, of sid x] ncw spec True by auto
      qed
    qed
    moreover have ?U using spec by (cases "sid \<in> fst ` set m") auto
    ultimately show ?thesis using inv h1 h2 by simp
  qed
  then show ?I ?C ?H ?U by blast+
qed


section \<open>What reaches a subscriber\<close>

text \<open>The subscriber is in the vehicle's channel and can be written.\<close>

definition live :: "bool \<Rightarrow> device_id_t \<Rightarrow> session_id \<Rightarrow> jt1078_service \<Rightarrow> heap \<Rightarrow> bool" where
  "live r did sid sv h \<longleftrightarrow> fs_holds (service_forward r sv) did sid \<and> ts_can_write (h sid)"

text \<open>
  The bytes sent and what is pending are those of the first of the packets, each with the identifier and
  some sequence number, and of all of them if the subscriber is still live.
\<close>

definition relayed_to ::
  "bool \<Rightarrow> device_id_t \<Rightarrow> session_id \<Rightarrow> jt_packet list \<Rightarrow> jt1078_service \<Rightarrow> heap \<Rightarrow> jt1078_service \<Rightarrow> heap \<Rightarrow>
    (session_id \<times> byte list) list \<Rightarrow> bool" where
  "relayed_to r did sid ps sv h sv' h' outs \<longleftrightarrow>
     fs_inv (service_forward r sv') \<and>
     (\<exists>items qs rest. map snd items = map (\<lambda>p. (p, did)) qs \<and> ps = qs @ rest \<and>
       concat (ts_pending (h sid)) @ concat (map (ipc_encode \<circ> relayed_ipc) items)
         = sent sid outs @ concat (ts_pending (h' sid)) \<and>
       (live r did sid sv' h' \<longrightarrow> live r did sid sv h \<and> rest = []) \<and> (\<not> live r did sid sv h \<longrightarrow> items = []))"

lemma relayed_to_Nil: "fs_inv (service_forward r sv) \<Longrightarrow> relayed_to r did sid [] sv h sv h []"
  by (simp add: relayed_to_def sent_def)

lemma relayed_to_append:
  assumes "relayed_to r did sid ps sv h sv1 h1 outs" "relayed_to r did sid ps' sv1 h1 sv2 h2 outs'"
  shows "relayed_to r did sid (ps @ ps') sv h sv2 h2 (outs @ outs')"
proof -
  obtain items qs rest where a: "map snd items = map (\<lambda>p. (p, did)) qs" "ps = qs @ rest"
    "concat (ts_pending (h sid)) @ concat (map (ipc_encode \<circ> relayed_ipc) items) = sent sid outs @ concat (ts_pending (h1 sid))"
    "live r did sid sv1 h1 \<longrightarrow> live r did sid sv h \<and> rest = []" "\<not> live r did sid sv h \<longrightarrow> items = []"
    using assms(1) unfolding relayed_to_def by blast
  obtain items' qs' rest' where b: "map snd items' = map (\<lambda>p. (p, did)) qs'" "ps' = qs' @ rest'"
    "concat (ts_pending (h1 sid)) @ concat (map (ipc_encode \<circ> relayed_ipc) items') = sent sid outs' @ concat (ts_pending (h2 sid))"
    "live r did sid sv2 h2 \<longrightarrow> live r did sid sv1 h1 \<and> rest' = []" "\<not> live r did sid sv1 h1 \<longrightarrow> items' = []"
    using assms(2) unfolding relayed_to_def by blast
  have i: "fs_inv (service_forward r sv2)" using assms(2) by (simp add: relayed_to_def)
  have c: "concat (ts_pending (h sid)) @ concat (map (ipc_encode \<circ> relayed_ipc) (items @ items'))
      = sent sid (outs @ outs') @ concat (ts_pending (h2 sid))"
    using a(3) b(3) by (simp flip: append_assoc) simp
  show ?thesis
  proof (cases "live r did sid sv1 h1")
    case True
    with a b i c show ?thesis unfolding relayed_to_def
      by (intro conjI exI [of _ "items @ items'"] exI [of _ "qs @ qs'"] exI [of _ rest']) auto
  next
    case False
    with a b i c show ?thesis unfolding relayed_to_def
      by (intro conjI exI [of _ items] exI [of _ qs] exI [of _ "rest @ ps'"]) auto
  qed
qed

lemma Notify1078Packet_cases:
  assumes "Notify1078Packet ans did pkt r sv h = Some (sv', h', outs)"
  obtains fs where "Publisher_Publish ans did pkt (service_forward r sv) h = Some (fs, h', outs)"
    "service_forward r sv' = fs" "service_cars r sv' = service_cars r sv"
  using assms by (cases r) (auto simp: Notify1078Packet_def service_forward_def service_cars_def)

lemma relayed_to_one:
  assumes "fs_inv (service_forward r sv)" "Notify1078Packet ans did pkt r sv h = Some (sv', h', outs)"
  shows "relayed_to r did sid [pkt] sv h sv' h' outs"
proof -
  obtain fs where fs: "Publisher_Publish ans did pkt (service_forward r sv) h = Some (fs, h', outs)"
    "service_forward r sv' = fs"
    using assms(2) by (rule Notify1078Packet_cases)
  note p = publish_one(1) [OF assms(1) fs(1)] publish_one(2-4) [OF assms(1) fs(1), of sid]
  let ?x = "(sub_last_seq (h sid) + 1, pkt, did)"
  show ?thesis
  proof (cases "live r did sid sv h \<and> ts_can_write (h' sid)")
    case True
    with p show ?thesis unfolding relayed_to_def
      by (intro conjI exI [of _ "[?x]"] exI [of _ "[pkt]"] exI [of _ "[]"])
        (simp_all add: live_def fs(2) relay_wire_eq relayed_ipc_def)
  next
    case False
    with p show ?thesis unfolding relayed_to_def
      by (intro conjI exI [of _ "[]"] exI [of _ "[]"] exI [of _ "[pkt]"])
        (auto simp: live_def fs(2) split: if_splits)
  qed
qed

lemma notify_all_relays:
  assumes "notify_all anss (map (Pair did) ps) r sv h = Some (sv', h', outs)" "fs_inv (service_forward r sv)"
  shows "relayed_to r did sid ps sv h sv' h' outs \<and> service_cars r sv' = service_cars r sv"
  using assms
proof (induction ps arbitrary: anss sv h sv' h' outs)
  case Nil
  then show ?case using relayed_to_Nil by simp
next
  case (Cons p ps)
  obtain ans anss' where anss: "anss = ans # anss'" using Cons.prems(1) by (cases anss) auto
  obtain sv1 h1 outs1 where n: "Notify1078Packet ans did p r sv h = Some (sv1, h1, outs1)"
    using Cons.prems(1) by (auto simp: anss bind_eq_Some_conv)
  then obtain outs2 where rest: "notify_all anss' (map (Pair did) ps) r sv1 h1 = Some (sv', h', outs2)" "outs = outs1 @ outs2"
    using Cons.prems(1) by (auto simp: anss)
  note one = relayed_to_one [OF Cons.prems(2) n, where sid = sid]
  have "service_cars r sv1 = service_cars r sv" using n by (rule Notify1078Packet_cases)
  with Cons.IH [OF rest(1)] one relayed_to_append [OF one, of ps sv' h' outs2] show ?case
    by (simp add: rest(2) relayed_to_def)
qed

section \<open>What a vehicle's session hands over\<close>

text \<open>The vehicle's identifier is \<open>did\<close>: the session knows it, or the next packet names it.\<close>

definition names_vehicle :: "device_id_t \<Rightarrow> car_session \<Rightarrow> jt_packet list \<Rightarrow> bool" where
  "names_vehicle did car ps \<longleftrightarrow> did \<noteq> INVALID_DEVICE_ID \<and>
     (if car_device_id car = INVALID_DEVICE_ID
      then (\<forall>p ps'. ps = p # ps' \<longrightarrow>
        GenerateDeviceId_sim (Some (BCDSIMCardNumber (m_header p))) (Bt1LogicChannelNumber (m_header p)) = did)
      else car_device_id car = did \<and> car_str_device_id car \<noteq> [])"

lemma first_packet_names:
  assumes "names_vehicle did car (p # ps)"
  obtains car' where "Car_OnPacketCompleted car p = (car', (did, p))" "names_vehicle did car' ps"
    "car_decoder car' = car_decoder car" "ts_session_id car' = ts_session_id car"
  using assms GenerateDeviceIdStr_nonempty [of "BCDSIMCardNumber (m_header p)" "Bt1LogicChannelNumber (m_header p)"]
  by (auto simp: names_vehicle_def Car_OnPacketCompleted_def UpdateDeviceIdIfEmpty_def GenerateDeviceId_sim_def Let_def
      split: if_splits)

lemma packets_named:
  assumes "names_vehicle did car (ps @ qs)"
  shows "\<exists>car'. car_packets (map CarPacket ps) car = (car', map (Pair did) ps) \<and> names_vehicle did car' qs \<and>
    car_decoder car' = car_decoder car \<and> ts_session_id car' = ts_session_id car"
  using assms
proof (induction ps arbitrary: car)
  case (Cons p ps)
  then have "names_vehicle did car (p # ps @ qs)" by simp
  then obtain car1 where "Car_OnPacketCompleted car p = (car1, (did, p))" "names_vehicle did car1 (ps @ qs)"
    "car_decoder car1 = car_decoder car" "ts_session_id car1 = ts_session_id car"
    by (rule first_packet_names)
  with Cons.IH [of car1] show ?case by auto
qed simp

lemma OnMessage_feed:
  assumes "feed jt_push jt_Decode kNoError jt_GetPacket chunk (car_decoder car) = Some (ps, Inr (kNeedMoreData, d'))"
  shows "\<exists>t. CarSession_OnMessage (Append chunk Buffer_new) car =
    Some (map CarPacket ps, Inr (car\<lparr>car_traffic := t, car_decoder := d'\<rparr>))"
proof -
  obtain e d1 where p: "jt_push chunk (car_decoder car) = (e, d1)" by (cases "jt_push chunk (car_decoder car)")
  then have "e = kNoError \<or> e = kBufferFull" by (auto simp: jt_push_def jt_PushBuffer_def Let_def split: if_splits)
  with assms p have e: "e = kNoError" and d: "drain jt_Decode kNoError jt_GetPacket d1 = Some (ps, Inr (kNeedMoreData, d'))"
    by (simp_all add: feed_def split: if_splits)
  have "jt_PushBuffer (Append chunk Buffer_new) (car_decoder car) = (kNoError, d1)"
    using p e by (simp add: jt_push_def)
  with d show ?thesis by (simp add: CarSession_OnMessage_def CarSession_ParseBuffer_def) blast
qed

definition car_there :: "bool \<Rightarrow> session_id \<Rightarrow> jt1078_service \<Rightarrow> device_id_t \<Rightarrow> jt_packet list \<Rightarrow> jt_decoder \<Rightarrow> bool" where
  "car_there r cid sv did ps d \<longleftrightarrow> (\<exists>car. GetCar cid (js_manager (service_cars r sv)) = Some car \<and>
     ts_session_id car = cid \<and> car_decoder car = d \<and> names_vehicle did car ps)"

lemma service_parts [simp]:
  "service_cars r (set_service_cars r js sv) = js"
  "service_forward r (set_service_cars r' js sv) = service_forward r sv"
  by (simp_all add: service_cars_def set_service_cars_def service_forward_def)

lemma message_notifies:
  assumes "car_there r cid sv did (ps @ qs) d"
    and "feed jt_push jt_Decode kNoError jt_GetPacket (fst m) d = Some (ps, Inr (kNeedMoreData, d'))"
  obtains js where "Service_car_message r cid m sv h =
      map_option Inr (notify_all (snd m) (map (Pair did) ps) r (set_service_cars r js sv) h)"
    "\<And>sv'. service_cars r sv' = js \<Longrightarrow> car_there r cid sv' did qs d'"
proof -
  obtain car where car: "GetCar cid (js_manager (service_cars r sv)) = Some car" "ts_session_id car = cid"
    "car_decoder car = d" "names_vehicle did car (ps @ qs)"
    using assms(1) by (auto simp: car_there_def)
  obtain t where t: "CarSession_OnMessage (Append (fst m) Buffer_new) car =
      Some (map CarPacket ps, Inr (car\<lparr>car_traffic := t, car_decoder := d'\<rparr>))"
    using OnMessage_feed [of "fst m" car] assms(2) car(3) by auto
  have "names_vehicle did (car\<lparr>car_traffic := t, car_decoder := d'\<rparr>) (ps @ qs)"
    using car(4) by (simp add: names_vehicle_def)
  from packets_named [OF this] obtain car' where car':
    "car_packets (map CarPacket ps) (car\<lparr>car_traffic := t, car_decoder := d'\<rparr>) = (car', map (Pair did) ps)"
    "names_vehicle did car' qs" "car_decoder car' = d'" "ts_session_id car' = cid"
    using car(2) by auto
  define js where "js = (service_cars r sv)\<lparr>js_manager := AddCar car' (js_manager (service_cars r sv))\<rparr>"
  have fold: "foldl (\<lambda>js ev. case ev of CarPacket _ \<Rightarrow> js | CarError e \<Rightarrow> Car_OnPacketError cid e js) js (map CarPacket ps) = js"
    for js :: jt1078_server
    by (induction ps) simp_all
  show ?thesis
  proof (rule that [of js])
    show "Service_car_message r cid m sv h =
        map_option Inr (notify_all (snd m) (map (Pair did) ps) r (set_service_cars r js sv) h)"
      by (simp add: Service_car_message_def car(1) t car'(1) fold js_def [symmetric] Let_def)
    show "car_there r cid sv' did qs d'" if "service_cars r sv' = js" for sv'
      using car' that by (simp add: car_there_def js_def GetCar_def AddCar_def)
  qed
qed

lemma message_relays:
  assumes "car_there r cid sv did (ps @ qs) d" "fs_inv (service_forward r sv)"
    and "feed jt_push jt_Decode kNoError jt_GetPacket (fst m) d = Some (ps, Inr (kNeedMoreData, d'))"
    and "Service_car_message r cid m sv h = Some x"
  shows "\<exists>sv' h' outs. x = Inr (sv', h', outs) \<and> relayed_to r did sid ps sv h sv' h' outs \<and> car_there r cid sv' did qs d'"
proof -
  obtain js where js: "Service_car_message r cid m sv h =
      map_option Inr (notify_all (snd m) (map (Pair did) ps) r (set_service_cars r js sv) h)"
    "\<And>sv'. service_cars r sv' = js \<Longrightarrow> car_there r cid sv' did qs d'"
    using message_notifies [OF assms(1,3)] by blast
  have "map_option Inr (notify_all (snd m) (map (Pair did) ps) r (set_service_cars r js sv) h) = Some x"
    using assms(4) js(1) by simp
  then obtain sv' h' outs where n: "notify_all (snd m) (map (Pair did) ps) r (set_service_cars r js sv) h = Some (sv', h', outs)"
    "x = Inr (sv', h', outs)"
    by auto
  have "relayed_to r did sid ps (set_service_cars r js sv) h sv' h' outs" "service_cars r sv' = js"
    using notify_all_relays [OF n(1)] assms(2) by simp_all
  then show ?thesis using n(2) js(2) by (auto simp: relayed_to_def live_def)
qed

lemma feed_all_first:
  assumes "feed_all jt_push jt_Decode kNoError kNeedMoreData jt_GetPacket (c # cs) d = Some (ps, Inr (kNeedMoreData, d'))"
  shows "\<exists>ps1 d1 ps2. feed jt_push jt_Decode kNoError jt_GetPacket c d = Some (ps1, Inr (kNeedMoreData, d1)) \<and>
    feed_all jt_push jt_Decode kNoError kNeedMoreData jt_GetPacket cs d1 = Some (ps2, Inr (kNeedMoreData, d')) \<and> ps = ps1 @ ps2"
proof -
  obtain ps1 out where f: "feed jt_push jt_Decode kNoError jt_GetPacket c d = Some (ps1, out)"
    using assms by (auto simp: bind_eq_Some_conv)
  with assms obtain d1 where "out = Inr (kNeedMoreData, d1)" by (cases out) (auto split: if_splits)
  with f assms show ?thesis by (auto simp: bind_eq_Some_conv)
qed

lemma run_relays:
  assumes "feed_all jt_push jt_Decode kNoError kNeedMoreData jt_GetPacket (map fst ms) d = Some (ps, Inr (kNeedMoreData, d'))"
    and "car_there r cid sv did ps d" "fs_inv (service_forward r sv)" "Service_car_run r cid ms sv h = Some x"
  shows "\<exists>sv' h' outs. x = Inr (sv', h', outs) \<and> relayed_to r did sid ps sv h sv' h' outs"
  using assms
proof (induction ms arbitrary: d ps sv h x)
  case Nil
  then show ?case using relayed_to_Nil by auto
next
  case (Cons m ms)
  obtain ps1 d1 ps2 where f: "feed jt_push jt_Decode kNoError jt_GetPacket (fst m) d = Some (ps1, Inr (kNeedMoreData, d1))"
    "feed_all jt_push jt_Decode kNoError kNeedMoreData jt_GetPacket (map fst ms) d1 = Some (ps2, Inr (kNeedMoreData, d'))"
    "ps = ps1 @ ps2"
    using feed_all_first [OF Cons.prems(1) [unfolded list.map]] by blast
  obtain y where y: "Service_car_message r cid m sv h = Some y" using Cons.prems(4) by (auto simp: bind_eq_Some_conv)
  obtain sv1 h1 outs1 where one: "y = Inr (sv1, h1, outs1)" "relayed_to r did sid ps1 sv h sv1 h1 outs1"
    "car_there r cid sv1 did ps2 d1"
    using message_relays [OF _ Cons.prems(3) f(1) y] Cons.prems(2) f(3) by blast
  then obtain z where z: "Service_car_run r cid ms sv1 h1 = Some z"
    "x = map_sum id (\<lambda>(sv, h, outs'). (sv, h, outs1 @ outs')) z"
    using Cons.prems(4) y by auto
  have "fs_inv (service_forward r sv1)" using one(2) by (simp add: relayed_to_def)
  from Cons.IH [OF f(2) one(3) this z(1)] obtain sv' h' outs2 where "z = Inr (sv', h', outs2)"
    "relayed_to r did sid ps2 sv1 h1 sv' h' outs2"
    by blast
  with relayed_to_append [OF one(2)] z(2) f(3) show ?case by auto
qed

section \<open>From the vehicle to the browser\<close>

text \<open>The bytes of the items a subscriber was relayed, read by new_web_server.\<close>

lemma relayed_read:
  assumes "map snd items = map (\<lambda>p. (p, did)) qs" "ps = qs @ more_ps" "\<And>p. p \<in> set ps \<Longrightarrow> jt_pkt_wf p"
    and "\<forall>h. con h = Connection" "topics_wf (cw_manager (cs_ws cs))" "tm_websocket (cw_manager (cs_ws cs))"
    and "cs_client cs = Some c" "cl_decoder c = ipc_decoder_new" "cl_notify c" "0 < cl_reads c"
    and "concat (map (ipc_encode \<circ> relayed_ipc) items) = concat chunks @ rest" "\<forall>k \<in> set chunks. length k \<le> 1024"
  shows "\<exists>n cs' wouts. cs_run con (map (\<lambda>k. Client (ReadDone k)) chunks) cs = Inr (cs', wouts, []) \<and>
    (\<forall>b. received b wouts = (if topics_holds (cw_manager (cs_ws cs)) did b
       then map (\<lambda>p. header_bytes (m_header p) @ m_body p) (take n ps) else [])) \<and>
    (rest = [] \<longrightarrow> n = length qs)"
proof -
  let ?holds = "topics_holds (cw_manager (cs_ws cs))"
  have in_items: "pkt \<in> set qs \<and> d = did" if "(seq, pkt, d) \<in> set items" for seq pkt d
  proof -
    from that have "(pkt, d) \<in> set (map snd items)" by force
    then show ?thesis unfolding assms(1) by auto
  qed
  have ok: "\<forall>(seq, pkt, d) \<in> set items. relay_ok pkt"
    using in_items assms(2,3) jt_pkt_relay_ok by fastforce
  obtain n cs' wouts where r: "cs_run con (map (\<lambda>k. Client (ReadDone k)) chunks) cs = Inr (cs', wouts, [])"
    "\<forall>b. received b wouts = [header_bytes (m_header pkt) @ m_body pkt. (seq, pkt, d) \<leftarrow> take n items, ?holds d b]"
    "n \<le> length items"
    "n < length items \<longrightarrow> length (concat chunks) < length (concat (map (ipc_encode \<circ> relayed_ipc) (take (Suc n) items)))"
    using car_web_delivers [OF assms(4-10) ok assms(11,12)] by blast
  have l: "length items = length qs" using arg_cong [OF assms(1), of length] by simp
  have *: "[header_bytes (m_header pkt) @ m_body pkt. (seq, pkt, d) \<leftarrow> xs, P d] =
      (if P did then map (\<lambda>p. header_bytes (m_header p) @ m_body p) ys else [])"
    if "map snd xs = map (\<lambda>p. (p, did)) ys" for xs :: "relayed list" and ys P
    using that
  proof (induction xs arbitrary: ys)
    case (Cons x xs)
    obtain y ys' where "ys = y # ys'" "x = (fst x, y, did)" "map snd xs = map (\<lambda>p. (p, did)) ys'"
      using Cons.prems by (cases ys; cases x) auto
    with Cons.IH [of ys'] show ?case by (cases x) simp
  qed simp
  have "map snd (take n items) = map (\<lambda>p. (p, did)) (take n qs)" by (simp add: assms(1) flip: take_map)
  moreover have "take n qs = take n ps" using r(3) l by (simp add: assms(2))
  ultimately have rec: "\<forall>b. received b wouts =
      (if ?holds did b then map (\<lambda>p. header_bytes (m_header p) @ m_body p) (take n ps) else [])"
    using r(2) * by simp
  have "n = length qs" if "rest = []"
  proof (rule ccontr)
    assume "n \<noteq> length qs"
    with r(3,4) l have "length (concat chunks) < length (concat (map (ipc_encode \<circ> relayed_ipc) (take (Suc n) items)))" by simp
    also have "\<dots> \<le> length (concat (map (ipc_encode \<circ> relayed_ipc) (take (Suc n) items @ drop (Suc n) items)))"
      by (simp only: map_append concat_append length_append)
    also have "\<dots> = length (concat chunks)" using assms(11) that by simp
    finally show False by simp
  qed
  with r(1) rec show ?thesis by blast
qed

text \<open>
  C12. From the vehicle to the browser. A new vehicle's well-formed packets, the first of which names its
  identifier, in whatever messages of at most 511020 bytes its stream arrives and if every kernel
  answers, go through decoder, identifier, channel and a live subscriber's connection without any fault
  or error, whatever the kernel takes of each. However new_web_server, connected and with a fresh decoder, then
  reads the bytes that were sent so far, at most 1024 at a time, every browser that watches the vehicle
  (and whose handle has a connection) gets header and body of the first of the vehicle's packets, whole,
  in order and once each, and the others get nothing; all of them when the subscriber is still live,
  nothing is pending and all bytes were read.
\<close>

theorem vehicle_to_browser:
  assumes "\<And>q. q \<in> set (p # ps) \<Longrightarrow> jt_pkt_wf q"
    and "GenerateDeviceId_sim (Some (BCDSIMCardNumber (m_header p))) (Bt1LogicChannelNumber (m_header p)) = did"
      "did \<noteq> INVALID_DEVICE_ID"
    and "GetCar cid (js_manager (service_cars r sv)) = Some (CarSession_new cid now)"
    and "fs_inv (service_forward r sv)" "live r did sid sv h" "ts_pending (h sid) = []"
    and "concat (map fst ms) = concat (map jt_encode (p # ps))" "\<And>m. m \<in> set ms \<Longrightarrow> length (fst m) \<le> 511020"
    and "Service_car_run r cid ms sv h = Some x"
    and "\<forall>h. con h = Connection" "topics_wf (cw_manager (cs_ws cs))" "tm_websocket (cw_manager (cs_ws cs))"
    and "cs_client cs = Some c" "cl_decoder c = ipc_decoder_new" "cl_notify c" "0 < cl_reads c"
  shows "\<exists>sv' h' outs. x = Inr (sv', h', outs) \<and>
    (\<forall>chunks rest. concat chunks @ rest = sent sid outs \<longrightarrow> (\<forall>k \<in> set chunks. length k \<le> 1024) \<longrightarrow>
      (\<exists>n cs' wouts. cs_run con (map (\<lambda>k. Client (ReadDone k)) chunks) cs = Inr (cs', wouts, []) \<and>
        (\<forall>b. received b wouts = (if topics_holds (cw_manager (cs_ws cs)) did b
           then map (\<lambda>q. header_bytes (m_header q) @ m_body q) (take n (p # ps)) else [])) \<and>
        (live r did sid sv' h' \<and> ts_pending (h' sid) = [] \<and> rest = [] \<longrightarrow> n = length (p # ps))))"
proof -
  obtain d' where f: "feed_all jt_push jt_Decode kNoError kNeedMoreData jt_GetPacket (map fst ms) jt_decoder_new =
      Some (p # ps, Inr (kNeedMoreData, d'))"
    using jt_encoded_stream_decoded [OF assms(1) _ assms(8)] assms(9) by force
  have "car_there r cid sv did (p # ps) jt_decoder_new"
    using assms(2-4) by (simp add: car_there_def names_vehicle_def CarSession_new_def tcp_session.defs car_session.defs
        tcp_session_new_def)
  from run_relays [OF f this assms(5,10), of sid] obtain sv' h' outs where x: "x = Inr (sv', h', outs)"
    and rel: "relayed_to r did sid (p # ps) sv h sv' h' outs"
    by blast
  obtain items qs left where i: "map snd items = map (\<lambda>p. (p, did)) qs" "p # ps = qs @ left"
    "concat (map (ipc_encode \<circ> relayed_ipc) items) = sent sid outs @ concat (ts_pending (h' sid))"
    "live r did sid sv' h' \<longrightarrow> left = []"
    using rel assms(7) by (auto simp: relayed_to_def)
  have "\<exists>n cs' wouts. cs_run con (map (\<lambda>k. Client (ReadDone k)) chunks) cs = Inr (cs', wouts, []) \<and>
      (\<forall>b. received b wouts = (if topics_holds (cw_manager (cs_ws cs)) did b
         then map (\<lambda>q. header_bytes (m_header q) @ m_body q) (take n (p # ps)) else [])) \<and>
      (live r did sid sv' h' \<and> ts_pending (h' sid) = [] \<and> rest = [] \<longrightarrow> n = length (p # ps))"
    if b: "concat chunks @ rest = sent sid outs" "\<forall>k \<in> set chunks. length k \<le> 1024" for chunks rest
  proof -
    have e: "concat (map (ipc_encode \<circ> relayed_ipc) items) = concat chunks @ rest @ concat (ts_pending (h' sid))"
      using i(3) b(1) by (simp flip: append_assoc)
    show ?thesis
      using relayed_read [OF i(1,2) assms(1) assms(11-17) e b(2)] i(2,4) by fastforce
  qed
  with x show ?thesis by blast
qed

text \<open>A kernel that takes everything.\<close>

lemma SendMsg_takes_all:
  assumes "ts_pending s = []" "ts_can_write s" "length (relay_wire s (pkt, did)) \<le> n"
  shows "\<exists>ret out s' rs'. Subscriber_SendMsg [SysOk n] pkt did s = Some (ret, out, s', rs') \<and>
    ts_pending s' = [] \<and> ts_can_write s'"
  using assms
  by (simp add: Subscriber_SendMsg_def relay_wire_def InitIovecByPkt_def GetIpcPktSeqId_eq Let_def Subscriber_write_def
      EmptyPendingBuffer_def SendBuffer_def)

definition path_did :: device_id_t where "path_did = 0x01380000100203"

definition path_service :: jt1078_service where
  "path_service = sv_sample\<lparr>
     sv_jt1078_realtime := (sv_jt1078_realtime sv_sample)\<lparr>js_manager := [(9, CarSession_new 9 0)]\<rparr>,
     sv_forward_realtime := fwd_subscribe path_did 8 fs_empty\<rparr>"

definition path_web :: car_server where
  "path_web = \<lparr>cs_ws = CarWebSocketServer_new\<lparr>cw_manager := topics_add path_did 1 (cw_manager CarWebSocketServer_new)\<rparr>,
     cs_client = Some sample_car_client\<rparr>"

lemma path_named:
  "GenerateDeviceId_sim (Some (BCDSIMCardNumber (m_header jt_sample))) (Bt1LogicChannelNumber (m_header jt_sample)) = path_did"
  "path_did \<noteq> INVALID_DEVICE_ID"
proof -
  have "unat (GenerateDeviceId_sim (Some (BCDSIMCardNumber (m_header jt_sample))) (Bt1LogicChannelNumber (m_header jt_sample)))
      = 0x01380000100203"
    by (subst GenerateDeviceId_sim_eq) (simp_all add: jt_sample_def be_nat_def)
  then show "GenerateDeviceId_sim (Some (BCDSIMCardNumber (m_header jt_sample))) (Bt1LogicChannelNumber (m_header jt_sample)) = path_did"
    by (simp add: word_unat_eq_iff path_did_def)
  show "path_did \<noteq> INVALID_DEVICE_ID" by (simp add: path_did_def INVALID_DEVICE_ID_def)
qed

lemma path_service_ok:
  "GetCar 9 (js_manager (service_cars True path_service)) = Some (CarSession_new 9 0)"
  "fs_inv (service_forward True path_service)" "live True path_did 8 path_service heap_one" "ts_pending (heap_one 8) = []"
proof -
  have "fs_inv fs_empty" using fs_empty_ok by (simp add: fs_ok_def)
  from fs_inv_ops(1) [OF this] show "fs_inv (service_forward True path_service)"
    by (simp add: path_service_def service_forward_def)
  show "GetCar 9 (js_manager (service_cars True path_service)) = Some (CarSession_new 9 0)"
    by (simp add: path_service_def service_cars_def GetCar_def)
  show "live True path_did 8 path_service heap_one" "ts_pending (heap_one 8) = []"
    by (simp_all add: path_service_def service_forward_def live_def fs_holds_def
        fwd_subscribe_channels fs_empty_def heap_one_def subscriber_new_def tcp_session_new_def tcp_session.defs subscriber.defs)
qed

lemma path_publish:
  "\<exists>fs h outs. Publisher_Publish (\<lambda>_. [SysOk 2000]) path_did jt_sample (service_forward True path_service) heap_one = Some (fs, h, outs) \<and>
    fs_holds fs path_did 8 \<and> ts_can_write (h 8) \<and> ts_pending (h 8) = [] \<and> length (sent 8 outs) \<le> 1024"
proof -
  let ?w = "relay_wire (heap_one 8) (jt_sample, path_did)"
  have w: "length ?w \<le> 1004"
    using relay_packet_wf(2) [OF jt_pkt_relay_ok [OF jt_sample_wf]]
    by (simp add: relay_wire_eq ipc_encode_def)
  have cw: "ts_can_write (heap_one 8)" using path_service_ok(3) by (simp add: live_def)
  obtain ret out s' rs' where s: "Subscriber_SendMsg [SysOk 2000] jt_sample path_did (heap_one 8) = Some (ret, out, s', rs')"
    "ts_pending s' = []" "ts_can_write s'"
    using SendMsg_takes_all [OF path_service_ok(4) cw, of jt_sample path_did 2000] w by auto
  have ch: "sm_find (fs_channels (service_forward True path_service)) path_did = Some [(8, ())]"
    by (simp add: path_service_def service_forward_def fwd_subscribe_channels fs_empty_def)
  have r: "Publisher_Publish (\<lambda>_. [SysOk 2000]) path_did jt_sample (service_forward True path_service) heap_one =
      Some ((service_forward True path_service)\<lparr>fs_channels := sm_set path_did [(8, ())] (fs_channels (service_forward True path_service))\<rparr>,
        heap_one(8 := s'), [(8, out)])"
    using s cw ch by (simp add: Publisher_Publish_def)
  note one = publish_one(2,3) [OF path_service_ok(2) r, of 8]
  have "length (sent 8 [(8, out)]) \<le> length ?w"
    using arg_cong [OF one(1), of length] path_service_ok(4) by (simp split: if_splits)
  with one(2) s path_service_ok(3) w r show ?thesis by (auto simp: live_def)
qed

theorem vehicle_to_browser_witness:
  "\<exists>sv' h' outs cs' wouts.
    Service_car_run True 9 [(jt_encode jt_sample, [\<lambda>_. [SysOk 2000]])] path_service heap_one = Some (Inr (sv', h', outs)) \<and>
    cs_run (\<lambda>_. Connection) [Client (ReadDone (sent 8 outs))] path_web = Inr (cs', wouts, []) \<and>
    received 1 wouts = [header_bytes (m_header jt_sample) @ m_body jt_sample] \<and> received 2 wouts = []"
proof -
  let ?m = "(jt_encode jt_sample, [\<lambda>_. [SysOk 2000]]) :: byte list \<times> (session_id \<Rightarrow> nat sys list) list"
  let ?topics = "cw_manager (cs_ws path_web)"
  obtain d' where "feed_all jt_push jt_Decode kNoError kNeedMoreData jt_GetPacket [jt_encode jt_sample] jt_decoder_new =
      Some ([jt_sample], Inr (kNeedMoreData, d'))"
    using jt_encoded_stream_decoded [of "[jt_sample]" "[jt_encode jt_sample]"] jt_sample_wf jt_sample_len by auto
  then obtain e where f: "feed jt_push jt_Decode kNoError jt_GetPacket (fst ?m) jt_decoder_new = Some ([jt_sample], Inr (kNeedMoreData, e))"
    using feed_all_first [of "jt_encode jt_sample" "[]"] by auto
  have "car_there True 9 path_service path_did ([jt_sample] @ []) jt_decoder_new"
    using path_named path_service_ok(1)
    by (simp add: car_there_def names_vehicle_def CarSession_new_def tcp_session.defs car_session.defs tcp_session_new_def)
  then obtain js where js: "Service_car_message True 9 ?m path_service heap_one =
      map_option Inr (notify_all (snd ?m) (map (Pair path_did) [jt_sample]) True (set_service_cars True js path_service) heap_one)"
    using message_notifies [OF _ f] by blast
  obtain fs h outs where p: "Publisher_Publish (\<lambda>_. [SysOk 2000]) path_did jt_sample (service_forward True path_service) heap_one = Some (fs, h, outs)"
    "fs_holds fs path_did 8" "ts_can_write (h 8)" "ts_pending (h 8) = []" "length (sent 8 outs) \<le> 1024"
    using path_publish by blast
  define sv' where "sv' = (set_service_cars True js path_service)\<lparr>sv_forward_realtime := fs\<rparr>"
  have run: "Service_car_run True 9 [?m] path_service heap_one = Some (Inr (sv', h, outs))"
    using p(1) by (simp add: js Notify1078Packet_def sv'_def service_forward_def set_service_cars_def)
  have live: "live True path_did 8 sv' h" using p by (simp add: live_def sv'_def service_forward_def)
  have new: "topics_wf (cw_manager CarWebSocketServer_new)" "\<not> topics_holds (cw_manager CarWebSocketServer_new) d h" for d h
    by (simp_all add: CarWebSocketServer_new_def topics_wf_def topics_holds_def)
  have m: "?topics = topics_add path_did 1 (cw_manager CarWebSocketServer_new)" by (simp add: path_web_def)
  have t: "topics_wf ?topics" "topics_holds ?topics d h \<longleftrightarrow> d = path_did \<and> h = 1" for d h
    unfolding m using topics.inv_add new topics.holds_add by auto
  have w: "tm_websocket ?topics" by (simp add: m topics_add_def GetTopic_def CarWebSocketServer_new_def Let_def)
  have cl: "cs_client path_web = Some sample_car_client" "cl_decoder sample_car_client = ipc_decoder_new"
    "cl_notify sample_car_client" "0 < cl_reads sample_car_client"
    by (simp_all add: path_web_def sample_car_client_def)
  have wf: "jt_pkt_wf q" if "q \<in> set [jt_sample]" for q using that jt_sample_wf by simp
  have con: "\<forall>h. (\<lambda>_. Connection) h = Connection" by simp
  have ms: "concat (map fst [?m]) = concat (map jt_encode [jt_sample])" by simp
  have len: "length (fst n) \<le> 511020" if "n \<in> set [?m]" for n using that jt_sample_len by simp
  note path = vehicle_to_browser [OF wf path_named path_service_ok ms len run con t(1) w cl, simplified sum.inject prod.inject]
  from path have "\<exists>cs' wouts. cs_run (\<lambda>_. Connection) [Client (ReadDone (sent 8 outs))] path_web = Inr (cs', wouts, []) \<and>
      (\<forall>b. received b wouts = (if topics_holds ?topics path_did b then [header_bytes (m_header jt_sample) @ m_body jt_sample] else []))"
    using p(4,5) live by (auto dest!: spec [of _ "[sent 8 outs]"] spec [of _ "[] :: byte list"])
  with run t(2) show ?thesis by auto
qed

end
