(* ===== verification/Startup.thy ===== *)
theory Startup
  imports Jt1078_Server Pc_Server Redis_Mq Web_Server Car_Client
begin

text \<open>
  From the command line to the running servers: the event loop, listening sockets, the configuration
  of the log, the options, and the start of the four programs (core/eventloop, core/tcp/Listener.cpp,
  core/log/Log.cpp, core/http_server/HttpServer.cpp, Jt1078Service::Init and the four main.cpp).
  The configuration file is what the vendored INIReader makes of it, a record of its four functions;
  what the kernel, libevent, OpenSSL and spdlog answer are arguments.
\<close>

section \<open>Event loop\<close>

record event_loop =
  el_running :: bool
  el_base :: bool

definition EventLoop_new :: event_loop where
  "EventLoop_new = \<lparr>el_running = False, el_base = False\<rparr>"

text \<open>\<open>cfg\<close> and \<open>made\<close>: libevent makes a configuration, and a base of it.\<close>

definition EventLoop_Init :: "bool \<Rightarrow> bool \<Rightarrow> event_loop \<Rightarrow> bool \<times> event_loop" where
  "EventLoop_Init cfg made l =
     (let l = (if cfg then l\<lparr>el_base := made\<rparr> else l) in (el_base l, l))"

definition EventLoop_Loop :: "event_loop \<Rightarrow> event_loop" where
  "EventLoop_Loop l = (if el_base l then l\<lparr>el_running := True\<rparr> else l)"

definition EventLoop_Stop :: "event_loop \<Rightarrow> event_loop" where
  "EventLoop_Stop l = l\<lparr>el_running := False\<rparr>"

section \<open>Listening sockets\<close>

type_synonym sockaddr_in = "u16 \<times> u32"

definition GetTcpClientSocket :: "int \<Rightarrow> int" where
  "GetTcpClientSocket fd = (if fd < 0 then INVALID_SOCKET else fd)"

definition GetTcpListenSocket :: "int \<Rightarrow> int" where
  "GetTcpListenSocket fd =
     (let fd = GetTcpClientSocket fd in if fd = INVALID_SOCKET then INVALID_SOCKET else fd)"

definition SetSocketIpv4Addr :: "(cstring \<Rightarrow> u32 option) \<Rightarrow> cstring \<Rightarrow> u16 \<Rightarrow> sockaddr_in option" where
  "SetSocketIpv4Addr pton ip port = map_option (Pair port) (pton ip)"

definition GetIpPortFromSockaddr :: "(u32 \<Rightarrow> cstring option) \<Rightarrow> sockaddr_in \<Rightarrow> bool \<times> cstring \<times> u16" where
  "GetIpPortFromSockaddr ntop addr =
     (case ntop (snd addr) of None \<Rightarrow> (False, [], 0) | Some ip \<Rightarrow> (True, ip, fst addr))"

record listener =
  ln_eventloop :: bool
  ln_ip :: cstring
  ln_port :: u16
  ln_socket :: int
  ln_bound :: "sockaddr_in option"
  ln_callback :: bool

definition Listener_new :: "bool \<Rightarrow> listener" where
  "Listener_new eventloop = \<lparr>ln_eventloop = eventloop, ln_ip = [], ln_port = 0, ln_socket = INVALID_SOCKET,
     ln_bound = None, ln_callback = False\<rparr>"

text \<open>The socket number the kernel gives, and whether libevent binds the address.\<close>

type_synonym listen_answer = "int \<times> bool"

text \<open>The result, the listener and the descriptors that were closed.\<close>

definition Listener_Listen ::
  "(cstring \<Rightarrow> u32 option) \<Rightarrow> listen_answer \<Rightarrow> cstring \<Rightarrow> u16 \<Rightarrow> listener \<Rightarrow> bool \<times> listener \<times> int list" where
  "Listener_Listen pton ans ip port l =
     (let l = l\<lparr>ln_ip := ip, ln_port := port, ln_socket := GetTcpListenSocket (fst ans)\<rparr> in
      if ln_socket l = INVALID_SOCKET then (False, l, [])
      else (case SetSocketIpv4Addr pton (ln_ip l) (ln_port l) of
              None \<Rightarrow> (False, l, [])
            | Some addr \<Rightarrow>
                if \<not> snd ans then (False, l\<lparr>ln_socket := INVALID_SOCKET\<rparr>, [ln_socket l])
                else (True, l\<lparr>ln_bound := Some addr\<rparr>, [])))"

definition Listener_Clear :: "listener \<Rightarrow> listener" where
  "Listener_Clear l = l\<lparr>ln_eventloop := False, ln_ip := [], ln_port := of_int INVALID_SOCKET,
     ln_bound := None, ln_callback := False\<rparr>"

text \<open>The connections handed to the server.\<close>

definition Listener_NewConnection :: "listener \<Rightarrow> int \<Rightarrow> sockaddr_in \<Rightarrow> (int \<times> sockaddr_in) list" where
  "Listener_NewConnection l fd addr = (if ln_callback l then [(fd, addr)] else [])"

text \<open>
  The socket that \<open>Listen\<close> makes is not the one that listens: libevent makes its own. It is closed only
  when binding fails, never after a bad address nor when the listener goes away.
\<close>

lemma listen_socket_leaks:
  assumes "Listener_Listen pton (fd, ans) ip port l = (ok, l', closed)" "0 \<le> fd" "ok \<or> pton ip = None"
  shows "closed = [] \<and> ln_socket (Listener_Clear l') = fd"
  using assms
  by (auto simp: Listener_Listen_def Listener_Clear_def GetTcpListenSocket_def GetTcpClientSocket_def
      SetSocketIpv4Addr_def INVALID_SOCKET_def Let_def split: option.splits if_splits)

section \<open>Configuration and log\<close>

record ini_reader =
  ini_ParseError :: int
  ini_Get :: "cstring \<Rightarrow> cstring \<Rightarrow> cstring \<Rightarrow> cstring"
  ini_GetInteger :: "cstring \<Rightarrow> cstring \<Rightarrow> int \<Rightarrow> int"
  ini_GetBoolean :: "cstring \<Rightarrow> cstring \<Rightarrow> bool \<Rightarrow> bool"

datatype log_sink = ConsoleSink | BasicSink cstring | RotatingSink cstring int int

datatype log_level = LvTrace | LvDebug | LvInfo | LvWarn | LvCritical

record logger =
  lg_sink :: log_sink
  lg_level :: log_level
  lg_flush_on :: "log_level option"

text \<open>\<open>mk\<close> in \<open>LogConfigBeforeAll\<close>: spdlog makes the logger, answers with null, or throws.\<close>

definition log_sink_of :: "ini_reader \<Rightarrow> log_sink option" where
  "log_sink_of ini =
     (let file = ini_Get ini (ascii ''log'') (ascii ''log_file'') (ascii ''card.log'');
          path = ini_Get ini (ascii ''log'') (ascii ''dir'') (ascii ''./logs'') @ ascii ''/'' @ file;
          mode = ini_Get ini (ascii ''log'') (ascii ''mode'') (ascii ''console'') in
      if mode = ascii ''console'' then Some ConsoleSink
      else if mode = ascii ''basic'' then (if file = [] then None else Some (BasicSink path))
      else if mode = ascii ''rotating'' then
        (if file = [] then None
         else Some (RotatingSink path
           (sint (of_int (ini_GetInteger ini (ascii ''log'') (ascii ''max_file_size'') (1024 * 1024)) :: 32 word))
           (sint (of_int (ini_GetInteger ini (ascii ''log'') (ascii ''max_files'') 10) :: 32 word))))
      else None)"

definition log_level_of :: "cstring \<Rightarrow> (log_level \<times> log_level option) option" where
  "log_level_of strLevel =
     (if strLevel = ascii ''trace'' then Some (LvTrace, Some LvTrace)
      else if strLevel = ascii ''debug'' then Some (LvDebug, Some LvDebug)
      else if strLevel = ascii ''info'' then Some (LvInfo, None)
      else if strLevel = ascii ''warn'' then Some (LvWarn, None)
      else if strLevel = ascii ''critical'' then Some (LvCritical, None)
      else None)"

definition LogConfigBeforeAll :: "(log_sink \<Rightarrow> fault + bool) \<Rightarrow> ini_reader \<Rightarrow> fault + logger option" where
  "LogConfigBeforeAll mk ini =
     (if ini_Get ini (ascii ''log'') (ascii ''dir'') (ascii ''./logs'') = [] then Inr None
      else (case log_sink_of ini of
              None \<Rightarrow> Inr None
            | Some sink \<Rightarrow>
                rbind (mk sink) (\<lambda>made.
                  if \<not> made then Inr None
                  else (case log_level_of (ini_Get ini (ascii ''log'') (ascii ''level'') (ascii ''info'')) of
                          None \<Rightarrow> Inr None
                        | Some (lv, fl) \<Rightarrow> Inr (Some \<lparr>lg_sink = sink, lg_level = lv, lg_flush_on = fl\<rparr>)))))"

text \<open>The level \<open>error\<close>, which spdlog has, is not accepted.\<close>

lemma log_level_error_rejected: "log_level_of (ascii ''error'') = None"
  by (simp add: log_level_of_def ascii_def)

datatype pid_action = MakeDir cstring | WritePid cstring cstring

text \<open>\<open>exists\<close>: the directory is there; \<open>made\<close>: it can be made; \<open>opens\<close>: the file can be opened.\<close>

definition SaveProgPid :: "bool \<Rightarrow> bool \<Rightarrow> cstring \<Rightarrow> ini_reader \<Rightarrow> pid_action list" where
  "SaveProgPid exists opens pid ini =
     (let strDir = ini_Get ini (ascii ''log'') (ascii ''dir'') (ascii ''./logs'');
          strPidFileName = ini_Get ini (ascii ''log'') (ascii ''pid_file'') (ascii ''card.pid'') in
      (if exists then [] else [MakeDir strDir]) @
      (if strPidFileName = [] \<or> \<not> opens then []
       else [WritePid (strDir @ ascii ''/'' @ strPidFileName) pid]))"

section \<open>Options\<close>

text \<open>The loop over \<open>getopt\<close>'s answers: the name of the configuration file and whether to exit.\<close>

definition optstring :: cstring where "optstring = ascii ''f:v''"

fun read_options :: "byte list \<Rightarrow> cstring \<times> bool \<Rightarrow> cstring \<times> bool" where
  "read_options [] s = s"
| "read_options (opt # opts) (strConfigFile, bExit) =
     read_options opts (if opt = of_char (CHR ''f'') then (optstring, bExit)
       else if opt = of_char (CHR ''v'') then (strConfigFile, True)
       else (strConfigFile, True))"

text \<open>What happens before the servers are made: the process environment and its answer.\<close>

record process_env =
  pe_inis :: "cstring \<Rightarrow> ini_reader"
  pe_mk_log :: "log_sink \<Rightarrow> fault + bool"
  pe_daemon :: bool
  pe_dir_exists :: bool
  pe_pid_opens :: bool
  pe_pid :: cstring

text \<open>\<open>None\<close>: false is returned, or the process exits with 0 at once.\<close>

definition DoBeforeMainLoop :: "process_env \<Rightarrow> cstring \<Rightarrow> fault + (ini_reader \<times> pid_action list) option" where
  "DoBeforeMainLoop pe strConfigFile =
     (let ini = pe_inis pe strConfigFile; nErrorLineNumber = ini_ParseError ini in
      if nErrorLineNumber = -1 then Inr None
      else if nErrorLineNumber > 0 then Inr None
      else rbind (LogConfigBeforeAll (pe_mk_log pe) ini) (\<lambda>lg.
        if lg = None then Inr None
        else if ini_GetBoolean ini (ascii ''core'') (ascii ''daemon'') False \<and> \<not> pe_daemon pe then Inr None
        else Inr (Some (ini, SaveProgPid (pe_dir_exists pe) (pe_pid_opens pe) (pe_pid pe) ini))))"

datatype 'a main_result = Exited int | Running 'a

definition main_prologue ::
  "cstring \<Rightarrow> byte list \<Rightarrow> process_env \<Rightarrow> (ini_reader \<Rightarrow> fault + 'a main_result) \<Rightarrow> fault + 'a main_result" where
  "main_prologue strDefault opts pe k =
     (case read_options opts (strDefault, False) of (strConfigFile, bExit) \<Rightarrow>
        if bExit then Inr (Exited 0)
        else rbind (DoBeforeMainLoop pe strConfigFile) (\<lambda>r. case r of
               None \<Rightarrow> Inr (Exited 0)
             | Some (ini, _) \<Rightarrow> k ini))"

section \<open>jt1078_server\<close>

definition Jt1078Server_new :: jt1078_server where
  "Jt1078Server_new = \<lparr>js_server_domain = [], js_listen_ip = [], js_listen_port = INVALID_PORT, js_manager = []\<rparr>"

definition SetServerDomain :: "cstring \<Rightarrow> jt1078_server \<Rightarrow> jt1078_server" where
  "SetServerDomain domain js = js\<lparr>js_server_domain := domain\<rparr>"

definition server_listener :: listener where
  "server_listener = (Listener_new True)\<lparr>ln_callback := True\<rparr>"

definition Jt1078Server_Listen ::
  "(cstring \<Rightarrow> u32 option) \<Rightarrow> listen_answer \<Rightarrow> cstring \<Rightarrow> u16 \<Rightarrow> jt1078_server \<times> listener \<Rightarrow>
    bool \<times> (jt1078_server \<times> listener)" where
  "Jt1078Server_Listen pton ans ip port x =
     (case Listener_Listen pton ans ip port (snd x) of (ok, l, _) \<Rightarrow>
        (ok, ((fst x)\<lparr>js_listen_ip := ip, js_listen_port := port\<rparr>, l)))"

definition ForwardServer_new :: "bool \<Rightarrow> forward_server" where
  "ForwardServer_new is_realtime = \<lparr>fs_subscribers = [], fs_channels = [], fs_is_realtime = is_realtime\<rparr>"

definition ForwardServer_Listen ::
  "(cstring \<Rightarrow> u32 option) \<Rightarrow> listen_answer \<Rightarrow> cstring \<Rightarrow> u16 \<Rightarrow> forward_server \<times> listener \<Rightarrow>
    bool \<times> (forward_server \<times> listener)" where
  "ForwardServer_Listen pton ans ip port x =
     (case Listener_Listen pton ans ip port (snd x) of (ok, l, _) \<Rightarrow> (ok, (fst x, l)))"

record service_env =
  se_loop_cfg :: bool
  se_loop_base :: bool
  se_pton :: "cstring \<Rightarrow> u32 option"
  se_car_realtime :: listen_answer
  se_car_history :: listen_answer
  se_forward_realtime :: listen_answer
  se_forward_history :: listen_answer
  se_redis :: connect_answer
  se_timer :: bool

text \<open>The members of the service, null until they are made.\<close>

record service_parts =
  sp_list :: cstring
  sp_car_realtime :: "(jt1078_server \<times> listener) option"
  sp_car_history :: "(jt1078_server \<times> listener) option"
  sp_forward_realtime :: "(forward_server \<times> listener) option"
  sp_forward_history :: "(forward_server \<times> listener) option"
  sp_redis :: "redis_mq option"

definition Jt1078Service_new :: service_parts where
  "Jt1078Service_new = \<lparr>sp_list = [], sp_car_realtime = None, sp_car_history = None,
     sp_forward_realtime = None, sp_forward_history = None, sp_redis = None\<rparr>"

text \<open>A port read from the configuration.\<close>

definition ini_port :: "ini_reader \<Rightarrow> cstring \<Rightarrow> cstring \<Rightarrow> u16" where
  "ini_port ini sec key = of_int (ini_GetInteger ini sec key (uint INVALID_PORT))"

definition RedisMqServer_Init :: "service_env \<Rightarrow> ini_reader \<Rightarrow> fault + (bool \<times> redis_mq)" where
  "RedisMqServer_Init se ini =
     RedisMq_Init (ini_Get ini (ascii ''redis'') (ascii ''passport'') [])
       (nat (uint (of_int (ini_GetInteger ini (ascii ''redis'') (ascii ''index'') 0) :: u64)))
       (se_redis se) (se_timer se)"

definition Jt1078Service_Init :: "service_env \<Rightarrow> ini_reader \<Rightarrow> fault + (bool \<times> service_parts)" where
  "Jt1078Service_Init se ini =
     (let sp = Jt1078Service_new in
      if \<not> fst (EventLoop_Init (se_loop_cfg se) (se_loop_base se) EventLoop_new) then Inr (False, sp)
      else (let sp = sp\<lparr>sp_list := ini_Get ini (ascii ''redis'') (ascii ''808_command_list'') []\<rparr> in
      if sp_list sp = [] then Inr (False, sp)
      else (let domain = ini_Get ini (ascii ''jt1078'') (ascii ''domain'') [];
                ip = ini_Get ini (ascii ''jt1078'') (ascii ''ip'') [] in
      case Jt1078Server_Listen (se_pton se) (se_car_realtime se) ip (ini_port ini (ascii ''jt1078'') (ascii ''realtime_port''))
             (SetServerDomain domain Jt1078Server_new, server_listener) of (ok, js) \<Rightarrow>
      (let sp = sp\<lparr>sp_car_realtime := Some js\<rparr> in
      if \<not> ok then Inr (False, sp)
      else (case Jt1078Server_Listen (se_pton se) (se_car_history se) ip (ini_port ini (ascii ''jt1078'') (ascii ''history_port''))
             (SetServerDomain domain Jt1078Server_new, server_listener) of (ok, js) \<Rightarrow>
      (let sp = sp\<lparr>sp_car_history := Some js\<rparr> in
      if \<not> ok then Inr (False, sp)
      else (let fip = ini_Get ini (ascii ''forward'') (ascii ''ip'') [] in
      case ForwardServer_Listen (se_pton se) (se_forward_realtime se) fip (ini_port ini (ascii ''forward'') (ascii ''realtime_port''))
             (ForwardServer_new True, server_listener) of (ok, fs) \<Rightarrow>
      (let sp = sp\<lparr>sp_forward_realtime := Some fs\<rparr> in
      if \<not> ok then Inr (False, sp)
      else (case ForwardServer_Listen (se_pton se) (se_forward_history se) fip (ini_port ini (ascii ''forward'') (ascii ''history_port''))
             (ForwardServer_new False, server_listener) of (ok, fs) \<Rightarrow>
      (let sp = sp\<lparr>sp_forward_history := Some fs\<rparr> in
      if \<not> ok then Inr (False, sp)
      else rbind (RedisMqServer_Init se ini) (\<lambda>(ok, mq). Inr (ok, sp\<lparr>sp_redis := Some mq\<rparr>))))))))))))"


definition Jt1078Service_Start :: "event_loop \<Rightarrow> bool \<times> event_loop" where
  "Jt1078Service_Start l = (True, EventLoop_Loop l)"

definition jt1078_main :: "byte list \<Rightarrow> process_env \<Rightarrow> service_env \<Rightarrow> fault + service_parts main_result" where
  "jt1078_main opts pe se =
     main_prologue (ascii ''./conf/jt1078.ini'') opts pe (\<lambda>ini.
       rbind (Jt1078Service_Init se ini) (\<lambda>(ok, sp). Inr (if ok then Running sp else Exited 1)))"

section \<open>The other programs\<close>

record net_env =
  ne_loop_cfg :: bool
  ne_loop_base :: bool
  ne_pton :: "cstring \<Rightarrow> u32 option"
  ne_listen :: listen_answer
  ne_connect :: connect_env

text \<open>Where the configuration says jt1078_server is.\<close>

definition connect_to :: "ini_reader \<Rightarrow> cstring \<Rightarrow> cstring \<Rightarrow> cstring \<Rightarrow> connect_env \<Rightarrow> connect_env" where
  "connect_to ini sec ip port ce = ce\<lparr>ce_ip := ini_Get ini sec ip [], ce_port := ini_port ini sec port\<rparr>"

definition pc_main :: "byte list \<Rightarrow> process_env \<Rightarrow> net_env \<Rightarrow> fault + (pc_server \<times> listener) main_result" where
  "pc_main opts pe ne =
     main_prologue (ascii ''./conf/pc.ini'') opts pe (\<lambda>ini.
       (let ip = ini_Get ini (ascii ''pc'') (ascii ''ip'') [];
            port = ini_port ini (ascii ''pc'') (ascii ''port'');
            (listens, l, _) = Listener_Listen (ne_pton ne) (ne_listen ne) ip port server_listener in
        rbind (PcServer_Init (fst (EventLoop_Init (ne_loop_cfg ne) (ne_loop_base ne) EventLoop_new)) ip port listens
            (connect_to ini (ascii ''jt1078'') (ascii ''forward_ip'') (ascii ''forward_port'') (ne_connect ne)) PcServer_new)
          (\<lambda>(ok, st, _, _). Inr (if ok then Running (st, l) else Exited 2))))"

text \<open>\<open>HttpServer::Init\<close>: libevent makes the server, then the handlers are made, then the address is bound.\<close>

definition HttpServer_Init ::
  "bool \<Rightarrow> bool \<Rightarrow> connect_env \<Rightarrow> web_server \<Rightarrow> bool \<times> web_server \<times> int list" where
  "HttpServer_Init made bound ce st =
     (if \<not> made then (False, st, [])
      else (case InitHttpHandlers ce st of (ok, st, closed) \<Rightarrow>
              if \<not> ok then (False, st, closed) else (bound, st, closed)))"

record ssl_answer =
  ssl_curve :: bool
  ssl_tmp_ecdh :: int
  ssl_chain :: int
  ssl_key :: int
  ssl_check :: int

text \<open>\<open>http\<close>: \<open>m_http\<close> is not null; the result tells whether TLS is on.\<close>

definition SupportSSL :: "bool \<Rightarrow> ssl_answer \<Rightarrow> cstring \<Rightarrow> cstring \<Rightarrow> fault + bool" where
  "SupportSSL http ans strCertificateChain strPrivateKey =
     (if strCertificateChain = [] \<or> strPrivateKey = [] then Inr False
      else if \<not> ssl_curve ans then Inr False
      else if ssl_tmp_ecdh ans \<noteq> 1 then Inr False
      else if ssl_chain ans \<noteq> 1 then Inr False
      else if ssl_key ans \<noteq> 1 then Inr False
      else if ssl_check ans \<noteq> 1 then Inr False
      else if \<not> http then Inl NullDeref
      else Inr True)"

text \<open>The answers to one of the two web servers.\<close>

record http_env =
  he_made :: bool
  he_bound :: "cstring \<Rightarrow> u16 \<Rightarrow> bool"
  he_connect :: connect_env

definition web_port :: "ini_reader \<Rightarrow> cstring \<Rightarrow> u16" where
  "web_port ini key = of_int (ini_GetInteger ini (ascii ''web'') key (-1))"

definition web_server_init :: "bool \<Rightarrow> ini_reader \<Rightarrow> http_env \<Rightarrow> bool \<times> web_server" where
  "web_server_init realtime ini he =
     (let ip = ini_Get ini (ascii ''web'') (ascii ''ip'') [];
          port = web_port ini (if realtime then ascii ''realtime_port'' else ascii ''history_port'');
          ce = (if realtime
            then connect_to ini (ascii ''jt1078_forward'') (ascii ''realtime_forward_ip'') (ascii ''realtime_forward_port'') (he_connect he)
            else connect_to ini (ascii ''jt1078_forward'') (ascii ''history_forward_ip'') (ascii ''history_forward_port'') (he_connect he));
          (ok, st, _) = HttpServer_Init (he_made he) (he_bound he ip port) ce (WebServer_new realtime) in (ok, st))"

definition web_main ::
  "byte list \<Rightarrow> process_env \<Rightarrow> bool \<Rightarrow> bool \<Rightarrow> http_env \<Rightarrow> http_env \<Rightarrow> fault + (web_server \<times> web_server) main_result" where
  "web_main opts pe cfg made he1 he2 =
     main_prologue (ascii ''./conf/web.ini'') opts pe (\<lambda>ini.
       if \<not> fst (EventLoop_Init cfg made EventLoop_new) then Inr (Exited 0)
       else (case web_server_init True ini he1 of (ok, realtime) \<Rightarrow>
         if \<not> ok then Inr (Exited 0)
         else (case web_server_init False ini he2 of (ok, history) \<Rightarrow>
           Inr (if \<not> ok then Exited 0 else Running (realtime, history)))))"

text \<open>
  \<open>parses\<close>: asio reads the text as an address, otherwise it throws; \<open>junk\<close> and \<open>resolved\<close> as in
  \<open>CarWebServer_ConnectServer\<close>. Both ports are cut to 16 bits on the way.
\<close>

definition new_web_main ::
  "byte list \<Rightarrow> process_env \<Rightarrow> (cstring \<Rightarrow> bool) \<Rightarrow> u32 \<Rightarrow> (cstring \<Rightarrow> u16 \<Rightarrow> bool) \<Rightarrow> fault + (car_server \<times> u16) main_result" where
  "new_web_main opts pe parses junk resolved =
     main_prologue (ascii ''./conf/new_web_server.ini'') opts pe (\<lambda>ini.
       (let strWebSocketListenIp = ini_Get ini (ascii ''websocket'') (ascii ''ip'') [];
            nWebSocketListenPort = sint (of_int (ini_GetInteger ini (ascii ''websocket'') (ascii ''port'') 0) :: 32 word);
            strJt1078Ip = ini_Get ini (ascii ''jt1078'') (ascii ''forward_ip'') [];
            nJt1078Port = sint (of_int (ini_GetInteger ini (ascii ''jt1078'') (ascii ''forward_port'') 0) :: 32 word) in
        if strWebSocketListenIp = [] \<or> nWebSocketListenPort = 0 then Inr (Exited 0)
        else if strJt1078Ip = [] \<or> nJt1078Port = 0 then Inr (Exited 0)
        else if \<not> parses strWebSocketListenIp then Inl Exception
        else rbind (CarWebServer_ConnectServer junk (resolved strJt1078Ip (of_int nJt1078Port))
                      (CarWebServer_Listen \<lparr>cs_ws = CarWebSocketServer_new, cs_client = None\<rparr>))
               (\<lambda>cs. Inr (Running (cs, of_int nWebSocketListenPort)))))"

section \<open>Properties\<close>

lemma read_options_file:
  "fst (read_options opts (nm, bExit)) = (if of_char (CHR ''f'') \<in> set opts then optstring else nm)"
  by (induction opts arbitrary: nm bExit) auto

lemma prologue_needs_file:
  assumes "of_char (CHR ''f'') \<in> set opts" "ini_ParseError (pe_inis pe optstring) = -1"
  shows "main_prologue nm opts pe k = Inr (Exited 0)"
  using read_options_file [of opts nm False] assms
  by (auto simp: main_prologue_def DoBeforeMainLoop_def Let_def res_simps split: prod.splits)

text \<open>
  C35. The option -f. Each of the four programs given a configuration file with -f looks for a file
  named f:v instead, whatever was given; when there is none it exits at once, with 0, before anything is started.
\<close>

theorem config_option_starts_nothing:
  assumes "of_char (CHR ''f'') \<in> set opts" "ini_ParseError (pe_inis pe optstring) = -1"
  shows "jt1078_main opts pe se = Inr (Exited 0) \<and> pc_main opts pe ne = Inr (Exited 0) \<and>
    web_main opts pe cfg made he1 he2 = Inr (Exited 0) \<and> new_web_main opts pe parses junk resolved = Inr (Exited 0)"
  by (simp add: prologue_needs_file [OF assms] jt1078_main_def pc_main_def web_main_def new_web_main_def)

definition no_ini :: ini_reader where
  "no_ini = \<lparr>ini_ParseError = -1, ini_Get = (\<lambda>_ _ d. d), ini_GetInteger = (\<lambda>_ _ d. d), ini_GetBoolean = (\<lambda>_ _ d. d)\<rparr>"

definition sample_ini :: ini_reader where
  "sample_ini = \<lparr>ini_ParseError = 0,
     ini_Get = (\<lambda>sec key d. if key = ascii ''808_command_list'' then ascii ''l''
       else if key = ascii ''ip'' then sec else d),
     ini_GetInteger = (\<lambda>sec key d. if key = ascii ''realtime_port'' then 1078 else d), ini_GetBoolean = (\<lambda>_ _ d. d)\<rparr>"

definition sample_process :: process_env where
  "sample_process = \<lparr>pe_inis = (\<lambda>f. if f = optstring then no_ini else sample_ini), pe_mk_log = (\<lambda>_. Inr True), pe_daemon = True,
     pe_dir_exists = True, pe_pid_opens = True, pe_pid = ascii ''77''\<rparr>"

theorem config_option_starts_nothing_witness:
  "\<forall>se ne cfg made he1 he2 parses junk resolved.
    jt1078_main [102] sample_process se = Inr (Exited 0) \<and> pc_main [102] sample_process ne = Inr (Exited 0) \<and>
    web_main [102] sample_process cfg made he1 he2 = Inr (Exited 0) \<and>
    new_web_main [102] sample_process parses junk resolved = Inr (Exited 0)"
proof -
  have "of_char (CHR ''f'') \<in> set [102 :: byte]" "ini_ParseError (pe_inis sample_process optstring) = -1"
    by (simp_all add: sample_process_def no_ini_def)
  from config_option_starts_nothing [OF this] show ?thesis by blast
qed











end
