(* ===== verification/Codec_Lifetime.thy ===== *)
theory Codec_Lifetime
  imports Audio_Codec
begin

text \<open>
  The life of a G.726 context and of the codec that owns it (web_server/audio/g726.cpp, CCodec.cpp):
  making a context step by step with its early returns, using it, and freeing it. The memory that
  malloc returns is not initialised, so that a member is junk until it is assigned; reading a
  junk pointer is a fault. libav's answers are arguments, a decoder's may depend on all it was asked
  before; malloc is taken to succeed.
\<close>

section \<open>Contexts\<close>

datatype c_pointer = JunkPtr | NullPtr | ObjPtr

record g726_ctx =
  gx_codec :: c_pointer
  gx_c :: c_pointer
  gx_frame :: c_pointer
  gx_rate :: nat
  gx_history :: av_history

definition malloc_ctx :: g726_ctx where
  "malloc_ctx = \<lparr>gx_codec = JunkPtr, gx_c = JunkPtr, gx_frame = JunkPtr, gx_rate = 0, gx_history = []\<rparr>"

record av_answer =
  av_found :: bool
  av_context :: bool
  av_open :: int
  av_frame :: bool

definition ptr_of :: "bool \<Rightarrow> c_pointer" where
  "ptr_of ok = (if ok then ObjPtr else NullPtr)"

definition decodec_init :: "av_answer \<Rightarrow> nat \<Rightarrow> fault + (int \<times> g726_ctx)" where
  "decodec_init a bit_rate =
     (let ctx = malloc_ctx\<lparr>gx_codec := ptr_of (av_found a)\<rparr> in
      if \<not> av_found a then Inr (1, ctx)
      else if \<not> av_context a then Inl NullDeref
      else (let ctx = ctx\<lparr>gx_c := ObjPtr, gx_rate := bit_rate\<rparr> in
            if av_open a < 0 then Inr (2, ctx)
            else Inr (0, ctx\<lparr>gx_frame := ptr_of (av_frame a)\<rparr>)))"

definition codec_init :: "av_answer \<Rightarrow> nat \<Rightarrow> fault + (int \<times> g726_ctx)" where
  "codec_init a bit_rate =
     (let ctx = malloc_ctx\<lparr>gx_codec := ptr_of (av_found a)\<rparr> in
      if \<not> av_found a then Inr (-1, ctx)
      else if \<not> av_context a then Inl NullDeref
      else (let ctx = ctx\<lparr>gx_c := ObjPtr, gx_rate := bit_rate\<rparr> in
            if av_open a < 0 then Inr (-2, ctx)
            else (let ctx = ctx\<lparr>gx_frame := ptr_of (av_frame a)\<rparr> in
                  if \<not> av_frame a then Inr (-3, ctx) else Inr (0, ctx))))"

datatype freed_block = FreedFrame | FreedContext | FreedCtx | FreedOutBuf | FreedEncodeBuf | FreedAdpcmState

text \<open>A pointer that is tested and freed when it is not null.\<close>

definition free_if_set :: "c_pointer \<Rightarrow> freed_block \<Rightarrow> fault + freed_block list" where
  "free_if_set p b = (case p of JunkPtr \<Rightarrow> Inl Uninitialised | NullPtr \<Rightarrow> Inr [] | ObjPtr \<Rightarrow> Inr [b])"

definition decodec_destroy :: "g726_ctx option \<Rightarrow> fault + freed_block list" where
  "decodec_destroy ctx =
     (case ctx of
        None \<Rightarrow> Inr []
      | Some x \<Rightarrow>
          rbind (free_if_set (gx_frame x) FreedFrame) (\<lambda>fs.
            rbind (free_if_set (gx_c x) FreedContext) (\<lambda>cs. Inr (fs @ cs @ [FreedCtx]))))"

definition codec_destroy :: "g726_ctx option \<Rightarrow> fault + freed_block list" where
  "codec_destroy ctx = decodec_destroy ctx"

text \<open>
  \<open>decode\<close>: \<open>alloc\<close> tells whether a missing frame can be made. A packet that was rejected, or for
  which no frame could be made, is followed by no \<open>avcodec_receive_frame\<close>.
\<close>

definition decode_with ::
  "bool \<Rightarrow> av_decoder \<Rightarrow> byte list \<Rightarrow> nat \<Rightarrow> g726_ctx \<Rightarrow> fault + (g726_ctx \<times> int \<times> byte list)" where
  "decode_with alloc av packet out_len ctx =
     (if gx_c ctx = JunkPtr then Inl Uninitialised
      else if gx_c ctx = NullPtr then Inl NullDeref
      else
        (let answer = av (gx_rate ctx) (gx_history ctx) packet;
             asked = (\<lambda>b. ctx\<lparr>gx_history := gx_history ctx @ [(packet, b)]\<rparr>) in
         if fst answer < 0 then Inr (asked False, fst answer, [])
         else (case gx_frame ctx of
                 JunkPtr \<Rightarrow> Inl Uninitialised
               | NullPtr \<Rightarrow>
                   if \<not> alloc then Inr (asked False, 0, [])
                   else Inr ((asked True)\<lparr>gx_frame := ObjPtr\<rparr>, g726_decode answer out_len)
               | ObjPtr \<Rightarrow> Inr (asked True, g726_decode answer out_len))))"

section \<open>The codec's decoder\<close>

text \<open>\<open>__DecodeG7262Pcm\<close> with the context it makes on the first frame; \<open>decodec_init\<close>'s result is not looked at.\<close>

definition DecodeG7262Pcm_ctx ::
  "av_answer \<Rightarrow> bool \<Rightarrow> av_decoder \<Rightarrow> byte list \<Rightarrow> nat \<Rightarrow> ccodec \<times> g726_ctx option \<Rightarrow>
    fault + ((ccodec \<times> g726_ctx option) \<times> byte list)" where
  "DecodeG7262Pcm_ctx a alloc av cInBuf nInBufLen s =
     (case strip_header cInBuf nInBufLen (fst s) of (cInBuf, n, c) \<Rightarrow>
        rbind (case snd s of
                 None \<Rightarrow> rbind (decodec_init a (g726_rate n)) (\<lambda>(_, ctx). Inr (c\<lparr>cc_g726_bit_rate := g726_rate n\<rparr>, ctx))
               | Some ctx \<Rightarrow> Inr (c, ctx)) (\<lambda>(c, ctx).
          rbind (decode_with alloc av (take (nat n) cInBuf) 2048 ctx) (\<lambda>(ctx, ret, pcm).
            Inr ((c\<lparr>cc_result_len := ret, cc_result_type := eG726\<rparr>, Some ctx), pcm))))"

text \<open>The destructor: what it frees. The coder's context is not among it.\<close>

definition CCodec_destroy :: "ccodec \<times> g726_ctx option \<Rightarrow> fault + freed_block list" where
  "CCodec_destroy s =
     rbind (decodec_destroy (snd s)) (\<lambda>ctx.
       Inr ((if cc_result_len (fst s) \<noteq> 0 then [FreedOutBuf] else []) @
            (if cc_encode_len (fst s) \<noteq> 0 then [FreedEncodeBuf] else []) @ ctx @ [FreedAdpcmState]))"

text \<open>Frames one after the other, each with its memory and length.\<close>

fun decode_frames ::
  "av_answer \<Rightarrow> bool \<Rightarrow> av_decoder \<Rightarrow> (byte list \<times> nat) list \<Rightarrow> ccodec \<times> g726_ctx option \<Rightarrow>
    fault + ((ccodec \<times> g726_ctx option) \<times> byte list list)" where
  "decode_frames a alloc av [] s = Inr (s, [])"
| "decode_frames a alloc av ((m, n) # fs) s =
     rbind (DecodeG7262Pcm_ctx a alloc av m n s) (\<lambda>(s, pcm).
       rbind (decode_frames a alloc av fs s) (\<lambda>(s, pcms). Inr (s, pcm # pcms)))"

fun decode_frames_simple ::
  "av_decoder \<Rightarrow> (byte list \<times> nat) list \<Rightarrow> ccodec \<Rightarrow> fault + (ccodec \<times> byte list list)" where
  "decode_frames_simple av [] c = Inr (c, [])"
| "decode_frames_simple av ((m, n) # fs) c =
     rbind (DecodeG7262Pcm av m n c) (\<lambda>(c, pcm).
       rbind (decode_frames_simple av fs c) (\<lambda>(c, pcms). Inr (c, pcm # pcms)))"

section \<open>Lemmas\<close>

text \<open>A context that was made completely, against the codec that knows only its rate and history.\<close>

definition ctx_matches :: "ccodec \<times> g726_ctx option \<Rightarrow> ccodec \<Rightarrow> bool" where
  "ctx_matches s c \<longleftrightarrow>
     (case snd s of
        None \<Rightarrow> cc_g726_decoder c = None
      | Some ctx \<Rightarrow> cc_g726_decoder c = Some (gx_rate ctx, gx_history ctx) \<and> gx_c ctx = ObjPtr \<and> gx_frame ctx = ObjPtr) \<and>
     fst s = c\<lparr>cc_g726_decoder := None\<rparr>"

lemma strip_header_decoder:
  "strip_header m n (c\<lparr>cc_g726_decoder := d\<rparr>) =
     (case strip_header m n c of (m', k, c') \<Rightarrow> (m', k, c'\<lparr>cc_g726_decoder := d\<rparr>))"
  "strip_header m n c = (m', k, c') \<Longrightarrow> cc_g726_decoder c' = cc_g726_decoder c"
  by (auto simp: strip_header_def Let_def split: if_splits)

lemma one_frame_matches:
  assumes "ctx_matches s c" "av_found a" "av_context a" "0 \<le> av_open a" "av_frame a"
  shows "\<exists>s' c' pcm. DecodeG7262Pcm_ctx a alloc av m n s = Inr (s', pcm) \<and> DecodeG7262Pcm av m n c = Inr (c', pcm) \<and>
    ctx_matches s' c' \<and> snd s' \<noteq> None"
proof -
  obtain m' k c1 where h: "strip_header m n c = (m', k, c1)" by (cases "strip_header m n c") auto
  have d: "cc_g726_decoder c1 = cc_g726_decoder c" using strip_header_decoder(2) [OF h] .
  have s: "fst s = c\<lparr>cc_g726_decoder := None\<rparr>" using assms(1) by (simp add: ctx_matches_def)
  show ?thesis
  proof (cases "snd s")
    case None
    with assms d s show ?thesis
      by (auto simp: DecodeG7262Pcm_ctx_def DecodeG7262Pcm_def strip_header_decoder(1) h decodec_init_def malloc_ctx_def
          decode_with_def ctx_matches_def ptr_of_def g726_decode_def Let_def res_simps split: prod.splits option.splits)
  next
    case (Some ctx)
    with assms d s show ?thesis
      by (auto simp: DecodeG7262Pcm_ctx_def DecodeG7262Pcm_def strip_header_decoder(1) h
          decode_with_def ctx_matches_def g726_decode_def Let_def res_simps split: prod.splits option.splits)
  qed
qed

lemma frames_match:
  assumes "ctx_matches s c" "av_found a" "av_context a" "0 \<le> av_open a" "av_frame a"
  shows "\<exists>s' c' pcms. decode_frames a alloc av fs s = Inr (s', pcms) \<and> decode_frames_simple av fs c = Inr (c', pcms) \<and>
    ctx_matches s' c' \<and> (fs \<noteq> [] \<or> snd s \<noteq> None \<longrightarrow> snd s' \<noteq> None)"
  using assms(1)
proof (induction fs arbitrary: s c)
  case (Cons f fs)
  obtain m n where f: "f = (m, n)" by (cases f)
  obtain s1 c1 pcm where one: "DecodeG7262Pcm_ctx a alloc av m n s = Inr (s1, pcm)" "DecodeG7262Pcm av m n c = Inr (c1, pcm)"
    "ctx_matches s1 c1" "snd s1 \<noteq> None"
    using one_frame_matches [OF Cons.prems assms(2-5)] by blast
  from Cons.IH [OF one(3)] obtain s' c' pcms where "decode_frames a alloc av fs s1 = Inr (s', pcms)"
    "decode_frames_simple av fs c1 = Inr (c', pcms)" "ctx_matches s' c'" "snd s' \<noteq> None"
    using one(4) by blast
  with one show ?case by (simp add: f res_simps)
qed simp

lemma frames_keep_encode_len:
  "decode_frames_simple av fs c = Inr (c', pcms) \<Longrightarrow> cc_encode_len c' = cc_encode_len c"
proof (induction fs arbitrary: c pcms)
  case (Cons f fs)
  obtain m n where f: "f = (m, n)" by (cases f)
  obtain c1 pcm where one: "DecodeG7262Pcm av m n c = Inr (c1, pcm)"
    using Cons.prems by (auto simp: f rbind_eq_Inr)
  then have "cc_encode_len c1 = cc_encode_len c"
    by (auto simp: DecodeG7262Pcm_def strip_header_def Let_def split: prod.splits option.splits if_splits)
  with Cons one show ?case by (auto simp: f res_simps rbind_eq_Inr)
qed simp

text \<open>A context that could not be opened: frames are dropped, and its frame pointer stays junk.\<close>

lemma frames_unopened:
  assumes "\<And>rate h x. fst (av rate h x) < 0" "av_found a" "av_context a" "av_open a < 0"
    and "snd s = None \<and> fs \<noteq> [] \<or> (\<exists>ctx. snd s = Some ctx \<and> gx_c ctx = ObjPtr \<and> gx_frame ctx = JunkPtr)"
  shows "\<exists>s' pcms ctx. decode_frames a alloc av fs s = Inr (s', pcms) \<and> snd s' = Some ctx \<and> gx_frame ctx = JunkPtr"
  using assms(5)
proof (induction fs arbitrary: s)
  case (Cons f fs)
  obtain m n where f: "f = (m, n)" by (cases f)
  have "\<exists>s1 pcm ctx. DecodeG7262Pcm_ctx a alloc av m n s = Inr (s1, pcm) \<and> snd s1 = Some ctx \<and>
      gx_c ctx = ObjPtr \<and> gx_frame ctx = JunkPtr"
    using Cons.prems assms(1-4)
    by (auto simp: DecodeG7262Pcm_ctx_def decodec_init_def malloc_ctx_def decode_with_def Let_def res_simps split: prod.splits)
  then obtain s1 pcm ctx where one: "DecodeG7262Pcm_ctx a alloc av m n s = Inr (s1, pcm)" "snd s1 = Some ctx"
    "gx_c ctx = ObjPtr" "gx_frame ctx = JunkPtr"
    by blast
  with Cons.IH [of s1] show ?case by (auto simp: f res_simps)
qed auto

text \<open>
  What the frames decode to: one decoder of libav, opened with one rate, answers for each packet in
  turn. \<open>frame_packet\<close> is what is sent to it of a frame, without the HiSilicon header.
\<close>

fun g726_session :: "av_decoder \<Rightarrow> nat \<Rightarrow> av_history \<Rightarrow> byte list list \<Rightarrow> (int \<times> byte list) list" where
  "g726_session av rate hist [] = []"
| "g726_session av rate hist (x # xs) =
     g726_decode (av rate hist x) 2048 # g726_session av rate (hist @ [(x, 0 \<le> fst (av rate hist x))]) xs"

definition body_length :: "bool \<Rightarrow> nat \<Rightarrow> int" where
  "body_length header n = (if header then int n - 4 else int n)"

definition frame_packet :: "bool \<Rightarrow> byte list \<times> nat \<Rightarrow> byte list" where
  "frame_packet header f = take (nat (body_length header (snd f))) (if header then drop 4 (fst f) else fst f)"

lemma decode_one_packet:
  assumes "\<not> cc_first_frame c" "cc_g726_decoder c = Some (rate, hist)" "x = frame_packet (cc_haisi_header c) (m, n)"
  shows "\<exists>c'. DecodeG7262Pcm av m n c = Inr (c', snd (g726_decode (av rate hist x) 2048)) \<and>
    \<not> cc_first_frame c' \<and> cc_haisi_header c' = cc_haisi_header c \<and>
    cc_g726_decoder c' = Some (rate, hist @ [(x, 0 \<le> fst (av rate hist x))]) \<and>
    cc_result_len c' = fst (g726_decode (av rate hist x) 2048)"
  using assms(1,2)
  by (auto simp: DecodeG7262Pcm_def strip_header_def Let_def assms(3) frame_packet_def body_length_def split: prod.split)

lemma frames_session:
  assumes "\<not> cc_first_frame c" "cc_g726_decoder c = Some (rate, hist)"
  shows "\<exists>c'. decode_frames_simple av fs c =
      Inr (c', map snd (g726_session av rate hist (map (frame_packet (cc_haisi_header c)) fs))) \<and>
    (fs \<noteq> [] \<longrightarrow> cc_result_len c' = fst (last (g726_session av rate hist (map (frame_packet (cc_haisi_header c)) fs))))"
  using assms
proof (induction fs arbitrary: c hist)
  case (Cons f fs)
  obtain m n where f: "f = (m, n)" by (cases f)
  define x where "x = frame_packet (cc_haisi_header c) f"
  obtain c1 where c1: "DecodeG7262Pcm av m n c = Inr (c1, snd (g726_decode (av rate hist x) 2048))"
    "\<not> cc_first_frame c1" "cc_haisi_header c1 = cc_haisi_header c"
    "cc_g726_decoder c1 = Some (rate, hist @ [(x, 0 \<le> fst (av rate hist x))])"
    "cc_result_len c1 = fst (g726_decode (av rate hist x) 2048)"
    using decode_one_packet [OF Cons.prems x_def [unfolded f], of av] by blast
  from Cons.IH [OF c1(2,4)] show ?case
    using c1 by (cases fs) (auto simp: f x_def [unfolded f, symmetric] res_simps)
qed simp

lemma first_frame_session:
  assumes "fs \<noteq> []" "header = HaveHaiSiHeader (fst (hd fs)) (snd (hd fs))"
    "outs = g726_session av (g726_rate (body_length header (snd (hd fs)))) [] (map (frame_packet header) fs)"
  shows "\<exists>c'. decode_frames_simple av fs (CCodec_new left) = Inr (c', map snd outs) \<and> cc_result_len c' = fst (last outs)"
proof -
  obtain m n fs' where fs: "fs = (m, n) # fs'" using assms(1) by (cases fs) auto
  define rate where "rate = g726_rate (body_length header n)"
  define c where "c = (CCodec_new left)\<lparr>cc_haisi_header := header, cc_first_frame := False,
    cc_g726_decoder := Some (rate, []), cc_g726_bit_rate := rate\<rparr>"
  have c: "\<not> cc_first_frame c" "cc_g726_decoder c = Some (rate, [])" "cc_haisi_header c = header"
    by (simp_all add: c_def)
  have "DecodeG7262Pcm av m n (CCodec_new left) = DecodeG7262Pcm av m n c"
    by (simp add: DecodeG7262Pcm_def strip_header_def c_def assms(2) fs rate_def body_length_def Let_def CCodec_new_def)
  then have "decode_frames_simple av fs (CCodec_new left) = decode_frames_simple av fs c" by (simp add: fs)
  with frames_session [OF c(1,2), of av fs] assms(1) show ?thesis
    by (simp add: assms(3) c(3) rate_def fs)
qed

section \<open>Property\<close>

text \<open>
  C22. The life of a codec that decodes G.726, given at least one frame, that contexts and frames can
  be allocated, and that libav rejects packets for a context it could not open. When libav has the
  decoder and opens it, one context, of the bit rate the first frame's length tells, decodes all
  frames in order (each answer may depend on everything sent before), and the destructor frees
  frame, context and buffers, each once, but not the output buffer when the last frame gave nothing.
  When libav lacks the decoder the first frame reads a pointer that was never set, and when it cannot
  be opened the destructor does.
\<close>

theorem codec_lifetime:
  assumes "fs \<noteq> []" "av_context a" "av_frame a" "av_open a < 0 \<Longrightarrow> (\<And>rate h x. fst (av rate h x) < 0)"
  shows "rbind (decode_frames a alloc av fs (CCodec_new left, None)) (\<lambda>(s, pcms).
      rbind (CCodec_destroy s) (\<lambda>freed. Inr (pcms, freed))) =
    (if av_found a \<and> 0 \<le> av_open a
     then (let header = HaveHaiSiHeader (fst (hd fs)) (snd (hd fs));
               outs = g726_session av (g726_rate (body_length header (snd (hd fs)))) [] (map (frame_packet header) fs) in
       Inr (map snd outs, (if fst (last outs) \<noteq> 0 then [FreedOutBuf] else []) @
         [FreedEncodeBuf, FreedFrame, FreedContext, FreedCtx, FreedAdpcmState]))
     else Inl Uninitialised)"
proof (cases "av_found a")
  case False
  obtain m n fs' where fs: "fs = (m, n) # fs'" using assms(1) by (cases fs) auto
  with False show ?thesis
    by (simp add: DecodeG7262Pcm_ctx_def decodec_init_def malloc_ctx_def decode_with_def res_simps split: prod.splits)
next
  case found: True
  show ?thesis
  proof (cases "0 \<le> av_open a")
    case True
    have "ctx_matches (CCodec_new left, None) (CCodec_new left)" by (simp add: ctx_matches_def CCodec_new_def)
    from frames_match [OF this found assms(2) True assms(3), of alloc av fs] assms(1)
    obtain s' c' pcms where r: "decode_frames a alloc av fs (CCodec_new left, None) = Inr (s', pcms)"
      "decode_frames_simple av fs (CCodec_new left) = Inr (c', pcms)" "ctx_matches s' c'" "snd s' \<noteq> None"
      by auto
    have "cc_encode_len c' = 2048" using frames_keep_encode_len [OF r(2)] by (simp add: CCodec_new_def OUT_BUF_def)
    with r found True first_frame_session [OF assms(1) refl refl, of av left] show ?thesis
      by (auto simp: Let_def ctx_matches_def CCodec_destroy_def decodec_destroy_def free_if_set_def res_simps)
  next
    case False
    have neg: "fst (av rate h x) < 0" for rate h x using assms(4) False by simp
    obtain s' pcms ctx where "decode_frames a alloc av fs (CCodec_new left, None) = Inr (s', pcms)" "snd s' = Some ctx"
      "gx_frame ctx = JunkPtr"
      using frames_unopened [where av = av and a = a and fs = fs and alloc = alloc and s = "(CCodec_new left, None)"]
        neg found assms(1,2) False by force
    with found False show ?thesis
      by (simp add: CCodec_destroy_def decodec_destroy_def free_if_set_def res_simps)
  qed
qed

text \<open>A decoder whose answer counts the packets it got before.\<close>

definition counting_decoder :: av_decoder where
  "counting_decoder rate hist packet = (0, Some [of_nat (length hist), of_nat (length packet)])"

theorem codec_lifetime_witness:
  "rbind (decode_frames \<lparr>av_found = True, av_context = True, av_open = 0, av_frame = True\<rparr> True counting_decoder
      [(replicate 80 7, 80), (replicate 40 7, 40)] (CCodec_new CtxNull, None))
      (\<lambda>(s, pcms). rbind (CCodec_destroy s) (\<lambda>freed. Inr (pcms, freed))) =
    Inr ([[0, 80], [1, 40]], [FreedOutBuf, FreedEncodeBuf, FreedFrame, FreedContext, FreedCtx, FreedAdpcmState])"
proof -
  let ?a = "\<lparr>av_found = True, av_context = True, av_open = 0, av_frame = True\<rparr>"
  show ?thesis
    using codec_lifetime [of "[(replicate 80 7, 80), (replicate 40 7, 40)]" ?a counting_decoder True CtxNull]
    by (simp add: HaveHaiSiHeader_def body_length_def frame_packet_def counting_decoder_def g726_decode_def)
qed

end
