(* ===== verification/Command_Path.thy ===== *)
theory Command_Path
  imports Jt1078_Server Redis_Mq
begin

text \<open>
  The way of a subscription through jt1078_server to the 808 server: the forward server's call of the
  service, the JSON command, and the push to the redis list that the 808 server reads
  (\<open>ForwardServer::ProcessPacket_Subscriber\<close>, \<open>Jt1078Service::SendCommandTo808\<close>, \<open>CRedisMqServer::RpushList\<close>).
\<close>

text \<open>The pushes of one event; \<open>ok\<close>: hiredis takes the command.\<close>

fun push_all :: "bool \<Rightarrow> (cstring \<times> cstring) list \<Rightarrow> redis_mq \<Rightarrow> fault + (redis_mq \<times> redis_out list)" where
  "push_all ok [] mq = Inr (mq, [])"
| "push_all ok ((lst, data) # ps) mq =
     rbind (RedisMq_RpushList ok lst data mq) (\<lambda>(mq, outs).
       rbind (push_all ok ps mq) (\<lambda>(mq, outs'). Inr (mq, outs @ outs')))"

definition Service_event ::
  "(json_obj \<Rightarrow> cstring option) \<Rightarrow> bool \<Rightarrow> bool \<Rightarrow> session_id \<times> sub_event \<Rightarrow> jt1078_service \<Rightarrow> redis_mq \<Rightarrow>
    fault + (jt1078_service \<times> redis_mq \<times> redis_out list)" where
  "Service_event dump ok bRealtime ev sv mq =
     rbind (Service_forward_event dump bRealtime ev sv) (\<lambda>(sv, pushes).
       rbind (push_all ok pushes mq) (\<lambda>(mq, outs). Inr (sv, mq, outs)))"

text \<open>A subscription of a pc client, whose vehicle has 14 digits.\<close>

definition watches :: "u64 \<Rightarrow> ipc_packet \<Rightarrow> bool" where
  "watches did p \<longleftrightarrow> m_uPktType p AND IPC_PKT_TYPE_MASK = IPC_PKT_TYPE_SUBSCRIBE_DEVICE_ID \<and>
     \<not> IS_FROM_WEB_SERVER p \<and> GenerateDeviceIdByBuffer (m_data p) = did \<and> unat did < 2 ^ 56"

lemma watch_step:
  assumes "watches did p"
  shows "Forward_step (sid, PacketCompleted p) fs = Inr (fwd_subscribe did sid fs,
    if Publisher_Exists did fs then [] else [SendCommandTo808Call (dev_text did) True (fs_is_realtime fs)])"
  using assms
  by (simp add: watches_def Forward_step_def Forward_OnPacketCompleted_def
      ProcessPacket_Subscriber_def Let_def res_simps NotifyOpenCarTerminal_def
      GenerateDeviceIdStrByDeviceId_eq fwd_subscribe_def ipc_consts del: hex_str.simps)

lemma Command808_open:
  "Command808 (dev_text did) True True sv = Some obj \<Longrightarrow>
    map_of obj (ascii ''iccid'') = Some (take 12 (dev_text did)) \<and> map_of obj (ascii ''commandId'') = Some (ascii ''9101'')"
proof -
  have k: "ascii ''iccid'' \<noteq> ascii ''port''" "ascii ''iccid'' \<noteq> ascii ''ip''"
    "ascii ''commandId'' \<notin> {ascii ''port'', ascii ''ip'', ascii ''iccid'', ascii ''channelNo'',
       ascii ''dataType'', ascii ''codeStreamType''}"
    by (simp_all add: ascii_def of_char_def)
  assume "Command808 (dev_text did) True True sv = Some obj"
  then show ?thesis using k by (auto simp: Command808_def Let_def split: if_splits simp del: hex_str.simps)
qed

lemma Command808_forward: "Command808 str c r (sv\<lparr>sv_forward_realtime := fs\<rparr>) = Command808 str c r sv"
  by (simp add: Command808_def)

text \<open>
  C10. The first watcher. When a pc client asks the realtime server for a vehicle nobody watches, its
  subscriber joins a new channel and redis is sent one command, the JSON that opens this vehicle's
  stream, pushed to the configured list, provided its text fits the 2558 bytes of the buffer and has no
  formatting directive; unless the connection to redis is down, when the server uses the freed context.
\<close>

theorem first_watcher_opens_stream:
  assumes "watches did p" "\<not> Publisher_Exists did (sv_forward_realtime sv)" "fs_is_realtime (sv_forward_realtime sv)"
    and "Command808 (dev_text did) True True sv = Some obj" "dump obj = Some json" "json \<noteq> []"
    and "length (rpush_text (sv_redis_808_list sv) json) \<le> 2558" "\<not> has_directive (rpush_text (sv_redis_808_list sv) json)"
    and "mq_ctx mq = Some k"
  shows "map_of obj (ascii ''iccid'') = Some (take 12 (dev_text did)) \<and> map_of obj (ascii ''commandId'') = Some (ascii ''9101'') \<and>
    Service_event dump True True (sid, PacketCompleted p) sv mq =
      (if k \<in> set (mq_live mq)
       then Inr (sv\<lparr>sv_forward_realtime := fwd_subscribe did sid (sv_forward_realtime sv)\<rparr>, mq,
         [(k, CmdRpush, rpush_text (sv_redis_808_list sv) json)])
       else Inl UseAfterFree)"
proof -
  let ?sv = "sv\<lparr>sv_forward_realtime := fwd_subscribe did sid (sv_forward_realtime sv)\<rparr>"
  have c: "Command808 (dev_text did) True True ?sv = Some obj"
    using assms(4) by (simp only: Command808_forward)
  have ev: "Service_forward_event dump True (sid, PacketCompleted p) sv = Inr (?sv, [(sv_redis_808_list sv, json)])"
    using assms(2,3,5,6)
    by (simp add: Service_forward_event_def watch_step [OF assms(1)] res_simps SendCommandTo808_def c del: hex_str.simps)
  show ?thesis
    using Command808_open [OF assms(4)] rpush_dead [of mq k "sv_redis_808_list sv" json]
      rpush_live [of mq k "sv_redis_808_list sv" json] assms(7,8,9)
    by (auto simp: Service_event_def ev mq_step_def res_simps simp del: hex_str.simps)
qed

theorem first_watcher_opens_stream_witness:
  "\<exists>sv mq sv'. mq_ctx mq = Some 0 \<and>
    Service_event (\<lambda>_. Some (ascii ''j'')) True True (7, PacketCompleted (sub_packet IPC_PKT_TYPE_SUBSCRIBE_DEVICE_ID (ascii ''5''))) sv mq =
      Inr (sv', mq, [(0, CmdRpush, ascii ''rpush l j'')])"
proof -
  define sv where "sv = sv_sample\<lparr>sv_forward_realtime := fs_empty\<rparr>"
  define mq where "mq = \<lparr>mq_passport = [], mq_index = 0, mq_ctx = Some 0, mq_connected = True,
    mq_timer = TimerEventWatcher_new, mq_live = [0], mq_next = 1\<rparr>"
  let ?p = "sub_packet IPC_PKT_TYPE_SUBSCRIBE_DEVICE_ID (ascii ''5'')" and ?d = "\<lambda>_ :: json_obj. Some (ascii ''j'')"
  have w: "watches 5 ?p"
    by (simp add: watches_def sub_packet_def IS_FROM_WEB_SERVER_def ipc_consts sample_id packet_new_def)
  have sv: "\<not> Publisher_Exists 5 (sv_forward_realtime sv)" "fs_is_realtime (sv_forward_realtime sv)" "sv_redis_808_list sv = ascii ''l''"
    by (simp_all add: sv_def fs_empty_def Publisher_Exists_def sv_sample_def Let_def)
  have "(dev_text 5 :: cstring) \<noteq> []" using length_hex_str [of 14 "unat (5 :: u64)"] by (metis list.size(3) zero_neq_numeral)
  then obtain obj where obj: "Command808 (dev_text 5) True True sv = Some obj"
    by (simp add: Command808_def Let_def del: hex_str.simps)
  have t: "rpush_text (sv_redis_808_list sv) (ascii ''j'') = ascii ''rpush l j''" by (simp add: sv(3) rpush_text_def ascii_def)
  have j: "ascii ''j'' \<noteq> []" "length (rpush_text (sv_redis_808_list sv) (ascii ''j'')) \<le> 2558"
    "\<not> has_directive (rpush_text (sv_redis_808_list sv) (ascii ''j''))"
    unfolding t by (simp_all add: ascii_def)
  have m: "mq_ctx mq = Some 0" "0 \<in> set (mq_live mq)" by (simp_all add: mq_def)
  show ?thesis
    using first_watcher_opens_stream [OF w sv(1,2) obj, of ?d "ascii ''j''" mq 0 7] j m t by auto
qed

end
