(* ===== verification/Spec2Isabelle.thy ===== *)
theory Spec2Isabelle
  imports Prelude Std_Map Byte_Buffer Framing Jt1078_Decoder Ipc_Packet Device_Id Tcp_Session
    Subscription Forward_Server Jt1078_Server Pc_Server G711 Adpcm Audio_Codec Rtmp_Stream Rtmp_Client
    Web_Server Work_Queue Rtmp_Worker Car_Topics Car_Client Car_Web
    Timers Redis_Mq Pipe Vehicle_Path Startup Codec_Lifetime
    Command_Path
begin

text \<open>
  Verification library of the video relay for vehicle terminals.

  \<^bold>\<open>The program.\<close>  Vehicles send their video and audio as JT/T 1078 packets over TCP to the
  server of src/jt1078/jt1078_server.  The forward server of src/jt1078/forward_server hands each
  packet, framed as an ipc packet of src/core/ipc_packet, to the subscribers of the vehicle's
  channel, and a redis list (src/core/database) tells the 808 server which vehicles shall send.  Three
  programs subscribe: src/pc_server passes the packets on to desktop clients, src/new_web_server to web
  sockets, and src/web_server turns them into RTMP streams, for which it decodes and encodes audio
  (src/web_server/audio) and writes frames through libav (src/web_server/rtmp).  They are callbacks run
  by one libevent or asio loop, over the sessions of src/core/tcp; only the RTMP worker of
  src/web_server is a thread of its own, fed through a queue.

  \<^bold>\<open>How it is modelled.\<close>  A class is a record, an enumeration a datatype, a machine integer a word of its
  width, a std::map the ordered association list of Std_Map.  A handler is a function of the state and
  of what the kernel or a library answered (the result of a write, the bytes of a read, libav's return
  value), and yields the new state together with the calls it made; a dereferenced null, dangling or
  unset pointer, an index out of range or an uncaught exception is a value of the fault type of
  Prelude, returned as Inl.  Runs of a server are folds of its handlers over lists of events, so that
  orderings are explicit; the two threads around the queue are steps of an interleaving.  Nothing is
  assumed of the kernel or of libraries but what a theorem's hypotheses name.

  \<^bold>\<open>Theories, from the bottom up.\<close>
  Prelude holds the machine types, the faults, sequencing of fallible steps and byte orders.
  Std_Map is std::map with its iterators' order, interpreted as a keyed store.
  Byte_Buffer models src/core/buffer/Buffer.cpp, its two indexes and reading of words; the lemmas give
  the readable bytes after every operation.
  Framing is the interface of the two stream decoders: a locale with one decoding step as its parameter
  and its laws as assumptions, in which decoding under any chunking is shown to be the stateless parser
  of the whole stream.  Jt1078_Decoder (src/jt1078/jt1078_server/Jt1078Decoder.cpp) and Ipc_Packet
  (src/core/ipc_packet) interpret it and give the round trips with their encoders.
  Device_Id models src/jt1078/Jt1078Util.cpp: text, number and SIM card.
  Tcp_Session models src/core/tcp: sending with pending data, reading, connecting; its locale
  reliable_sender is what a list of sends conserves, interpreted for subscribers and pc sessions.
  Subscription is the contract of who listens to what, a locale interpreted for the three publishers.
  Forward_Server (src/jt1078/forward_server) implements it and relays packets; Jt1078_Server adds the
  vehicles' sessions and the service; Pc_Server models src/pc_server and src/jt1078_client.
  G711, Adpcm, Audio_Codec and Codec_Lifetime model src/web_server/audio: the codes, the frames and
  buffers, and the memory of a codec.  Rtmp_Stream and Rtmp_Client model src/web_server/rtmp, Web_Server
  src/web_server/http.  Work_Queue is the worker thread of src/web_server/thread, a locale over the
  virtual functions; Rtmp_Worker interprets it for RtmpThread.
  Car_Topics, Car_Client and Car_Web model src/new_web_server: topics and web sockets, the client with
  its timer and pending operations, and both together.
  Timers (src/core/timer) and Redis_Mq (src/core/database) model reconnection and the redis queue,
  Pipe the channels of src/core/pipe with the wiring and stop request of src/core/server.
  Vehicle_Path composes vehicle session, service, forward server, subscriber and new web server, from the
  bytes of a vehicle to what a browser is sent, and Command_Path a subscription with the command
  that redis gets.  Startup goes from the command line and the configuration
  file to the running servers and shows that jt1078_server starts in the state the others begin with.

  \<^bold>\<open>Bounds and fuel.\<close>  No definition has fuel.  The loops that may not end (draining a decoder, writing until
  a kernel answer other than EINTR) are partial functions into an option or recursions over the list of
  answers, where None means that the loop has not returned; the refinement theorems of the decoders prove
  that they return.  The limits in statements are those of the source: 950 bytes of body, 1024 and
  1008 bytes of ipc data, buffers of 512000 and 2048 bytes, chunks that fit beside the longest unfinished
  packet, reads of 1024 bytes.

  \<^bold>\<open>Not modelled.\<close>  The library behind an argument (libevent, asio, websocketpp, hiredis, libav, spdlog,
  OpenSSL, the JSON and INI readers under src/3part), text that only feeds the log, the clock, MasterServer's
  starting and joining of threads, which no program uses, the MySQL wrapper, which no
  build file compiles and whose log header does not exist, and src/jt1078/pub_sub, the uncompiled predecessor of the
  forward server.
\<close>

end
